(* ===== verification/Json.thy ===== *)
theory Json
  imports Prelude
begin

text \<open>
  JSON values and their text, as \<open>JSON.parse\<close> and \<open>JSON.stringify\<close> of the language's
  standard library treat them. Objects are association lists in property order; a
  repeated key in the text overwrites the earlier value in place. Numbers are integers:
  payload fractions and exponents are outside the model, so a text holding one does not
  parse here. \<^term>\<open>jsval\<close> adds what reading a property can produce beside JSON data:
  \<open>undefined\<close>, the inherited function members of objects and arrays, and the two
  prototype objects themselves.
\<close>

datatype json =
    JNull
  | JBool bool
  | JNum int
  | JStr string
  | JArr "json list"
  | JObj "(string \<times> json) list"

type_synonym props = "(string \<times> json) list"

datatype jsval = Undef | Val json | Fn string | ObjProto | ArrProto

section \<open>Text\<close>

abbreviation quote_char :: char where "quote_char \<equiv> CHR 0x22"
abbreviation backslash :: char where "backslash \<equiv> CHR 0x5C"

definition hex_digit :: "nat \<Rightarrow> char" where
  "hex_digit d = (if d < 10 then char_of (48 + d) else char_of (87 + d))"

definition hex_value :: "char \<Rightarrow> nat option" where
  "hex_value c = (let n = of_char c :: nat in
     if 48 \<le> n \<and> n \<le> 57 then Some (n - 48)
     else if 97 \<le> n \<and> n \<le> 102 then Some (n - 87)
     else if 65 \<le> n \<and> n \<le> 70 then Some (n - 55)
     else None)"

definition escape_char :: "char \<Rightarrow> string" where
  "escape_char c = (let n = of_char c :: nat in
     if c = quote_char then [backslash, quote_char]
     else if c = backslash then [backslash, backslash]
     else if n = 8 then [backslash, CHR ''b'']
     else if n = 9 then [backslash, CHR ''t'']
     else if n = 10 then [backslash, CHR ''n'']
     else if n = 12 then [backslash, CHR ''f'']
     else if n = 13 then [backslash, CHR ''r'']
     else if n < 32 then [backslash, CHR ''u'', CHR ''0'', CHR ''0'', hex_digit (n div 16), hex_digit (n mod 16)]
     else [c])"

definition quote_string :: "string \<Rightarrow> string" where
  "quote_string s = quote_char # concat (map escape_char s) @ [quote_char]"

fun json_stringify :: "json \<Rightarrow> string" where
  "json_stringify JNull = ''null''"
| "json_stringify (JBool b) = (if b then ''true'' else ''false'')"
| "json_stringify (JNum i) = string_of_int i"
| "json_stringify (JStr s) = quote_string s"
| "json_stringify (JArr vs) = CHR ''['' # join '','' (map json_stringify vs) @ '']''"
| "json_stringify (JObj ps) =
     CHR ''{'' # join '','' (map (\<lambda>(k, v). quote_string k @ '':'' @ json_stringify v) ps) @ ''}''"

definition member_text :: "string \<times> json \<Rightarrow> string" where
  "member_text p = quote_string (fst p) @ '':'' @ json_stringify (snd p)"

definition json_space :: "char \<Rightarrow> bool" where
  "json_space c = (let n = of_char c :: nat in n = 32 \<or> n = 9 \<or> n = 10 \<or> n = 13)"

definition skip_ws :: "string \<Rightarrow> string" where
  "skip_ws = dropWhile json_space"

text \<open>The body of a string literal after its opening quote.\<close>

fun parse_string :: "string \<Rightarrow> (string \<times> string) option" where
  "parse_string [] = None"
| "parse_string (c # cs) =
     (if c = quote_char then Some ([], cs)
      else if c = backslash then
        (case cs of
           [] \<Rightarrow> None
         | e # r \<Rightarrow>
             (if e = CHR ''u'' then
                (case r of
                   a # b # d # f # r' \<Rightarrow>
                     (case (hex_value a, hex_value b, hex_value d, hex_value f) of
                        (Some a', Some b', Some d', Some f') \<Rightarrow>
                          map_option (apfst (Cons (char_of (16 * d' + f')))) (parse_string r')
                      | _ \<Rightarrow> None)
                 | _ \<Rightarrow> None)
              else
                (case (if e = quote_char \<or> e = backslash \<or> e = CHR ''/'' then Some e
                       else if e = CHR ''b'' then Some (char_of (8 :: nat))
                       else if e = CHR ''t'' then Some (char_of (9 :: nat))
                       else if e = CHR ''n'' then Some (char_of (10 :: nat))
                       else if e = CHR ''f'' then Some (char_of (12 :: nat))
                       else if e = CHR ''r'' then Some (char_of (13 :: nat))
                       else None) of
                   None \<Rightarrow> None
                 | Some x \<Rightarrow> map_option (apfst (Cons x)) (parse_string r))))
      else if (of_char c :: nat) < 32 then None
      else map_option (apfst (Cons c)) (parse_string cs))"

definition parse_digits :: "string \<Rightarrow> (nat \<times> string) option" where
  "parse_digits s =
     (let ds = takeWhile is_digit s; r = dropWhile is_digit s in
      if ds = [] \<or> (hd ds = CHR ''0'' \<and> length ds \<noteq> 1) then None
      else if r \<noteq> [] \<and> hd r \<in> {CHR ''.'', CHR ''e'', CHR ''E''} then None
      else Some (nat_of_digits ds, r))"

definition parse_number :: "string \<Rightarrow> (json \<times> string) option" where
  "parse_number s =
     (case s of
        c # r \<Rightarrow>
          (if c = CHR ''-'' then map_option (apfst (\<lambda>n. JNum (- int n))) (parse_digits r)
           else map_option (apfst (\<lambda>n. JNum (int n))) (parse_digits s))
      | [] \<Rightarrow> None)"

definition strip_prefix :: "string \<Rightarrow> string \<Rightarrow> string option" where
  "strip_prefix p s = (if prefix p s then Some (drop (length p) s) else None)"

definition js_object :: "(string \<times> json) list \<Rightarrow> (string \<times> json) list" where
  "js_object ps = foldl (\<lambda>m (k, v). AList.update k v m) [] ps"

fun parse_value :: "nat \<Rightarrow> string \<Rightarrow> (json \<times> string) option"
and parse_elems :: "nat \<Rightarrow> string \<Rightarrow> (json list \<times> string) option"
and parse_members :: "nat \<Rightarrow> string \<Rightarrow> ((string \<times> json) list \<times> string) option" where
  "parse_value 0 s = None"
| "parse_value (Suc n) s =
     (case skip_ws s of
        [] \<Rightarrow> None
      | c # cs \<Rightarrow>
          if c = CHR ''n'' then map_option (Pair JNull) (strip_prefix ''ull'' cs)
          else if c = CHR ''t'' then map_option (Pair (JBool True)) (strip_prefix ''rue'' cs)
          else if c = CHR ''f'' then map_option (Pair (JBool False)) (strip_prefix ''alse'' cs)
          else if c = quote_char then map_option (apfst JStr) (parse_string cs)
          else if c = CHR ''['' then
            (case skip_ws cs of
               [] \<Rightarrow> None
             | d # r \<Rightarrow> if d = CHR '']'' then Some (JArr [], r)
                        else map_option (apfst JArr) (parse_elems n cs))
          else if c = CHR ''{'' then
            (case skip_ws cs of
               [] \<Rightarrow> None
             | d # r \<Rightarrow> if d = CHR ''}'' then Some (JObj [], r)
                        else map_option (apfst (\<lambda>ps. JObj (js_object ps))) (parse_members n cs))
          else parse_number (c # cs))"
| "parse_elems 0 s = None"
| "parse_elems (Suc n) s =
     (case parse_value n s of
        None \<Rightarrow> None
      | Some (v, r) \<Rightarrow>
          (case skip_ws r of
             [] \<Rightarrow> None
           | c # r' \<Rightarrow>
               if c = CHR '','' then map_option (apfst (Cons v)) (parse_elems n r')
               else if c = CHR '']'' then Some ([v], r')
               else None))"
| "parse_members 0 s = None"
| "parse_members (Suc n) s =
     (case skip_ws s of
        [] \<Rightarrow> None
      | c # cs \<Rightarrow>
          if c \<noteq> quote_char then None
          else
            (case parse_string cs of
               None \<Rightarrow> None
             | Some (k, r) \<Rightarrow>
                 (case skip_ws r of
                    [] \<Rightarrow> None
                  | d # r1 \<Rightarrow>
                      if d \<noteq> CHR '':'' then None
                      else
                        (case parse_value n r1 of
                           None \<Rightarrow> None
                         | Some (v, r2) \<Rightarrow>
                             (case skip_ws r2 of
                                [] \<Rightarrow> None
                              | e # r3 \<Rightarrow>
                                  if e = CHR '','' then map_option (apfst (Cons (k, v))) (parse_members n r3)
                                  else if e = CHR ''}'' then Some ([(k, v)], r3)
                                  else None)))))"

text \<open>Two units of fuel per character are enough: a level of nesting costs two calls.\<close>

definition json_parse :: "string \<Rightarrow> json option" where
  "json_parse s =
     (case parse_value (2 * length s + 2) s of
        None \<Rightarrow> None
      | Some (v, r) \<Rightarrow> if skip_ws r = [] then Some v else None)"

fun wf_json :: "json \<Rightarrow> bool" where
  "wf_json (JArr vs) = list_all wf_json vs"
| "wf_json (JObj ps) = (distinct (map fst ps) \<and> list_all (\<lambda>p. wf_json (snd p)) ps)"
| "wf_json _ = True"

section \<open>What is written is read back\<close>

lemma hex_value_hex_digit [simp]: "d < 16 \<Longrightarrow> hex_value (hex_digit d) = Some d"
  by (simp add: hex_value_def hex_digit_def Let_def)

lemma hex_value_zero [simp]: "hex_value (CHR ''0'') = Some 0"
  by (simp add: hex_value_def Let_def)

lemma char_eqI: "(of_char c :: nat) = n \<Longrightarrow> char_of n = c"
  by auto

lemma parse_string_escape:
  "parse_string (escape_char c @ s) = map_option (apfst (Cons c)) (parse_string s)"
proof -
  have *: "16 * ((of_char c :: nat) div 16) + of_char c mod 16 = of_char c"
    by simp
  show ?thesis
    by (simp add: escape_char_def Let_def char_eqI *)
qed

lemma parse_string_quoted:
  "parse_string (concat (map escape_char s) @ quote_char # r) = Some (s, r)"
  by (induction s) (simp_all add: parse_string_escape)

definition ends_number :: "string \<Rightarrow> bool" where
  "ends_number r = (r = [] \<or> hd r \<in> {CHR '','', CHR '']'', CHR ''}''})"

lemma ends_number_simps [simp]:
  "ends_number []" "ends_number (CHR '','' # r)" "ends_number (CHR '']'' # r)"
  "ends_number (CHR ''}'' # r)"
  by (simp_all add: ends_number_def)

lemma not_digit [simp]:
  "\<not> is_digit (CHR '','')" "\<not> is_digit (CHR '']'')" "\<not> is_digit (CHR ''}'')"
  "\<not> is_digit (CHR ''-'')"
  by (simp_all add: is_digit_def)

lemma takeWhile_digits:
  "ends_number r \<Longrightarrow> takeWhile is_digit (string_of_nat n @ r) = string_of_nat n"
  "ends_number r \<Longrightarrow> dropWhile is_digit (string_of_nat n @ r) = r"
  by (cases r; auto simp: ends_number_def takeWhile_append dropWhile_append string_of_nat_digits
      dest: string_of_nat_digits)+

lemma parse_digits_string_of_nat:
  assumes "ends_number r"
  shows "parse_digits (string_of_nat n @ r) = Some (n, r)"
proof -
  have "hd (string_of_nat n) = CHR ''0'' \<Longrightarrow> length (string_of_nat n) = 1"
    by (frule string_of_nat_hd_zero) (simp add: string_of_nat.simps)
  moreover have "r \<noteq> [] \<Longrightarrow> hd r \<notin> {CHR ''.'', CHR ''e'', CHR ''E''}"
    using assms by (auto simp: ends_number_def)
  ultimately show ?thesis
    using assms by (auto simp: parse_digits_def takeWhile_digits Let_def)
qed

lemma hd_string_of_nat: "string_of_nat n = c # cs \<Longrightarrow> is_digit c"
  by (metis list.set_intros(1) string_of_nat_digits)

lemma parse_number_string_of_int:
  assumes "ends_number r"
  shows "parse_number (string_of_int i @ r) = Some (JNum i, r)"
proof (cases "i < 0")
  case True
  then show ?thesis
    using assms by (simp add: parse_number_def string_of_int_def parse_digits_string_of_nat)
next
  case False
  obtain c cs where c: "string_of_nat (nat i) = c # cs"
    by (cases "string_of_nat (nat i)") auto
  then have "c \<noteq> CHR ''-''" using hd_string_of_nat by fastforce
  then show ?thesis
    using assms False c parse_digits_string_of_nat[OF assms, of "nat i"]
    by (simp add: parse_number_def string_of_int_def)
qed

text \<open>The first character of a value's text decides the branch of the parser.\<close>

definition opens_value :: "char \<Rightarrow> bool" where
  "opens_value c = (\<not> json_space c \<and> c \<noteq> CHR '']'' \<and> c \<noteq> CHR ''}'')"

lemma skip_ws_opens: "opens_value c \<Longrightarrow> skip_ws (c # s) = c # s"
  by (simp add: skip_ws_def opens_value_def)

lemma digit_opens: "is_digit c \<Longrightarrow> opens_value c"
  by (auto simp: is_digit_def opens_value_def json_space_def Let_def)

lemma string_of_int_opens: "\<exists>c cs. string_of_int i = c # cs \<and> (is_digit c \<or> c = CHR ''-'')"
proof (cases "i < 0")
  case True
  then show ?thesis by (simp add: string_of_int_def)
next
  case False
  obtain c cs where "string_of_nat (nat i) = c # cs"
    by (cases "string_of_nat (nat i)") auto
  with False show ?thesis
    by (auto simp: string_of_int_def dest: hd_string_of_nat)
qed

lemma stringify_opens: "\<exists>c cs. json_stringify v = c # cs \<and> opens_value c"
proof (cases v)
  case (JNum i)
  then show ?thesis
    using string_of_int_opens[of i] digit_opens
    by (auto simp: opens_value_def json_space_def)
qed (auto simp: quote_string_def opens_value_def json_space_def)

lemma skip_ws_stringify [simp]: "skip_ws (json_stringify v @ r) = json_stringify v @ r"
  using stringify_opens[of v] skip_ws_opens by auto

lemma length_stringify: "0 < length (json_stringify v)"
  using stringify_opens[of v] by auto

lemma skip_ws_punct [simp]:
  "skip_ws (CHR '','' # r) = CHR '','' # r" "skip_ws (CHR '']'' # r) = CHR '']'' # r"
  "skip_ws (CHR ''}'' # r) = CHR ''}'' # r" "skip_ws (CHR '':'' # r) = CHR '':'' # r"
  "skip_ws (quote_char # r) = quote_char # r" "skip_ws (CHR ''['' # r) = CHR ''['' # r"
  "skip_ws (CHR ''{'' # r) = CHR ''{'' # r" "skip_ws (CHR ''n'' # r) = CHR ''n'' # r"
  "skip_ws (CHR ''t'' # r) = CHR ''t'' # r" "skip_ws (CHR ''f'' # r) = CHR ''f'' # r"
  by (simp_all add: skip_ws_def json_space_def)

lemma parse_value_number:
  assumes "ends_number r"
  shows "parse_value (Suc n) (string_of_int i @ r) = Some (JNum i, r)"
proof -
  obtain c cs where c: "string_of_int i = c # cs" "is_digit c \<or> c = CHR ''-''"
    using string_of_int_opens by blast
  then have "skip_ws (c # cs @ r) = c # cs @ r"
    using skip_ws_stringify[of "JNum i" r] by simp
  moreover have "c \<notin> {CHR ''n'', CHR ''t'', CHR ''f'', quote_char, CHR ''['', CHR ''{''}"
    using c(2) by (auto simp: is_digit_def Let_def)
  ultimately show ?thesis
    using c(1) parse_number_string_of_int[OF assms, of i] by simp
qed

lemma parse_value_literals:
  "0 < n \<Longrightarrow> parse_value n (''null'' @ r) = Some (JNull, r)"
  "0 < n \<Longrightarrow> parse_value n (''true'' @ r) = Some (JBool True, r)"
  "0 < n \<Longrightarrow> parse_value n (''false'' @ r) = Some (JBool False, r)"
  by (cases n; simp add: strip_prefix_def)+

definition reads_back :: "json \<Rightarrow> bool" where
  "reads_back v = (\<forall>n r. ends_number r \<longrightarrow> 2 * length (json_stringify v) \<le> n \<longrightarrow>
     parse_value n (json_stringify v @ r) = Some (v, r))"

lemma reads_backD:
  "reads_back v \<Longrightarrow> ends_number r \<Longrightarrow> 2 * length (json_stringify v) \<le> n \<Longrightarrow>
   parse_value n (json_stringify v @ r) = Some (v, r)"
  by (simp add: reads_back_def)

lemma parse_elems_join:
  "vs \<noteq> [] \<Longrightarrow> (\<And>v. v \<in> set vs \<Longrightarrow> reads_back v) \<Longrightarrow>
   2 * length (join '','' (map json_stringify vs)) + 1 \<le> n \<Longrightarrow>
   parse_elems n (join '','' (map json_stringify vs) @ CHR '']'' # r) = Some (vs, r)"
proof (induction vs arbitrary: n)
  case Nil
  then show ?case by simp
next
  case (Cons v vs)
  then obtain m where n: "n = Suc m" by (cases n) auto
  show ?case
  proof (cases vs)
    case Nil
    with Cons.prems n show ?thesis by (simp add: reads_backD)
  next
    case (Cons w ws)
    let ?rest = "join '','' (map json_stringify vs)"
    have shape: "join '','' (map json_stringify (v # vs)) = json_stringify v @ CHR '','' # ?rest"
      using Cons by simp
    have "parse_value m (json_stringify v @ CHR '','' # ?rest @ CHR '']'' # r)
        = Some (v, CHR '','' # ?rest @ CHR '']'' # r)"
      using Cons.prems(2,3) n unfolding shape by (intro reads_backD) auto
    moreover have "parse_elems m (?rest @ CHR '']'' # r) = Some (vs, r)"
      using Cons.prems(2,3) n Cons unfolding shape by (intro Cons.IH) auto
    ultimately show ?thesis
      unfolding shape n by simp
  qed
qed

lemma parse_members_join:
  "ps \<noteq> [] \<Longrightarrow> (\<And>p. p \<in> set ps \<Longrightarrow> reads_back (snd p)) \<Longrightarrow>
   2 * length (join '','' (map member_text ps)) + 1 \<le> n \<Longrightarrow>
   parse_members n (join '','' (map member_text ps) @ CHR ''}'' # r) = Some (ps, r)"
proof (induction ps arbitrary: n)
  case Nil
  then show ?case by simp
next
  case (Cons p ps)
  obtain k v where p: "p = (k, v)" by (cases p)
  from Cons.prems obtain m where n: "n = Suc m" by (cases n) auto
  have rb: "reads_back v" using Cons.prems(2)[of p] p by simp
  have head: "parse_string (concat (map escape_char k) @ quote_char # t) = Some (k, t)" for t
    by (rule parse_string_quoted)
  show ?case
  proof (cases ps)
    case Nil
    with Cons.prems n p show ?thesis
      by (simp add: member_text_def quote_string_def head reads_backD[OF rb])
  next
    case (Cons q qs)
    let ?rest = "join '','' (map member_text ps)"
    have shape: "join '','' (map member_text (p # ps))
        = quote_string k @ CHR '':'' # json_stringify v @ CHR '','' # ?rest"
      using Cons p by (simp add: member_text_def)
    have "parse_value m (json_stringify v @ CHR '','' # ?rest @ CHR ''}'' # r)
        = Some (v, CHR '','' # ?rest @ CHR ''}'' # r)"
      using Cons.prems(3) n unfolding shape by (intro reads_backD[OF rb]) auto
    moreover have "parse_members m (?rest @ CHR ''}'' # r) = Some (ps, r)"
      using Cons.prems(2,3) n Cons unfolding shape by (intro Cons.IH) auto
    ultimately show ?thesis
      unfolding shape n by (simp add: quote_string_def head p)
  qed
qed

lemma js_object_distinct: "distinct (map fst ps) \<Longrightarrow> js_object ps = ps"
proof (induction ps rule: rev_induct)
  case Nil
  then show ?case by (simp add: js_object_def)
next
  case (snoc p ps)
  then show ?case
    by (cases p) (auto simp: js_object_def alist_update_new)
qed

lemma stringify_object:
  "json_stringify (JObj ps) = CHR ''{'' # join '','' (map member_text ps) @ ''}''"
  by (simp add: member_text_def[abs_def] case_prod_unfold)

lemma wf_reads_back: "wf_json v \<Longrightarrow> reads_back v"
proof (induction v)
  case (JArr vs)
  have IH: "reads_back v" if "v \<in> set vs" for v
    using JArr that by (simp add: list_all_iff)
  show ?case
    unfolding reads_back_def
  proof (intro allI impI)
    fix n r
    assume n: "2 * length (json_stringify (JArr vs)) \<le> n"
    then obtain m where m: "n = Suc m" by (cases n) auto
    show "parse_value n (json_stringify (JArr vs) @ r) = Some (JArr vs, r)"
    proof (cases vs)
      case Nil
      then show ?thesis using m by simp
    next
      case (Cons w ws)
      obtain c cs where c: "json_stringify w = c # cs" "opens_value c"
        using stringify_opens by blast
      have hd: "\<exists>t. join '','' (map json_stringify vs) = c # t"
        using Cons c(1) by (cases ws) auto
      have "parse_elems m (join '','' (map json_stringify vs) @ CHR '']'' # r) = Some (vs, r)"
        using n m Cons by (intro parse_elems_join IH) auto
      with hd c(2) m show ?thesis
        by (auto simp: skip_ws_opens opens_value_def)
    qed
  qed
next
  case (JObj ps)
  have IH: "reads_back (snd p)" if "p \<in> set ps" for p
    using JObj that by (cases p) (auto simp: list_all_iff)
  have dist: "js_object ps = ps"
    using JObj.prems by (simp add: js_object_distinct)
  show ?case
    unfolding reads_back_def stringify_object
  proof (intro allI impI)
    fix n r
    assume n: "2 * length (CHR ''{'' # join '','' (map member_text ps) @ ''}'') \<le> n"
    then obtain m where m: "n = Suc m" by (cases n) auto
    show "parse_value n ((CHR ''{'' # join '','' (map member_text ps) @ ''}'') @ r) = Some (JObj ps, r)"
    proof (cases ps)
      case Nil
      then show ?thesis using m by simp
    next
      case (Cons q qs)
      have hd: "\<exists>t. join '','' (map member_text ps) = quote_char # t"
        using Cons by (cases qs) (auto simp: member_text_def quote_string_def)
      have "parse_members m (join '','' (map member_text ps) @ CHR ''}'' # r) = Some (ps, r)"
        using n m Cons by (intro parse_members_join IH) auto
      with hd dist m show ?thesis by auto
    qed
  qed
next
  case (JNum i)
  show ?case
    unfolding reads_back_def
  proof (intro allI impI)
    fix n r
    assume "ends_number r" and n: "2 * length (json_stringify (JNum i)) \<le> n"
    moreover obtain m where "n = Suc m"
      using n length_stringify[of "JNum i"] by (cases n) auto
    ultimately show "parse_value n (json_stringify (JNum i) @ r) = Some (JNum i, r)"
      using parse_value_number by (simp del: parse_value.simps)
  qed
next
  case (JStr s)
  show ?case
    unfolding reads_back_def
  proof (intro allI impI)
    fix n r
    assume n: "2 * length (json_stringify (JStr s)) \<le> n"
    then obtain m where "n = Suc m" by (cases n) (auto simp: quote_string_def)
    then show "parse_value n (json_stringify (JStr s) @ r) = Some (JStr s, r)"
      by (simp add: quote_string_def parse_string_quoted)
  qed
next
  case (JBool b)
  show ?case
    unfolding reads_back_def using parse_value_literals(2,3)[simplified] by (cases b) simp_all
next
  case JNull
  show ?case
    unfolding reads_back_def using parse_value_literals(1)[simplified] by simp
qed

lemma json_parse_stringify: "wf_json v \<Longrightarrow> json_parse (json_stringify v) = Some v"
  using reads_backD[OF wf_reads_back, of v "[]" "2 * length (json_stringify v) + 2"]
  by (simp add: json_parse_def skip_ws_def)

interpretation json_text: codec wf_json json_stringify json_parse
  by unfold_locales (rule json_parse_stringify)

end
