(* ===== verification/Extract.thy ===== *)
theory Extract
  imports Json
begin

text \<open>
  The narrowing helpers of \<open>lib/extract.ts\<close> and the dotted-path lookup of
  \<open>strategies/routing/field-path.ts\<close>. Property reads follow JavaScript: an own property
  first, then the members inherited from \<open>Object.prototype\<close> or \<open>Array.prototype\<close>;
  arrays answer canonical indices and \<open>length\<close>.
\<close>

section \<open>Property access\<close>

definition object_members :: "string list" where
  "object_members = [''constructor'', ''hasOwnProperty'', ''isPrototypeOf'',
     ''propertyIsEnumerable'', ''toLocaleString'', ''toString'', ''valueOf'',
     ''__defineGetter__'', ''__defineSetter__'', ''__lookupGetter__'', ''__lookupSetter__'']"

definition array_members :: "string list" where
  "array_members = [''at'', ''concat'', ''copyWithin'', ''entries'', ''every'', ''fill'',
     ''filter'', ''find'', ''findIndex'', ''findLast'', ''findLastIndex'', ''flat'',
     ''flatMap'', ''forEach'', ''includes'', ''indexOf'', ''join'', ''keys'',
     ''lastIndexOf'', ''map'', ''pop'', ''push'', ''reduce'', ''reduceRight'',
     ''reverse'', ''shift'', ''slice'', ''some'', ''sort'', ''splice'', ''toReversed'',
     ''toSorted'', ''toSpliced'', ''unshift'', ''values'', ''with'']"

definition object_inherited :: "string \<Rightarrow> jsval" where
  "object_inherited k =
     (if k = ''__proto__'' then ObjProto
      else if k \<in> set object_members then Fn k else Undef)"

definition array_inherited :: "string \<Rightarrow> jsval" where
  "array_inherited k =
     (if k = ''__proto__'' then ArrProto
      else if k \<in> set array_members then Fn k else object_inherited k)"

text \<open>A property key that addresses an array element: a decimal numeral in canonical form.\<close>

definition array_index :: "string \<Rightarrow> nat option" where
  "array_index k =
     (if k \<noteq> [] \<and> list_all is_digit k \<and> string_of_nat (nat_of_digits k) = k
      then Some (nat_of_digits k) else None)"

definition array_read :: "json list \<Rightarrow> string \<Rightarrow> jsval" where
  "array_read vs k =
     (if k = ''length'' then Val (JNum (int (length vs)))
      else case array_index k of
             Some i \<Rightarrow> if i < length vs then Val (vs ! i) else Undef
           | None \<Rightarrow> array_inherited k)"

definition object_read :: "(string \<times> json) list \<Rightarrow> string \<Rightarrow> jsval" where
  "object_read ps k = (case map_of ps k of Some v \<Rightarrow> Val v | None \<Rightarrow> object_inherited k)"

fun read_indexed :: "jsval \<Rightarrow> string \<Rightarrow> jsval" where
  "read_indexed (Val (JObj ps)) k = object_read ps k"
| "read_indexed (Val (JArr vs)) k = array_read vs k"
| "read_indexed ObjProto k = (if k = ''__proto__'' then Val JNull else object_inherited k)"
| "read_indexed ArrProto k =
     (if k = ''__proto__'' then ObjProto else if k = ''length'' then Val (JNum 0)
      else array_inherited k)"
| "read_indexed _ k = Undef"

text \<open>The loop over the segments, with its early return on \<open>undefined\<close>.\<close>

fun walk_segments :: "jsval \<Rightarrow> string list \<Rightarrow> jsval" where
  "walk_segments current [] = current"
| "walk_segments current (segment # rest) =
     (case read_indexed current segment of
        Undef \<Rightarrow> Undef
      | next \<Rightarrow> walk_segments next rest)"

definition resolve_field_path :: "jsval \<Rightarrow> string \<Rightarrow> jsval" where
  "resolve_field_path payload path = walk_segments payload (split_on CHR ''.'' path)"

section \<open>Guards and extractors\<close>

fun is_plain_object :: "jsval \<Rightarrow> bool" where
  "is_plain_object (Val (JObj ps)) = True"
| "is_plain_object ObjProto = True"
| "is_plain_object _ = False"

fun is_array :: "jsval \<Rightarrow> bool" where
  "is_array (Val (JArr vs)) = True"
| "is_array ArrProto = True"
| "is_array _ = False"

fun read_string :: "jsval \<Rightarrow> string option" where
  "read_string (Val (JStr s)) = (if s \<noteq> [] then Some s else None)"
| "read_string _ = None"

datatype header_value = Single string | Repeated "string list"

record request =
  req_headers :: "(string, header_value) jsmap"
  req_params :: "(string, string) jsmap"
  req_query :: "(string, jsval) jsmap"

definition get_string_header :: "request \<Rightarrow> string \<Rightarrow> string option" where
  "get_string_header r name =
     (case map_of (req_headers r) (map lower_char name) of
        Some (Single s) \<Rightarrow> Some s | _ \<Rightarrow> None)"

definition get_string_parameter :: "request \<Rightarrow> string \<Rightarrow> string option" where
  "get_string_parameter r name =
     (case map_of (req_params r) name of
        Some s \<Rightarrow> if s \<noteq> [] then Some s else None | None \<Rightarrow> None)"

definition get_string_query :: "request \<Rightarrow> string \<Rightarrow> string option" where
  "get_string_query r name =
     (case map_of (req_query r) name of Some v \<Rightarrow> read_string v | None \<Rightarrow> None)"

definition get_string_field :: "jsval \<Rightarrow> string \<Rightarrow> string \<Rightarrow> string" where
  "get_string_field payload path fallback =
     (case resolve_field_path payload path of Val (JStr s) \<Rightarrow> s | _ \<Rightarrow> fallback)"

definition get_optional_string_field :: "jsval \<Rightarrow> string \<Rightarrow> string option" where
  "get_optional_string_field payload path =
     (case resolve_field_path payload path of
        Val (JStr s) \<Rightarrow> if s \<noteq> [] then Some s else None | _ \<Rightarrow> None)"

datatype scalar = ScalarStr string | ScalarNum int

definition get_scalar_field :: "jsval \<Rightarrow> string \<Rightarrow> scalar option" where
  "get_scalar_field payload path =
     (case resolve_field_path payload path of
        Val (JStr s) \<Rightarrow> Some (ScalarStr s)
      | Val (JNum i) \<Rightarrow> Some (ScalarNum i)
      | _ \<Rightarrow> None)"

fun scalar_text :: "scalar \<Rightarrow> string" where
  "scalar_text (ScalarStr s) = s"
| "scalar_text (ScalarNum i) = string_of_int i"

section \<open>Facts about paths\<close>

lemma walk_Undef [simp]: "walk_segments Undef ks = Undef"
  by (cases ks) auto

lemma walk_append: "walk_segments v (ks @ ls) = walk_segments (walk_segments v ks) ls"
  by (induction ks arbitrary: v) (auto split: jsval.splits)

lemma split_on_append_dot: "split_on c (s @ c # t) = split_on c s @ split_on c t"
  by (induction s) (auto split: list.splits)

text \<open>Reading a dotted path is reading its prefix and then the rest from there.\<close>

theorem resolve_path_append:
  "resolve_field_path v (p @ CHR ''.'' # q) = resolve_field_path (resolve_field_path v p) q"
  by (simp add: resolve_field_path_def split_on_append_dot walk_append)

lemma array_index_string_of_nat [simp]: "array_index (string_of_nat i) = Some i"
  by (auto simp: array_index_def list_all_iff string_of_nat_digits)

lemma string_of_nat_not_length [simp]: "string_of_nat i \<noteq> ''length''"
  using string_of_nat_digits[of "CHR ''l''" i] by (auto simp: is_digit_def)

lemma array_read_index:
  "array_read vs (string_of_nat i) = (if i < length vs then Val (vs ! i) else Undef)"
  by (simp add: array_read_def)

lemma string_of_nat_no_dot: "CHR ''.'' \<notin> set (string_of_nat i)"
  using string_of_nat_digits[of "CHR ''.''" i] by (auto simp: is_digit_def)

section \<open>Bodies\<close>

text \<open>\<open>z.string().min(1)\<close>, its optional form, and \<open>z.record(...)\<close>; \<open>None\<close> is a rejected body.\<close>

definition required_string :: "props \<Rightarrow> string \<Rightarrow> string option" where
  "required_string ps k = (case map_of ps k of Some (JStr s) \<Rightarrow> if s = [] then None else Some s | _ \<Rightarrow> None)"

definition optional_string :: "props \<Rightarrow> string \<Rightarrow> string option option" where
  "optional_string ps k = (case map_of ps k of
     None \<Rightarrow> Some None
   | Some (JStr s) \<Rightarrow> if s = [] then None else Some (Some s)
   | Some _ \<Rightarrow> None)"

definition record_field :: "props \<Rightarrow> string \<Rightarrow> props option" where
  "record_field ps k = (case map_of ps k of Some (JObj qs) \<Rightarrow> Some qs | _ \<Rightarrow> None)"

definition optional_record :: "props \<Rightarrow> string \<Rightarrow> props option option" where
  "optional_record ps k = (case map_of ps k of
     None \<Rightarrow> Some None | Some (JObj qs) \<Rightarrow> Some (Some qs) | Some _ \<Rightarrow> None)"

text \<open>\<open>z.string()\<close>: the empty string passes; the outer \<open>None\<close> is a failed check.\<close>

definition string_member :: "props \<Rightarrow> string \<Rightarrow> string option" where
  "string_member ps k = (case map_of ps k of Some (JStr s) \<Rightarrow> Some s | _ \<Rightarrow> None)"

definition optional_string_member :: "props \<Rightarrow> string \<Rightarrow> string option option" where
  "optional_string_member ps k =
     (case map_of ps k of None \<Rightarrow> Some None | Some (JStr s) \<Rightarrow> Some (Some s) | _ \<Rightarrow> None)"

text \<open>\<open>z.number().int().positive()\<close>, \<open>z.boolean()\<close> and \<open>z.array\<close> of a member schema.\<close>

definition positive_int :: "json \<Rightarrow> nat option" where
  "positive_int v = (case v of JNum n \<Rightarrow> if 0 < n then Some (nat n) else None | _ \<Rightarrow> None)"

definition optional_member :: "(json \<Rightarrow> 'a option) \<Rightarrow> props \<Rightarrow> string \<Rightarrow> 'a option option" where
  "optional_member check ps k =
     (case map_of ps k of None \<Rightarrow> Some None | Some v \<Rightarrow> (case check v of None \<Rightarrow> None | Some x \<Rightarrow> Some (Some x)))"

fun parse_bool :: "json \<Rightarrow> bool option" where
  "parse_bool (JBool b) = Some b"
| "parse_bool _ = None"

fun parse_str :: "json \<Rightarrow> string option" where
  "parse_str (JStr s) = Some s"
| "parse_str _ = None"

fun parse_nonempty :: "json \<Rightarrow> string option" where
  "parse_nonempty (JStr s) = (if s = [] then None else Some s)"
| "parse_nonempty _ = None"

fun all_some :: "'a option list \<Rightarrow> 'a list option" where
  "all_some [] = Some []"
| "all_some (None # xs) = None"
| "all_some (Some x # xs) = map_option (Cons x) (all_some xs)"

fun parse_array :: "(json \<Rightarrow> 'a option) \<Rightarrow> json \<Rightarrow> 'a list option" where
  "parse_array check (JArr vs) = all_some (map check vs)"
| "parse_array check _ = None"

fun parse_record :: "(json \<Rightarrow> 'a option) \<Rightarrow> json \<Rightarrow> (string \<times> 'a) list option" where
  "parse_record check (JObj ps) =
     all_some (map (\<lambda>(k, v). case check v of None \<Rightarrow> None | Some x \<Rightarrow> Some (k, x)) ps)"
| "parse_record check _ = None"

lemma all_some_char: "all_some xs = Some ys \<longleftrightarrow> xs = map Some ys"
  by (induction xs arbitrary: ys rule: all_some.induct) (auto simp: map_eq_Cons_conv)

lemma all_some_map: "all_some (map f xs) = Some ys \<Longrightarrow> x \<in> set xs \<Longrightarrow> \<exists>y \<in> set ys. f x = Some y"
  by (metis all_some_char image_eqI imageE list.set_map)

end
