(* ===== verification/RunnerConfig.thy ===== *)
theory RunnerConfig
  imports Extract
begin

text \<open>
  What a deployment and a routing rule may declare about running an agent: the runner configurations
  (\<open>runners/types.ts\<close>), the registry of runners (\<open>runners/registry.ts\<close>) and the tool references of
  a rule (\<open>services/tools/config-schemas.ts\<close>). Configurations arrive as JSON values; a schema answers
  \<open>None\<close> where zod reports issues.
\<close>

section \<open>Runner configurations\<close>

datatype work_directory_strategy = Static_directory | Per_dispatch_directory

datatype runner_config =
    Openclaw_config
  | Claude_cli_config "string option" "string option" "string option" "work_directory_strategy option"
  | Openai_config string string "string option"
  | Bedrock_config string string
  | Shell_config string "string option" "(string, string) jsmap option" nat

definition config_type :: "runner_config \<Rightarrow> string" where
  "config_type c =
     (case c of
        Openclaw_config \<Rightarrow> ''openclaw''
      | Claude_cli_config _ _ _ _ \<Rightarrow> ''claude-cli''
      | Openai_config _ _ _ \<Rightarrow> ''openai''
      | Bedrock_config _ _ \<Rightarrow> ''bedrock''
      | Shell_config _ _ _ _ \<Rightarrow> ''shell'')"

fun parse_directory_strategy :: "json \<Rightarrow> work_directory_strategy option" where
  "parse_directory_strategy (JStr s) =
     (if s = ''static'' then Some Static_directory
      else if s = ''per-dispatch'' then Some Per_dispatch_directory else None)"
| "parse_directory_strategy _ = None"

definition parse_claude_cli_config :: "props \<Rightarrow> runner_config option" where
  "parse_claude_cli_config ps =
     (case (optional_string ps ''workDirectory'', optional_string_member ps ''binary'',
            optional_string_member ps ''systemPrompt'',
            optional_member parse_directory_strategy ps ''workDirectoryStrategy'') of
        (Some d, Some b, Some p, Some s) \<Rightarrow> Some (Claude_cli_config d b p s)
      | _ \<Rightarrow> None)"

text \<open>\<open>valid_url\<close> is the check of \<open>z.string().url()\<close>.\<close>

definition parse_openai_config :: "(string \<Rightarrow> bool) \<Rightarrow> props \<Rightarrow> runner_config option" where
  "parse_openai_config valid_url ps =
     (case (required_string ps ''model'', required_string ps ''apiKey'', optional_string_member ps ''baseUrl'') of
        (Some m, Some k, Some u) \<Rightarrow>
          if (case u of Some x \<Rightarrow> valid_url x | None \<Rightarrow> True) then Some (Openai_config m k u) else None
      | _ \<Rightarrow> None)"

definition parse_bedrock_config :: "props \<Rightarrow> runner_config option" where
  "parse_bedrock_config ps =
     (case (required_string ps ''modelId'', required_string ps ''region'') of
        (Some m, Some r) \<Rightarrow> Some (Bedrock_config m r)
      | _ \<Rightarrow> None)"

definition default_shell_timeout :: nat where "default_shell_timeout = 300000"

definition parse_shell_config :: "props \<Rightarrow> runner_config option" where
  "parse_shell_config ps =
     (case (required_string ps ''command'', optional_string_member ps ''cwd'',
            optional_member (parse_record parse_str) ps ''env'', optional_member positive_int ps ''timeoutMs'') of
        (Some c, Some d, Some e, Some t) \<Rightarrow>
          Some (Shell_config c d e (case t of Some n \<Rightarrow> n | None \<Rightarrow> default_shell_timeout))
      | _ \<Rightarrow> None)"

fun parse_runner_config :: "(string \<Rightarrow> bool) \<Rightarrow> json \<Rightarrow> runner_config option" where
  "parse_runner_config valid_url (JObj ps) =
     (case map_of ps ''type'' of
        Some (JStr t) \<Rightarrow>
          (if t = ''openclaw'' then Some Openclaw_config
           else if t = ''claude-cli'' then parse_claude_cli_config ps
           else if t = ''openai'' then parse_openai_config valid_url ps
           else if t = ''bedrock'' then parse_bedrock_config ps
           else if t = ''shell'' then parse_shell_config ps
           else None)
      | _ \<Rightarrow> None)"
| "parse_runner_config valid_url _ = None"

text \<open>A configuration that passes is of the declared type, and its wall-clock limit is positive.\<close>

lemma parsed_config_type:
  "parse_runner_config valid_url v = Some c \<Longrightarrow>
   \<exists>ps. v = JObj ps \<and> map_of ps ''type'' = Some (JStr (config_type c)) \<and>
     (\<forall>cmd dir env t. c = Shell_config cmd dir env t \<longrightarrow> 0 < t \<and> cmd \<noteq> [])"
  by (cases v)
    (auto simp: config_type_def parse_claude_cli_config_def parse_openai_config_def parse_bedrock_config_def
      parse_shell_config_def required_string_def optional_member_def positive_int_def default_shell_timeout_def
      split: option.splits json.splits if_splits)

section \<open>The registry\<close>

text \<open>Runners by name; a later registration replaces an earlier one.\<close>

definition register_runner :: "string \<Rightarrow> 'r \<Rightarrow> (string, 'r) jsmap \<Rightarrow> (string, 'r) jsmap" where
  "register_runner name r rs = AList.update name r rs"

definition unknown_runner_text :: "string \<Rightarrow> (string, 'r) jsmap \<Rightarrow> string" where
  "unknown_runner_text name rs =
     ''Unknown runner: '' @ name @ ''. Registered runners: '' @ join '', '' (map fst rs)"

definition get_runner :: "string \<Rightarrow> (string, 'r) jsmap \<Rightarrow> string + 'r" where
  "get_runner name rs = (case map_of rs name of None \<Rightarrow> Inl (unknown_runner_text name rs) | Some r \<Rightarrow> Inr r)"

definition get_registered_runners :: "(string, 'r) jsmap \<Rightarrow> 'r list" where
  "get_registered_runners rs = map snd rs"

definition reset_runners :: "(string, 'r) jsmap \<Rightarrow> (string, 'r) jsmap" where
  "reset_runners rs = fold AList.delete (map fst rs) rs"

lemma registered_runner_found:
  "get_runner m (register_runner n r rs) = (if m = n then Inr r else
     case get_runner m rs of Inr x \<Rightarrow> Inr x | Inl _ \<Rightarrow> Inl (unknown_runner_text m (register_runner n r rs)))"
  by (auto simp: get_runner_def register_runner_def split: option.split)

section \<open>Tool references\<close>

record tool_ref =
  tr_module :: string
  tr_roles :: "string list option"
  tr_deferred :: "bool option"

text \<open>The pattern of a dotted Python path: identifiers separated by single dots.\<close>

definition is_upper :: "char \<Rightarrow> bool" where
  "is_upper c = (let n = of_char c :: nat in 65 \<le> n \<and> n \<le> 90)"

definition ident_start :: "char \<Rightarrow> bool" where
  "ident_start c = (is_lower c \<or> is_upper c \<or> c = CHR ''_'')"

definition is_ident :: "string \<Rightarrow> bool" where
  "is_ident s = (s \<noteq> [] \<and> ident_start (hd s) \<and> list_all (\<lambda>c. ident_start c \<or> is_digit c) s)"

definition python_dotted_ref :: "string \<Rightarrow> bool" where
  "python_dotted_ref s = list_all is_ident (split_on CHR ''.'' s)"

fun parse_tool_ref :: "json \<Rightarrow> tool_ref option" where
  "parse_tool_ref (JObj ps) =
     (if \<not> list_all (\<lambda>p. fst p \<in> {''module.python'', ''requiresRole'', ''deferred''}) ps then None
      else (case (string_member ps ''module.python'', optional_member (parse_array parse_nonempty) ps ''requiresRole'',
                  optional_member parse_bool ps ''deferred'') of
              (Some m, Some r, Some d) \<Rightarrow>
                if python_dotted_ref m then Some \<lparr>tr_module = m, tr_roles = r, tr_deferred = d\<rparr> else None
            | _ \<Rightarrow> None))"
| "parse_tool_ref _ = None"

definition parse_rule_tools :: "json \<Rightarrow> tool_ref list option" where
  "parse_rule_tools v = parse_array parse_tool_ref v"

text \<open>No reference that passes leaves the directory it is resolved against: its segments are
  identifiers, so neither a dot segment nor a slash occurs.\<close>

lemma parsed_tools_dotted:
  assumes "parse_rule_tools v = Some refs" "r \<in> set refs"
  shows "python_dotted_ref (tr_module r)"
proof -
  obtain vs where v: "v = JArr vs" "all_some (map parse_tool_ref vs) = Some refs"
    using assms(1) by (cases v) (auto simp: parse_rule_tools_def)
  then have "Some r \<in> set (map parse_tool_ref vs)" using assms(2) by (auto simp: all_some_char)
  then obtain w where "parse_tool_ref w = Some r" by auto
  then show ?thesis by (cases w) (auto split: if_splits option.splits)
qed

lemma ident_char: "ident_start c \<or> is_digit c \<Longrightarrow> c \<noteq> CHR ''.'' \<and> c \<noteq> CHR ''/''"
  by (auto simp: ident_start_def is_lower_def is_upper_def is_digit_def Let_def)

lemma dotted_segments_safe:
  assumes "python_dotted_ref s" "w \<in> set (split_on CHR ''.'' s)"
  shows "w \<noteq> [] \<and> CHR ''.'' \<notin> set w \<and> CHR ''/'' \<notin> set w"
proof -
  have "is_ident w" using assms by (simp add: python_dotted_ref_def list_all_iff)
  then have "w \<noteq> []" "\<forall>c \<in> set w. ident_start c \<or> is_digit c" by (auto simp: is_ident_def list_all_iff)
  then show ?thesis using ident_char by blast
qed

end
