(* ===== verification/Routing.thy ===== *)
theory Routing
  imports RunnerConfig
begin

text \<open>
  The rule language of \<open>strategies/routing/condition.ts\<close> and the first-match resolution
  of \<open>strategies/routing/resolve.ts\<close>. Evaluation can throw, on an unresolved
  \<open>${shared.X}\<close> placeholder or on a pattern and flags the \<open>RegExp\<close> constructor refuses,
  so it returns an error or a boolean. The regular-expression engine is a parameter:
  \<open>rx pattern flags\<close> is \<open>None\<close> where the constructor throws, else the test function (with
  \<open>some\<close> stopping at the first success, the \<open>lastIndex\<close> of a global expression is always
  zero when a test starts).
\<close>

datatype in_values = Values "string list" | Placeholder string

datatype condition =
    Equals string string
  | In string in_values
  | Matches string string "string option"
  | Exists string
  | Any_item string condition
  | All_of "condition list"
  | Any_of "condition list"
  | Not condition

datatype eval_error = UnresolvedPlaceholder string string | InvalidRegex string

type_synonym regex_engine = "string \<Rightarrow> string option \<Rightarrow> (string \<Rightarrow> bool) option"

fun stringify_resolved :: "jsval \<Rightarrow> string" where
  "stringify_resolved Undef = []"
| "stringify_resolved (Val JNull) = []"
| "stringify_resolved (Val (JStr s)) = s"
| "stringify_resolved (Val v) = json_stringify v"
| "stringify_resolved (Fn k) =
     ''function '' @ (if k = ''constructor'' then ''Object'' else k) @ ''() { [native code] }''"
| "stringify_resolved ObjProto = ''{}''"
| "stringify_resolved ArrProto = ''[]''"

fun is_nullish :: "jsval \<Rightarrow> bool" where
  "is_nullish Undef = True"
| "is_nullish (Val JNull) = True"
| "is_nullish _ = False"

fun array_elements :: "jsval \<Rightarrow> jsval list" where
  "array_elements (Val (JArr vs)) = map Val vs"
| "array_elements _ = []"

text \<open>The shape the three leaf tests share: nullish is false, an array is searched.\<close>

definition test_resolved :: "(string \<Rightarrow> bool) \<Rightarrow> jsval \<Rightarrow> bool" where
  "test_resolved p v =
     (if is_nullish v then False
      else if is_array v then list_ex (\<lambda>e. p (stringify_resolved e)) (array_elements v)
      else p (stringify_resolved v))"

definition evaluate_equals :: "jsval \<Rightarrow> string \<Rightarrow> string \<Rightarrow> bool" where
  "evaluate_equals payload field target =
     test_resolved (\<lambda>s. s = target) (resolve_field_path payload field)"

definition evaluate_in :: "jsval \<Rightarrow> string \<Rightarrow> in_values \<Rightarrow> eval_error + bool" where
  "evaluate_in payload field vs =
     (case vs of
        Placeholder ph \<Rightarrow> Inl (UnresolvedPlaceholder ph field)
      | Values ws \<Rightarrow>
          Inr (test_resolved (\<lambda>s. s \<in> set ws) (resolve_field_path payload field)))"

definition evaluate_matches ::
  "regex_engine \<Rightarrow> jsval \<Rightarrow> string \<Rightarrow> string \<Rightarrow> string option \<Rightarrow> eval_error + bool" where
  "evaluate_matches rx payload field pattern flags =
     (let v = resolve_field_path payload field in
      if is_nullish v then Inr False
      else case rx pattern flags of
             None \<Rightarrow> Inl (InvalidRegex pattern)
           | Some test \<Rightarrow> Inr (test_resolved test v))"

definition evaluate_exists :: "jsval \<Rightarrow> string \<Rightarrow> bool" where
  "evaluate_exists payload field = (\<not> is_nullish (resolve_field_path payload field))"

text \<open>\<open>Array.some\<close> and \<open>Array.every\<close> over calls that may throw: the first call that
  throws or decides ends the loop.\<close>

fun some_of :: "('e + bool) list \<Rightarrow> 'e + bool" where
  "some_of [] = Inr False"
| "some_of (Inl e # rs) = Inl e"
| "some_of (Inr b # rs) = (if b then Inr True else some_of rs)"

fun every_of :: "('e + bool) list \<Rightarrow> 'e + bool" where
  "every_of [] = Inr True"
| "every_of (Inl e # rs) = Inl e"
| "every_of (Inr b # rs) = (if b then every_of rs else Inr False)"

primrec evaluate_condition :: "regex_engine \<Rightarrow> condition \<Rightarrow> jsval \<Rightarrow> eval_error + bool" where
  "evaluate_condition rx (Equals f t) p = Inr (evaluate_equals p f t)"
| "evaluate_condition rx (In f vs) p = evaluate_in p f vs"
| "evaluate_condition rx (Matches f pat fl) p = evaluate_matches rx p f pat fl"
| "evaluate_condition rx (Exists f) p = Inr (evaluate_exists p f)"
| "evaluate_condition rx (Any_item path w) p =
     (let items = resolve_field_path p path in
      if is_array items then some_of (map (\<lambda>i. evaluate_condition rx w i) (array_elements items))
      else Inr False)"
| "evaluate_condition rx (All_of cs) p = every_of (map (\<lambda>c. evaluate_condition rx c p) cs)"
| "evaluate_condition rx (Any_of cs) p = some_of (map (\<lambda>c. evaluate_condition rx c p) cs)"
| "evaluate_condition rx (Not c) p =
     (case evaluate_condition rx c p of Inl e \<Rightarrow> Inl e | Inr b \<Rightarrow> Inr (\<not> b))"

section \<open>Agents and resolution\<close>

text \<open>The fields of a rule the worker reads, and the model table of an agent. A session block
  is named by its strategy; a memory block by its namespace and the query field of its
  \<open>retrieve\<close> part.\<close>

record agent_rule =
  rule_name :: "string option"
  rule_id :: "string option"
  rule_condition :: "condition option"
  rule_template :: "string option"
  rule_session :: "string option"
  rule_memory :: "(string \<times> string option) option"
  rule_max_turns :: "nat option"
  rule_runner :: "runner_config option"
  rule_tools :: "tool_ref list option"
  rule_cron :: "string option"
  rule_timezone :: "string option"
  rule_context :: "props option"

datatype match_targets = One_target string | Many_targets "string list"

record model_rule =
  mr_field :: string
  mr_matches :: match_targets
  mr_model :: string

record agent =
  agent_name :: string
  agent_dir :: string
  agent_routing :: "(string, agent_rule list) jsmap"
  agent_model_rules :: "(string, model_rule list) jsmap"

record resolved_route =
  route_agent :: string
  route_dir :: string
  route_template :: "string option"
  route_rule :: agent_rule

fun match_rules :: "regex_engine \<Rightarrow> jsval \<Rightarrow> agent \<Rightarrow> agent_rule list \<Rightarrow>
    eval_error + resolved_route option" where
  "match_rules rx p a [] = Inr None"
| "match_rules rx p a (r # rs) =
     (case rule_condition r of
        None \<Rightarrow> match_rules rx p a rs
      | Some c \<Rightarrow>
          (case evaluate_condition rx c p of
             Inl e \<Rightarrow> Inl e
           | Inr b \<Rightarrow>
               if b then Inr (Some \<lparr>route_agent = agent_name a, route_dir = agent_dir a,
                                route_template = rule_template r, route_rule = r\<rparr>)
               else match_rules rx p a rs))"

fun resolve_agent_from_agents :: "regex_engine \<Rightarrow> jsval \<Rightarrow> string \<Rightarrow> agent list \<Rightarrow>
    eval_error + resolved_route option" where
  "resolve_agent_from_agents rx p provider [] = Inr None"
| "resolve_agent_from_agents rx p provider (a # as) =
     (case map_of (agent_routing a) provider of
        None \<Rightarrow> resolve_agent_from_agents rx p provider as
      | Some rules \<Rightarrow>
          (case match_rules rx p a rules of
             Inl e \<Rightarrow> Inl e
           | Inr (Some route) \<Rightarrow> Inr (Some route)
           | Inr None \<Rightarrow> resolve_agent_from_agents rx p provider as))"

section \<open>Facts about conditions\<close>

lemma some_of_negated:
  "some_of (map (case_sum Inl (\<lambda>b. Inr (\<not> b))) rs) = case_sum Inl (\<lambda>b. Inr (\<not> b)) (every_of rs)"
  by (induction rs rule: every_of.induct) auto

text \<open>De Morgan's law holds for the rule language, thrown errors and the order of
  evaluation included.\<close>

theorem de_morgan:
  "evaluate_condition rx (Not (All_of cs)) p = evaluate_condition rx (Any_of (map Not cs)) p"
  using some_of_negated[of "map (\<lambda>c. evaluate_condition rx c p) cs"]
  by (simp add: comp_def)

text \<open>The field paths a condition reads from its own root.\<close>

primrec condition_fields :: "condition \<Rightarrow> string list" where
  "condition_fields (Equals f t) = [f]"
| "condition_fields (In f vs) = [f]"
| "condition_fields (Matches f pat fl) = [f]"
| "condition_fields (Exists f) = [f]"
| "condition_fields (Any_item path w) = [path]"
| "condition_fields (All_of cs) = concat (map condition_fields cs)"
| "condition_fields (Any_of cs) = concat (map condition_fields cs)"
| "condition_fields (Not c) = condition_fields c"

text \<open>The verdict of a condition depends on the payload only through the field paths
  the condition names.\<close>

theorem condition_frame:
  "list_all (\<lambda>f. resolve_field_path p f = resolve_field_path q f) (condition_fields c) \<Longrightarrow>
   evaluate_condition rx c p = evaluate_condition rx c q"
proof (induction c)
  case (All_of cs)
  then show ?case
    by (auto simp: list_all_iff intro!: arg_cong[where f = every_of])
next
  case (Any_of cs)
  then show ?case
    by (auto simp: list_all_iff intro!: arg_cong[where f = some_of])
qed (auto simp: evaluate_equals_def evaluate_in_def evaluate_matches_def evaluate_exists_def
      Let_def split: in_values.splits)

theorem condition_frame_witness:
  "evaluate_condition (\<lambda>_ _. None) (All_of [Exists ''a'', Equals ''a.b'' ''x''])
     (Val (JObj [(''a'', JObj [(''b'', JStr ''x'')])]))
   = evaluate_condition (\<lambda>_ _. None) (All_of [Exists ''a'', Equals ''a.b'' ''x''])
     (Val (JObj [(''a'', JObj [(''b'', JStr ''x'')]), (''c'', JNum 1)]))"
  by (rule condition_frame) (simp add: resolve_field_path_def object_read_def)

text \<open>Conditions that cannot throw: no placeholder, and every pattern accepted.\<close>

primrec closed_condition :: "regex_engine \<Rightarrow> condition \<Rightarrow> bool" where
  "closed_condition rx (Equals f t) = True"
| "closed_condition rx (In f vs) = (case vs of Values ws \<Rightarrow> True | Placeholder ph \<Rightarrow> False)"
| "closed_condition rx (Matches f pat fl) = (rx pat fl \<noteq> None)"
| "closed_condition rx (Exists f) = True"
| "closed_condition rx (Any_item path w) = closed_condition rx w"
| "closed_condition rx (All_of cs) = list_all id (map (closed_condition rx) cs)"
| "closed_condition rx (Any_of cs) = list_all id (map (closed_condition rx) cs)"
| "closed_condition rx (Not c) = closed_condition rx c"

lemma some_of_total: "\<forall>r \<in> set rs. \<exists>b. r = Inr b \<Longrightarrow> \<exists>b. some_of rs = Inr b"
  by (induction rs rule: some_of.induct) auto

lemma every_of_total: "\<forall>r \<in> set rs. \<exists>b. r = Inr b \<Longrightarrow> \<exists>b. every_of rs = Inr b"
  by (induction rs rule: every_of.induct) auto

lemma evaluate_condition_total:
  "closed_condition rx c \<Longrightarrow> \<exists>b. evaluate_condition rx c p = Inr b"
proof (induction c arbitrary: p)
  case (Any_item path w)
  then show ?case by (auto simp: Let_def intro!: some_of_total)
next
  case (All_of cs)
  then show ?case by (auto simp: list_all_iff intro!: every_of_total)
next
  case (Any_of cs)
  then show ?case by (auto simp: list_all_iff intro!: some_of_total)
next
  case (Not c)
  then obtain b where "evaluate_condition rx c p = Inr b" by auto
  then show ?case by simp
qed (auto simp: evaluate_in_def evaluate_matches_def Let_def split: in_values.splits)

section \<open>Facts about resolution\<close>

text \<open>The rules considered for a provider, in the order the two loops visit them.\<close>

definition candidates :: "string \<Rightarrow> agent list \<Rightarrow> (agent \<times> agent_rule) list" where
  "candidates provider as =
     concat (map (\<lambda>a. case map_of (agent_routing a) provider of
                        None \<Rightarrow> [] | Some rules \<Rightarrow> map (Pair a) rules) as)"

definition rule_matches :: "regex_engine \<Rightarrow> jsval \<Rightarrow> agent_rule \<Rightarrow> bool" where
  "rule_matches rx p r =
     (case rule_condition r of None \<Rightarrow> False | Some c \<Rightarrow> evaluate_condition rx c p = Inr True)"

definition rule_declines :: "regex_engine \<Rightarrow> jsval \<Rightarrow> agent_rule \<Rightarrow> bool" where
  "rule_declines rx p r =
     (case rule_condition r of None \<Rightarrow> True | Some c \<Rightarrow> evaluate_condition rx c p = Inr False)"

definition route_of :: "agent \<Rightarrow> agent_rule \<Rightarrow> resolved_route" where
  "route_of a r = \<lparr>route_agent = agent_name a, route_dir = agent_dir a,
     route_template = rule_template r, route_rule = r\<rparr>"

fun first_match :: "regex_engine \<Rightarrow> jsval \<Rightarrow> (agent \<times> agent_rule) list \<Rightarrow>
    eval_error + resolved_route option" where
  "first_match rx p [] = Inr None"
| "first_match rx p ((a, r) # crs) =
     (case (case rule_condition r of None \<Rightarrow> Inr False | Some c \<Rightarrow> evaluate_condition rx c p) of
        Inl e \<Rightarrow> Inl e
      | Inr b \<Rightarrow> if b then Inr (Some (route_of a r)) else first_match rx p crs)"

lemma match_rules_first_match:
  "(case match_rules rx p a rs of
      Inl e \<Rightarrow> Inl e | Inr (Some route) \<Rightarrow> Inr (Some route) | Inr None \<Rightarrow> first_match rx p crs)
   = first_match rx p (map (Pair a) rs @ crs)"
  by (induction rs) (auto simp: route_of_def split: option.splits sum.splits)

text \<open>The nested loops over agents and rules return what a single scan over the flattened
  candidates returns.\<close>

lemma resolve_first_match_eq:
  "resolve_agent_from_agents rx p provider as = first_match rx p (candidates provider as)"
proof (induction as)
  case Nil
  then show ?case by (simp add: candidates_def)
next
  case (Cons a as)
  show ?case
  proof (cases "map_of (agent_routing a) provider")
    case None
    with Cons show ?thesis by (simp add: candidates_def)
  next
    case (Some rules)
    then have "candidates provider (a # as) = map (Pair a) rules @ candidates provider as"
      by (simp add: candidates_def)
    with Some Cons show ?thesis
      by (simp add: match_rules_first_match [symmetric] split: sum.split option.split)
  qed
qed

definition first_hit ::
  "regex_engine \<Rightarrow> jsval \<Rightarrow> (agent \<times> agent_rule) list \<Rightarrow> resolved_route \<Rightarrow> bool" where
  "first_hit rx p crs route = (\<exists>pre a r post. crs = pre @ (a, r) # post \<and> rule_matches rx p r \<and>
      list_all (\<lambda>c. rule_declines rx p (snd c)) pre \<and> route = route_of a r)"

lemma first_hit_Nil: "\<not> first_hit rx p [] route"
  by (simp add: first_hit_def)

lemma first_hit_Cons:
  "first_hit rx p ((a, r) # crs) route \<longleftrightarrow>
   (rule_matches rx p r \<and> route = route_of a r) \<or> (rule_declines rx p r \<and> first_hit rx p crs route)"
  (is "?L \<longleftrightarrow> ?R")
proof
  assume ?L
  then obtain pre b q post where *: "(a, r) # crs = pre @ (b, q) # post" "rule_matches rx p q"
    "list_all (\<lambda>c. rule_declines rx p (snd c)) pre" "route = route_of b q"
    unfolding first_hit_def by blast
  then show ?R
    by (cases pre) (auto simp: first_hit_def)
next
  assume ?R
  then show ?L
  proof
    assume "rule_matches rx p r \<and> route = route_of a r"
    then show ?L
      unfolding first_hit_def by (intro exI[of _ "[]"]) auto
  next
    assume *: "rule_declines rx p r \<and> first_hit rx p crs route"
    then obtain pre b q post where "crs = pre @ (b, q) # post" "rule_matches rx p q"
      "list_all (\<lambda>c. rule_declines rx p (snd c)) pre" "route = route_of b q"
      unfolding first_hit_def by blast
    with * show ?L
      unfolding first_hit_def by (intro exI[of _ "(a, r) # pre"]) auto
  qed
qed

lemma first_match_Some_iff: "first_match rx p crs = Inr (Some route) \<longleftrightarrow> first_hit rx p crs route"
proof (induction crs)
  case Nil
  then show ?case by (simp add: first_hit_Nil)
next
  case (Cons cr crs)
  obtain a r where "cr = (a, r)" by (cases cr)
  with Cons show ?case
    by (auto simp: first_hit_Cons rule_matches_def rule_declines_def split: option.splits sum.splits)
qed

text \<open>C7: An event goes to a rule exactly when that rule matches and every rule visited
  before it (earlier agents, then earlier rules of the same agent) declined.\<close>

theorem resolve_first_rule:
  "resolve_agent_from_agents rx p provider as = Inr (Some route) \<longleftrightarrow>
   (\<exists>pre a r post. candidates provider as = pre @ (a, r) # post \<and> rule_matches rx p r \<and>
      list_all (\<lambda>c. rule_declines rx p (snd c)) pre \<and> route = route_of a r)"
  by (simp add: resolve_first_match_eq first_match_Some_iff first_hit_def)

definition rule_closed :: "regex_engine \<Rightarrow> agent_rule \<Rightarrow> bool" where
  "rule_closed rx r = (case rule_condition r of None \<Rightarrow> True | Some k \<Rightarrow> closed_condition rx k)"

lemma first_match_total:
  "list_all (\<lambda>c. rule_closed rx (snd c)) crs \<Longrightarrow> \<exists>res. first_match rx p crs = Inr res"
proof (induction crs)
  case Nil
  then show ?case by simp
next
  case (Cons cr crs)
  obtain a r where cr: "cr = (a, r)" by (cases cr)
  have "\<exists>b. (case rule_condition r of None \<Rightarrow> Inr False | Some c \<Rightarrow> evaluate_condition rx c p) = Inr b"
    using Cons.prems cr
    by (auto simp: rule_closed_def evaluate_condition_total split: option.splits)
  with Cons cr show ?case by auto
qed

text \<open>With closed conditions in every rule for the provider, routing never throws.\<close>

theorem resolve_never_throws:
  "list_all (\<lambda>c. rule_closed rx (snd c)) (candidates provider as) \<Longrightarrow>
   \<exists>res. resolve_agent_from_agents rx p provider as = Inr res"
  by (simp add: resolve_first_match_eq first_match_total)

theorem resolve_never_throws_witness:
  "\<exists>res. resolve_agent_from_agents (\<lambda>_ _. None) (Val JNull) ''jira''
     [\<lparr>agent_name = ''patch'', agent_dir = ''/a'', agent_routing =
        [(''jira'', [\<lparr>rule_name = None, rule_id = None, rule_condition = Some (Exists ''issue''),
                     rule_template = None, rule_session = None, rule_memory = None,
                     rule_max_turns = None, rule_runner = None, rule_tools = None,
       rule_cron = None, rule_timezone = None, rule_context = None\<rparr>])], agent_model_rules = []\<rparr>] = Inr res"
  by (rule resolve_never_throws) (simp add: candidates_def rule_closed_def)

text \<open>A path segment that names an inherited member resolves on every object that lacks an own
  property of that name, so an \<open>exists\<close> condition on it holds.\<close>

lemma inherited_member_exists:
  "CHR ''.'' \<notin> set k \<Longrightarrow> k \<in> set object_members \<Longrightarrow> map_of ps k = None \<Longrightarrow>
   evaluate_exists (Val (JObj ps)) k"
  by (auto simp: evaluate_exists_def resolve_field_path_def split_on_single object_read_def
      object_inherited_def split: option.splits)

end
