(* ===== verification/Events.thy ===== *)
theory Events
  imports Complex_Main Prelude Json
begin

text \<open>
  The event stream of \<open>types/clawndom-event.ts\<close>. The 33 variants are grouped by their
  prefix into one datatype per group; the fields of a constructor are those of its
  interface, in order, after the discriminator. Every constructor starts with the
  timestamp and the trace id. Dollar costs and similarity scores are rationals.
\<close>

type_synonym trace_id = string
type_synonym job_id = string

datatype reject_reason =
    Invalid_signature | Missing_signature | No_routing_match | Duplicate | Sender_gate_refusal

text \<open>received: provider, headers hash; accepted: provider, context id, title, status;
  rejected: provider, reason, context id, status, title.\<close>

datatype webhook_event =
    Webhook_received millis trace_id string string
  | Webhook_accepted millis trace_id string string string string
  | Webhook_rejected millis trace_id string reject_reason "string option" "string option" "string option"

datatype orphan_reason = No_terminal_event | Queue_state_mismatch

text \<open>queued: job id, provider, context id, title; paused: job id, provider, attempt, original
  job id, resume time; retried: the same without the resume time; started: job id, provider,
  agent, template, runner, model; completed: job id, provider, duration, run id; failed: job id,
  provider, error, attempt, final; orphaned: job id, provider, agent, context id, title, status,
  last event time and type, reason.\<close>

datatype job_event =
    Job_queued millis trace_id job_id string string string
  | Job_paused millis trace_id job_id string nat job_id millis
  | Job_retried millis trace_id job_id string nat job_id
  | Job_started millis trace_id job_id string string "string option" string "string option"
  | Job_completed millis trace_id job_id string millis string
  | Job_failed millis trace_id job_id string string nat bool
  | Job_orphaned millis trace_id job_id string string "string option" "string option"
      "string option" millis string orphan_reason

datatype runner_error_reason = Non_zero_exit | Timeout_reason | Signal_reason | Spawn_error

text \<open>All carry job id and run id; then text; tool and arguments; turns and cost; exit code and
  duration; reason, exit code, signal and the tail of standard error.\<close>

datatype runner_event =
    Runner_assistant_text millis trace_id job_id string string
  | Runner_tool_call millis trace_id job_id string string "json option"
  | Runner_result millis trace_id job_id string int rat
  | Runner_complete millis trace_id job_id string int millis
  | Runner_error millis trace_id job_id string runner_error_reason "int option" "string option" string

datatype socket_event =
    Socket_connected millis trace_id string
  | Socket_disconnected millis trace_id string string
  | Socket_reconnecting millis trace_id string nat
  | Socket_auth_failed millis trace_id string string

datatype memory_op = Op_store | Op_search | Op_delete | Op_prune

text \<open>stored: namespace, id, text length; retrieved: namespace, query length, hit count, top
  score; pruned: namespace, deleted count, duration; error: namespace, operation, message.\<close>

datatype memory_event =
    Memory_stored millis trace_id string string nat
  | Memory_retrieved millis trace_id string nat nat "rat option"
  | Memory_pruned millis trace_id string nat millis
  | Memory_error millis trace_id "string option" memory_op string

datatype spawn_mode = Mode_fresh | Mode_resume
datatype evict_reason = Lru_capacity

text \<open>All carry provider and key.\<close>

datatype session_event =
    Session_spawned millis trace_id string string string spawn_mode
  | Session_resumed millis trace_id string string string spawn_mode
  | Session_reaped millis trace_id string string millis
  | Session_stale millis trace_id string string string string
  | Session_error millis trace_id string string string
  | Session_evicted millis trace_id string string evict_reason nat

datatype created_by = By_config | By_agent
datatype created_reason = Config_load | Api_create | Agent_create
datatype cancelled_reason = Api_delete | Config_reconcile | Agent_cancel
datatype expired_reason = Expired_ttl | Expired_max_runs

text \<open>All carry task id, agent id and runner; created adds creator, reason, owner trace and next
  fire time, fired the job id, the other two their reason.\<close>

datatype scheduled_event =
    Scheduled_created millis trace_id string string string created_by created_reason
      "string option" "millis option"
  | Scheduled_fired millis trace_id string string string job_id
  | Scheduled_cancelled millis trace_id string string string cancelled_reason
  | Scheduled_expired millis trace_id string string string expired_reason

datatype clawndom_event =
    Webhook webhook_event
  | Job job_event
  | Runner runner_event
  | Socket socket_event
  | Memory_ev memory_event
  | Session session_event
  | Scheduled scheduled_event

text \<open>The \<open>type\<close> discriminator of a runner event, as the inflight registry records it.\<close>

fun runner_event_type :: "runner_event \<Rightarrow> string" where
  "runner_event_type (Runner_assistant_text _ _ _ _ _) = ''runner.assistant_text''"
| "runner_event_type (Runner_tool_call _ _ _ _ _ _) = ''runner.tool_call''"
| "runner_event_type (Runner_result _ _ _ _ _ _) = ''runner.result''"
| "runner_event_type (Runner_complete _ _ _ _ _ _) = ''runner.complete''"
| "runner_event_type (Runner_error _ _ _ _ _ _ _ _) = ''runner.error''"

fun runner_event_trace :: "runner_event \<Rightarrow> trace_id" where
  "runner_event_trace (Runner_assistant_text _ t _ _ _) = t"
| "runner_event_trace (Runner_tool_call _ t _ _ _ _) = t"
| "runner_event_trace (Runner_result _ t _ _ _ _) = t"
| "runner_event_trace (Runner_complete _ t _ _ _ _) = t"
| "runner_event_trace (Runner_error _ t _ _ _ _ _ _) = t"

fun runner_event_time :: "runner_event \<Rightarrow> millis" where
  "runner_event_time (Runner_assistant_text m _ _ _ _) = m"
| "runner_event_time (Runner_tool_call m _ _ _ _ _) = m"
| "runner_event_time (Runner_result m _ _ _ _ _) = m"
| "runner_event_time (Runner_complete m _ _ _ _ _) = m"
| "runner_event_time (Runner_error m _ _ _ _ _ _ _) = m"

end
