(* ===== verification/EventBus.thy ===== *)
theory EventBus
  imports Events
begin

text \<open>
  The in-process bus of \<open>services/event-bus.service.ts\<close>: a counter, a bounded replay
  buffer and the subscribers of the \<open>EventEmitter\<close>. A subscriber is named by its
  handler and the bus records the envelopes handed to it, in order; \<open>emit\<close> calls the
  listeners synchronously, once per registration, so a publish delivers to every listener
  present at that moment, and \<open>off\<close> drops the latest registration of the handler.
\<close>

record stamped =
  ev_id :: nat
  ev :: clawndom_event

record bus =
  bus_size :: nat
  bus_buffer :: "stamped list"
  bus_next :: nat
  bus_listeners :: "nat list"
  bus_delivered :: "nat \<Rightarrow> stamped list"

definition default_buffer_size :: nat where "default_buffer_size = 500"

text \<open>\<open>Number.parseInt(raw, 10)\<close>: leading white space and a sign, then the longest run of
  digits; \<open>None\<close> is \<open>NaN\<close>.\<close>

definition parse_int10 :: "string \<Rightarrow> int option" where
  "parse_int10 raw =
     (let s = dropWhile is_space raw;
          neg = (s \<noteq> [] \<and> hd s = CHR ''-'');
          body = (if s \<noteq> [] \<and> hd s \<in> {CHR ''-'', CHR ''+''} then tl s else s);
          ds = takeWhile is_digit body
      in if ds = [] then None
         else Some (if neg then - int (nat_of_digits ds) else int (nat_of_digits ds)))"

definition resolve_buffer_size :: "nat option \<Rightarrow> string option \<Rightarrow> nat" where
  "resolve_buffer_size explicit env =
     (case explicit of
        Some n \<Rightarrow> max 1 n
      | None \<Rightarrow>
          (case env of
             None \<Rightarrow> default_buffer_size
           | Some raw \<Rightarrow>
               (case parse_int10 raw of
                  Some i \<Rightarrow> if i > 0 then nat i else default_buffer_size
                | None \<Rightarrow> default_buffer_size)))"

definition new_bus :: "nat option \<Rightarrow> string option \<Rightarrow> bus" where
  "new_bus explicit env = \<lparr>bus_size = resolve_buffer_size explicit env, bus_buffer = [],
     bus_next = 1, bus_listeners = [], bus_delivered = (\<lambda>_. [])\<rparr>"

definition publish :: "clawndom_event \<Rightarrow> bus \<Rightarrow> bus" where
  "publish e b =
     (let st = \<lparr>ev_id = bus_next b, ev = e\<rparr>;
          grown = bus_buffer b @ [st];
          kept = (if length grown > bus_size b then tl grown else grown)
      in b\<lparr>bus_next := Suc (bus_next b), bus_buffer := kept,
           bus_delivered := (\<lambda>l. bus_delivered b l @ replicate (count_list (bus_listeners b) l) st)\<rparr>)"

definition subscribe :: "nat \<Rightarrow> bus \<Rightarrow> bus" where
  "subscribe l b = b\<lparr>bus_listeners := bus_listeners b @ [l]\<rparr>"

definition unsubscribe :: "nat \<Rightarrow> bus \<Rightarrow> bus" where
  "unsubscribe l b = b\<lparr>bus_listeners := rev (remove1 l (rev (bus_listeners b)))\<rparr>"

definition latest_id :: "bus \<Rightarrow> nat" where
  "latest_id b = bus_next b - 1"

record replay_slice =
  sl_events :: "stamped list"
  sl_latest :: nat
  sl_gap :: bool

definition replay_since :: "int \<Rightarrow> bus \<Rightarrow> replay_slice" where
  "replay_since since b =
     (let latest = bus_next b - 1; normalized = nat (max 0 since) in
      case bus_buffer b of
        [] \<Rightarrow> \<lparr>sl_events = [], sl_latest = latest, sl_gap = False\<rparr>
      | oldest # _ \<Rightarrow>
          \<lparr>sl_events = filter (\<lambda>e. ev_id e > normalized) (bus_buffer b), sl_latest = latest,
           sl_gap = (int normalized < int (ev_id oldest) - 1)\<rparr>)"

definition subscribe_since :: "int \<Rightarrow> nat \<Rightarrow> bus \<Rightarrow> replay_slice \<times> bus" where
  "subscribe_since since l b = (replay_since since b, subscribe l b)"

section \<open>What the buffer holds\<close>

text \<open>The whole history of a bus: the events published so far, stamped from 1.\<close>

definition stamp_all :: "clawndom_event list \<Rightarrow> stamped list" where
  "stamp_all es = map (\<lambda>(i, e). \<lparr>ev_id = Suc i, ev = e\<rparr>) (enumerate 0 es)"

definition publish_all :: "clawndom_event list \<Rightarrow> bus \<Rightarrow> bus" where
  "publish_all es b = fold publish es b"

text \<open>The buffer is the last \<open>bus_size\<close> entries of the history.\<close>

definition bus_inv :: "clawndom_event list \<Rightarrow> bus \<Rightarrow> bool" where
  "bus_inv es b \<longleftrightarrow> bus_next b = Suc (length es) \<and> 0 < bus_size b \<and>
     bus_buffer b = drop (length es - bus_size b) (stamp_all es)"

lemma length_stamp_all [simp]: "length (stamp_all es) = length es"
  by (simp add: stamp_all_def)

lemma stamp_all_nth: "i < length es \<Longrightarrow> stamp_all es ! i = \<lparr>ev_id = Suc i, ev = es ! i\<rparr>"
  by (simp add: stamp_all_def nth_enumerate_eq)

lemma stamp_all_append: "stamp_all (es @ [e]) = stamp_all es @ [\<lparr>ev_id = Suc (length es), ev = e\<rparr>]"
  by (simp add: stamp_all_def enumerate_append_eq)

lemma resolve_buffer_size_pos: "0 < resolve_buffer_size ex env"
  by (auto simp: resolve_buffer_size_def default_buffer_size_def split: option.splits)

lemma bus_inv_new: "bus_inv [] (new_bus ex env)"
  by (simp add: bus_inv_def new_bus_def stamp_all_def resolve_buffer_size_pos)

lemma bus_inv_publish: "bus_inv es b \<Longrightarrow> bus_inv (es @ [e]) (publish e b)"
  by (auto simp: bus_inv_def publish_def Let_def stamp_all_append tl_drop [symmetric] drop_Suc
      Suc_diff_le not_less_eq_eq)

lemma bus_inv_publish_all: "bus_inv es b \<Longrightarrow> bus_inv (es @ fs) (publish_all fs b)"
proof (induction fs arbitrary: es b)
  case Nil
  then show ?case by (simp add: publish_all_def)
next
  case (Cons f fs)
  then show ?case
    using Cons.IH[OF bus_inv_publish[OF Cons.prems, of f]] by (simp add: publish_all_def)
qed

section \<open>Replay\<close>

lemma publish_frame [simp]:
  "bus_size (publish e b) = bus_size b" "bus_listeners (publish e b) = bus_listeners b"
  by (simp_all add: publish_def Let_def)

lemma publish_all_frame [simp]:
  "bus_size (publish_all es b) = bus_size b" "bus_listeners (publish_all es b) = bus_listeners b"
  by (induction es arbitrary: b) (simp_all add: publish_all_def)

lemma stamp_all_after: "filter (\<lambda>e. ev_id e > s) (drop k (stamp_all es)) = drop (max s k) (stamp_all es)"
proof -
  have "filter (\<lambda>e. ev_id e > s) xs = drop (s - k) xs"
    if "xs = drop k (stamp_all es)" for xs and k
    using that
  proof (induction xs arbitrary: k)
    case Nil
    then show ?case by simp
  next
    case (Cons x xs)
    then have k: "k < length es" by (metis drop_all length_stamp_all list.distinct(1) not_le)
    have x: "x = \<lparr>ev_id = Suc k, ev = es ! k\<rparr>" and xs: "xs = drop (Suc k) (stamp_all es)"
      using Cons.prems k by (simp_all add: Cons_nth_drop_Suc [symmetric] stamp_all_nth)
    show ?case
    proof (cases "s \<le> k")
      case True
      then show ?thesis using Cons.IH[OF xs] x by simp
    next
      case False
      then have "s - k = Suc (s - Suc k)" by simp
      then show ?thesis using Cons.IH[OF xs] x False by simp
    qed
  qed
  from this[OF refl] show ?thesis by (simp add: max_def)
qed

lemma replay_since_inv:
  assumes "bus_inv es b"
  shows "replay_since since b =
     (let s = nat (max 0 since); lost = length es - bus_size b in
      \<lparr>sl_events = drop (max s lost) (stamp_all es), sl_latest = length es, sl_gap = (s < lost)\<rparr>)"
proof (cases "bus_buffer b")
  case Nil
  with assms have "length es \<le> length es - bus_size b"
    by (metis bus_inv_def drop_eq_Nil length_stamp_all)
  with assms have "es = []" by (cases es) (auto simp: bus_inv_def)
  with Nil assms show ?thesis
    by (simp add: replay_since_def bus_inv_def stamp_all_def)
next
  case (Cons x xs)
  let ?lost = "length es - bus_size b"
  have buf: "drop ?lost (stamp_all es) = x # xs" using assms Cons by (simp add: bus_inv_def)
  then have "?lost < length es" by (metis drop_all length_stamp_all list.distinct(1) not_le)
  then have "x = \<lparr>ev_id = Suc ?lost, ev = es ! ?lost\<rparr>"
    using buf by (simp add: Cons_nth_drop_Suc [symmetric] stamp_all_nth)
  then show ?thesis
    using Cons assms stamp_all_after[of "nat (max 0 since)" ?lost es] buf
    by (simp add: replay_since_def bus_inv_def Let_def)
qed

text \<open>C29: A replay returns exactly the published events after the requested id that are still
  retained, reports the latest id, and raises \<open>gap\<close> exactly when an event after the requested
  id has been overwritten; so a replay without \<open>gap\<close> is complete.\<close>

theorem replay_contract:
  "replay_since since (publish_all es (new_bus ex env)) =
     (let s = nat (max 0 since); lost = length es - resolve_buffer_size ex env in
      \<lparr>sl_events = drop (max s lost) (stamp_all es), sl_latest = length es, sl_gap = (s < lost)\<rparr>)"
  using replay_since_inv[OF bus_inv_publish_all[OF bus_inv_new[of ex env], of es]]
  by (simp add: new_bus_def)

lemma delivered_publish_all:
  "count_list (bus_listeners b) l = 1 \<Longrightarrow> bus_next b = Suc n \<Longrightarrow>
   bus_delivered (publish_all fs b) l =
     bus_delivered b l @ map (\<lambda>(i, e). \<lparr>ev_id = Suc i, ev = e\<rparr>) (enumerate n fs)"
  by (induction fs arbitrary: b n) (simp_all add: publish_all_def publish_def Let_def)

lemma stamp_all_split:
  "stamp_all (es @ fs) = stamp_all es @ map (\<lambda>(i, e). \<lparr>ev_id = Suc i, ev = e\<rparr>) (enumerate (length es) fs)"
  by (simp add: stamp_all_def enumerate_append_eq)

text \<open>C18: A client that attaches with \<open>subscribeSince\<close> sees, in the replay followed by the live
  deliveries, every retained event after its id and every later event, each exactly once and in
  order: nothing is lost or repeated at the boundary.\<close>

theorem subscribe_since_exactly_once:
  assumes "bus_inv es b" and "l \<notin> set (bus_listeners b)" and "bus_delivered b l = []"
    and "since \<le> int (length es)"
  shows "sl_events (fst (subscribe_since since l b)) @
           bus_delivered (publish_all fs (snd (subscribe_since since l b))) l
         = drop (max (nat since) (length es - bus_size b)) (stamp_all (es @ fs))"
proof -
  let ?b = "subscribe l b"
  have "bus_next ?b = Suc (length es)" "count_list (bus_listeners ?b) l = 1" "bus_delivered ?b l = []"
    using assms by (simp_all add: subscribe_def bus_inv_def count_list_0_iff)
  then have live: "bus_delivered (publish_all fs ?b) l
      = map (\<lambda>(i, e). \<lparr>ev_id = Suc i, ev = e\<rparr>) (enumerate (length es) fs)"
    by (simp add: delivered_publish_all)
  have "max (nat since) (length es - bus_size b) \<le> length es" using assms(4) by simp
  moreover have "nat (max 0 since) = nat since" by (simp add: max_def)
  ultimately show ?thesis
    using replay_since_inv[OF assms(1), of since] live
    by (simp add: subscribe_since_def stamp_all_split Let_def)
qed

theorem subscribe_since_exactly_once_witness:
  "sl_events (fst (subscribe_since 1 7 (publish_all [Webhook (Webhook_received 5 ''t'' ''jira'' ''h''),
       Webhook (Webhook_received 6 ''u'' ''jira'' ''h'')] (new_bus (Some 10) None)))) @
     bus_delivered (publish_all [Webhook (Webhook_received 7 ''v'' ''jira'' ''h'')]
       (snd (subscribe_since 1 7 (publish_all [Webhook (Webhook_received 5 ''t'' ''jira'' ''h''),
         Webhook (Webhook_received 6 ''u'' ''jira'' ''h'')] (new_bus (Some 10) None))))) 7
   = [\<lparr>ev_id = 2, ev = Webhook (Webhook_received 6 ''u'' ''jira'' ''h'')\<rparr>,
      \<lparr>ev_id = 3, ev = Webhook (Webhook_received 7 ''v'' ''jira'' ''h'')\<rparr>]"
  by (subst subscribe_since_exactly_once
      [OF bus_inv_publish_all[OF bus_inv_new[of "Some 10" None],
          of "[Webhook (Webhook_received 5 ''t'' ''jira'' ''h''),
               Webhook (Webhook_received 6 ''u'' ''jira'' ''h'')]"]])
    (simp_all add: new_bus_def publish_all_def publish_def Let_def stamp_all_def resolve_buffer_size_def)

end
