(* ===== verification/JobRegistries.thy ===== *)
theory JobRegistries
  imports EventBus
begin

text \<open>
  The three in-process observers of the bus: \<open>ActiveJobsRegistry\<close> (running jobs),
  \<open>RecentCompletionsRegistry\<close> (finished work, newest first, bounded) and
  \<open>SkippedWebhooksRegistry\<close> (rejections, newest first, bounded, with cumulative counts).
  Each is a state record and one handler; a run folds the handler over the events the bus
  delivers.
\<close>

record job_context =
  cx_id :: string
  cx_title :: string
  cx_status :: string

section \<open>Active jobs\<close>

record active_job =
  aj_job :: job_id
  aj_trace :: trace_id
  aj_provider :: string
  aj_agent :: string
  aj_template :: "string option"
  aj_runner :: string
  aj_model :: "string option"
  aj_started :: millis
  aj_context :: "job_context option"

record active_registry =
  ar_jobs :: "(job_id, active_job) jsmap"
  ar_pending :: "(trace_id, job_context) jsmap"
  ar_subscribed :: bool

definition active_empty :: active_registry where
  "active_empty = \<lparr>ar_jobs = [], ar_pending = [], ar_subscribed = False\<rparr>"

definition active_start :: "active_registry \<Rightarrow> active_registry" where
  "active_start r = (if ar_subscribed r then r else r\<lparr>ar_subscribed := True\<rparr>)"

definition active_stop :: "active_registry \<Rightarrow> active_registry" where
  "active_stop r = r\<lparr>ar_subscribed := False, ar_jobs := [], ar_pending := []\<rparr>"

definition list_active :: "active_registry \<Rightarrow> active_job list" where
  "list_active r = map snd (ar_jobs r)"

definition has_pending_context :: "active_registry \<Rightarrow> trace_id \<Rightarrow> bool" where
  "has_pending_context r t = (map_of (ar_pending r) t \<noteq> None)"

fun active_job_event :: "job_event \<Rightarrow> active_registry \<Rightarrow> active_registry" where
  "active_job_event (Job_started time t j provider ag tmpl runner model) r =
     r\<lparr>ar_jobs := AList.update j \<lparr>aj_job = j, aj_trace = t, aj_provider = provider, aj_agent = ag,
          aj_template = tmpl, aj_runner = runner, aj_model = model, aj_started = time,
          aj_context = map_of (ar_pending r) t\<rparr> (ar_jobs r)\<rparr>"
| "active_job_event (Job_paused time t j provider n original resume) r =
     r\<lparr>ar_jobs := AList.delete original (ar_jobs r)\<rparr>"
| "active_job_event (Job_retried time t j provider n original) r =
     r\<lparr>ar_jobs := AList.delete original (ar_jobs r)\<rparr>"
| "active_job_event (Job_completed time t j provider dur run) r =
     r\<lparr>ar_jobs := AList.delete j (ar_jobs r), ar_pending := AList.delete t (ar_pending r)\<rparr>"
| "active_job_event (Job_failed time t j provider err n final) r =
     r\<lparr>ar_jobs := AList.delete j (ar_jobs r),
       ar_pending := (if final then AList.delete t (ar_pending r) else ar_pending r)\<rparr>"
| "active_job_event _ r = r"

fun active_handle :: "clawndom_event \<Rightarrow> active_registry \<Rightarrow> active_registry" where
  "active_handle (Webhook (Webhook_accepted time t provider ci ct cs)) r =
     r\<lparr>ar_pending := AList.update t \<lparr>cx_id = ci, cx_title = ct, cx_status = cs\<rparr> (ar_pending r)\<rparr>"
| "active_handle (Job e) r = active_job_event e r"
| "active_handle _ r = r"

definition active_run :: "clawndom_event list \<Rightarrow> active_registry" where
  "active_run es = fold active_handle es (active_start active_empty)"

text \<open>The events that end the activity of a job id, and the one that starts it.\<close>

fun ends_job :: "job_id \<Rightarrow> clawndom_event \<Rightarrow> bool" where
  "ends_job j (Job (Job_paused _ _ _ _ _ original _)) = (original = j)"
| "ends_job j (Job (Job_retried _ _ _ _ _ original)) = (original = j)"
| "ends_job j (Job (Job_completed _ _ j' _ _ _)) = (j' = j)"
| "ends_job j (Job (Job_failed _ _ j' _ _ _ _)) = (j' = j)"
| "ends_job j _ = False"

fun starts_job :: "job_id \<Rightarrow> clawndom_event \<Rightarrow> bool" where
  "starts_job j (Job (Job_started _ _ j' _ _ _ _ _)) = (j' = j)"
| "starts_job j _ = False"

definition is_active :: "active_registry \<Rightarrow> job_id \<Rightarrow> bool" where
  "is_active r j = (map_of (ar_jobs r) j \<noteq> None)"

text \<open>Scanning the history from its newest event: active iff a start is met before an end.\<close>

fun started_last :: "job_id \<Rightarrow> clawndom_event list \<Rightarrow> bool" where
  "started_last j [] = False"
| "started_last j (e # newest_first) =
     (if starts_job j e then True else if ends_job j e then False
      else started_last j newest_first)"

lemma is_active_job_event:
  "is_active (active_job_event je r) j =
     (if starts_job j (Job je) then True else if ends_job j (Job je) then False else is_active r j)"
  by (cases je) (auto simp: is_active_def)

lemma is_active_handle:
  "is_active (active_handle e r) j =
     (if starts_job j e then True else if ends_job j e then False else is_active r j)"
proof (cases e)
  case (Webhook w)
  then show ?thesis by (cases w) (auto simp: is_active_def)
next
  case (Job je)
  then show ?thesis by (simp add: is_active_job_event)
qed (auto simp: is_active_def)

lemma is_active_run: "is_active (active_run es) j = started_last j (rev es)"
proof (induction es rule: rev_induct)
  case Nil
  then show ?case
    by (simp add: active_run_def is_active_def active_start_def active_empty_def)
next
  case (snoc e es)
  then show ?case by (simp add: active_run_def is_active_handle)
qed

text \<open>Every entry is filed under its own job id, once.\<close>

definition active_inv :: "active_registry \<Rightarrow> bool" where
  "active_inv r \<longleftrightarrow> distinct (map fst (ar_jobs r)) \<and> distinct (map fst (ar_pending r)) \<and>
     list_all (\<lambda>(j, a). aj_job a = j) (ar_jobs r)"

lemma set_alist_update: "p \<in> set (AList.update k v m) \<Longrightarrow> p = (k, v) \<or> p \<in> set m"
  by (induction m) (auto split: if_splits)

lemma set_alist_delete: "set (AList.delete k m) \<subseteq> set m"
  by (auto simp: AList.delete_eq)

lemma active_inv_job_event: "active_inv r \<Longrightarrow> active_inv (active_job_event e r)"
  using set_alist_delete[of _ "ar_jobs r"]
  by (cases e) (fastforce simp: active_inv_def list_all_iff distinct_update distinct_delete
      dest!: set_alist_update)+

lemma active_inv_handle: "active_inv r \<Longrightarrow> active_inv (active_handle e r)"
proof (cases e)
  case (Webhook w)
  moreover assume "active_inv r"
  ultimately show ?thesis by (cases w) (auto simp: active_inv_def distinct_update)
qed (auto intro: active_inv_job_event)

interpretation active_obs: invariant_machine active_inv active_handle
  by unfold_locales (rule active_inv_handle)

text \<open>The active panel lists exactly the jobs whose latest start is not followed by a
  completion, a failure or a requeue event naming them, each once, under its own id.\<close>

theorem active_listing:
  "distinct (map aj_job (list_active (active_run es))) \<and>
   (j \<in> aj_job ` set (list_active (active_run es)) \<longleftrightarrow> started_last j (rev es))"
proof -
  have inv: "active_inv (active_run es)"
    unfolding active_run_def
    by (rule active_obs.inv_run) (simp add: active_inv_def active_start_def active_empty_def)
  then have ids: "map aj_job (list_active (active_run es)) = map fst (ar_jobs (active_run es))"
    by (auto simp: active_inv_def list_active_def list_all_iff)
  then have "aj_job ` set (list_active (active_run es)) = dom (map_of (ar_jobs (active_run es)))"
    by (metis dom_map_of_conv_image_fst list.set_map)
  then have "j \<in> aj_job ` set (list_active (active_run es)) \<longleftrightarrow> is_active (active_run es) j"
    by (simp add: is_active_def dom_def)
  then show ?thesis
    using inv ids by (simp add: active_inv_def is_active_run)
qed

section \<open>Recent completions\<close>

datatype recent_outcome = Outcome_completed | Outcome_failed | Outcome_rejected

record recent_completion =
  rc_job :: job_id
  rc_trace :: trace_id
  rc_provider :: string
  rc_agent :: "string option"
  rc_context :: "job_context option"
  rc_at :: millis
  rc_outcome :: recent_outcome
  rc_duration :: "millis option"
  rc_error :: "string option"
  rc_reason :: "reject_reason option"

record recent_registry =
  rr_size :: nat
  rr_buffer :: "recent_completion list"
  rr_pending :: "(trace_id, job_context) jsmap"
  rr_live :: "(job_id, string \<times> string) jsmap"

definition recent_empty :: "nat \<Rightarrow> recent_registry" where
  "recent_empty n = \<lparr>rr_size = max 1 n, rr_buffer = [], rr_pending = [], rr_live = []\<rparr>"

definition recent_stop :: "recent_registry \<Rightarrow> recent_registry" where
  "recent_stop r = r\<lparr>rr_buffer := [], rr_pending := [], rr_live := []\<rparr>"

definition recent_record :: "recent_completion \<Rightarrow> recent_registry \<Rightarrow> recent_registry" where
  "recent_record entry r = r\<lparr>rr_buffer := push_front (rr_size r) entry (rr_buffer r)\<rparr>"

definition recent_forget :: "job_id \<Rightarrow> trace_id \<Rightarrow> recent_registry \<Rightarrow> recent_registry" where
  "recent_forget j t r =
     r\<lparr>rr_live := AList.delete j (rr_live r), rr_pending := AList.delete t (rr_pending r)\<rparr>"

definition recent_completed ::
  "millis \<Rightarrow> trace_id \<Rightarrow> job_id \<Rightarrow> string \<Rightarrow> millis \<Rightarrow> recent_registry \<Rightarrow> recent_registry" where
  "recent_completed time t j provider dur r =
     recent_forget j t (recent_record
       \<lparr>rc_job = j, rc_trace = t, rc_provider = provider,
        rc_agent = map_option fst (map_of (rr_live r) j), rc_context = map_of (rr_pending r) t,
        rc_at = time, rc_outcome = Outcome_completed, rc_duration = Some dur,
        rc_error = None, rc_reason = None\<rparr> r)"

definition recent_failed ::
  "millis \<Rightarrow> trace_id \<Rightarrow> job_id \<Rightarrow> string \<Rightarrow> string \<Rightarrow> bool \<Rightarrow> recent_registry \<Rightarrow> recent_registry" where
  "recent_failed time t j provider err final r =
     (if \<not> final then r\<lparr>rr_live := AList.delete j (rr_live r)\<rparr>
      else recent_forget j t (recent_record
       \<lparr>rc_job = j, rc_trace = t, rc_provider = provider,
        rc_agent = map_option fst (map_of (rr_live r) j), rc_context = map_of (rr_pending r) t,
        rc_at = time, rc_outcome = Outcome_failed, rc_duration = None,
        rc_error = Some err, rc_reason = None\<rparr> r))"

definition recent_rejected ::
  "millis \<Rightarrow> trace_id \<Rightarrow> string \<Rightarrow> reject_reason \<Rightarrow> recent_registry \<Rightarrow> recent_registry" where
  "recent_rejected time t provider reason r =
     (if reason = No_routing_match then r
      else recent_record
       \<lparr>rc_job = [], rc_trace = t, rc_provider = provider, rc_agent = None, rc_context = None,
        rc_at = time, rc_outcome = Outcome_rejected, rc_duration = None, rc_error = None,
        rc_reason = Some reason\<rparr> r)"

fun recent_handle :: "clawndom_event \<Rightarrow> recent_registry \<Rightarrow> recent_registry" where
  "recent_handle (Webhook (Webhook_accepted time t provider ci ct cs)) r =
     r\<lparr>rr_pending := AList.update t \<lparr>cx_id = ci, cx_title = ct, cx_status = cs\<rparr> (rr_pending r)\<rparr>"
| "recent_handle (Webhook (Webhook_rejected time t provider reason ci cs ct)) r =
     recent_rejected time t provider reason r"
| "recent_handle (Job (Job_started time t j provider ag tmpl runner model)) r =
     r\<lparr>rr_live := AList.update j (ag, provider) (rr_live r)\<rparr>"
| "recent_handle (Job (Job_paused time t j provider n original resume)) r =
     r\<lparr>rr_live := AList.delete original (rr_live r)\<rparr>"
| "recent_handle (Job (Job_retried time t j provider n original)) r =
     r\<lparr>rr_live := AList.delete original (rr_live r)\<rparr>"
| "recent_handle (Job (Job_completed time t j provider dur run)) r =
     recent_completed time t j provider dur r"
| "recent_handle (Job (Job_failed time t j provider err n final)) r =
     recent_failed time t j provider err final r"
| "recent_handle _ r = r"

definition recent_run :: "nat \<Rightarrow> clawndom_event list \<Rightarrow> recent_registry" where
  "recent_run n es = fold recent_handle es (recent_empty n)"

definition terminal_event :: "clawndom_event \<Rightarrow> bool" where
  "terminal_event e =
     (case e of
        Webhook (Webhook_rejected _ _ _ reason _ _ _) \<Rightarrow> reason \<noteq> No_routing_match
      | Job (Job_completed _ _ _ _ _ _) \<Rightarrow> True
      | Job (Job_failed _ _ _ _ _ _ final) \<Rightarrow> final
      | _ \<Rightarrow> False)"

text \<open>A smaller registry shows a prefix of what a larger one shows after the same events.\<close>

definition recent_shorter :: "recent_registry \<Rightarrow> recent_registry \<Rightarrow> bool" where
  "recent_shorter a b \<longleftrightarrow> rr_size a \<le> rr_size b \<and> rr_buffer a = take (rr_size a) (rr_buffer b) \<and>
     rr_pending a = rr_pending b \<and> rr_live a = rr_live b"

lemma recent_record_shorter:
  "recent_shorter a b \<Longrightarrow> recent_shorter (recent_record x a) (recent_record x b)"
  by (auto simp: recent_shorter_def recent_record_def push_front_take)
    (simp add: push_front_def min_absorb1)

lemma recent_handle_shorter:
  "recent_shorter a b \<Longrightarrow> recent_shorter (recent_handle e a) (recent_handle e b)"
proof -
  assume ab: "recent_shorter a b"
  then have fields: "rr_pending a = rr_pending b" "rr_live a = rr_live b"
    by (simp_all add: recent_shorter_def)
  have forget: "recent_shorter c d \<Longrightarrow> recent_shorter (recent_forget j t c) (recent_forget j t d)"
    for c d j t by (auto simp: recent_shorter_def recent_forget_def)
  show ?thesis
  proof (cases e)
    case (Webhook w)
    then show ?thesis
      using ab recent_record_shorter[OF ab]
      by (cases w) (auto simp: recent_rejected_def recent_shorter_def)
  next
    case (Job je)
    then show ?thesis
      using ab fields forget recent_record_shorter[OF ab]
      by (cases je) (auto simp: recent_completed_def recent_failed_def recent_shorter_def)
  qed (use ab in auto)
qed

lemma recent_run_shorter:
  "recent_shorter a b \<Longrightarrow> recent_shorter (fold recent_handle es a) (fold recent_handle es b)"
  by (induction es arbitrary: a b) (auto intro: recent_handle_shorter)

lemma recent_handle_length:
  "length (rr_buffer (recent_handle e r)) =
     (if terminal_event e then min (rr_size r) (Suc (length (rr_buffer r))) else length (rr_buffer r))"
  by (cases "(e, r)" rule: recent_handle.cases)
    (auto simp: recent_completed_def recent_failed_def recent_rejected_def recent_forget_def
      recent_record_def push_front_def terminal_event_def)

lemma recent_handle_size [simp]: "rr_size (recent_handle e r) = rr_size r"
  by (cases "(e, r)" rule: recent_handle.cases)
    (auto simp: recent_completed_def recent_failed_def recent_rejected_def recent_forget_def
      recent_record_def)

lemma recent_fold_length:
  "length (rr_buffer r) \<le> rr_size r \<Longrightarrow>
   length (rr_buffer (fold recent_handle es r))
     = min (rr_size r) (length (rr_buffer r) + length (filter terminal_event es))"
  by (induction es arbitrary: r) (auto simp: recent_handle_length)

text \<open>The recent panel with \<open>n\<close> slots shows the newest \<open>n\<close> records of the panel with
  more slots, and as many as there were terminal events, up to \<open>n\<close>: eviction only drops the
  oldest records.\<close>

theorem recent_panel:
  assumes "1 \<le> n" and "n \<le> m"
  shows "rr_buffer (recent_run n es) = take n (rr_buffer (recent_run m es)) \<and>
    length (rr_buffer (recent_run n es)) = min n (length (filter terminal_event es))"
proof -
  have "recent_shorter (recent_empty n) (recent_empty m)"
    using assms by (simp add: recent_shorter_def recent_empty_def)
  then have "recent_shorter (recent_run n es) (recent_run m es)"
    unfolding recent_run_def by (rule recent_run_shorter)
  moreover have "rr_size (fold recent_handle es r) = rr_size r" for r
    by (induction es arbitrary: r) auto
  then have "rr_size (recent_run n es) = n"
    using assms(1) by (simp add: recent_run_def recent_empty_def)
  moreover have "length (rr_buffer (recent_run n es)) = min n (length (filter terminal_event es))"
    using recent_fold_length[of "recent_empty n" es] assms(1)
    by (simp add: recent_run_def recent_empty_def)
  ultimately show ?thesis
    by (simp add: recent_shorter_def)
qed

theorem recent_panel_witness:
  "let es = [Job (Job_completed 1 ''t1'' ''j1'' ''jira'' 5 ''r''),
             Webhook (Webhook_rejected 2 ''t2'' ''jira'' No_routing_match None None None),
             Job (Job_failed 3 ''t3'' ''j3'' ''jira'' ''boom'' 5 True)]
   in rr_buffer (recent_run 1 es) = take 1 (rr_buffer (recent_run 2 es)) \<and>
      length (rr_buffer (recent_run 1 es)) = min 1 (length (filter terminal_event es))"
  unfolding Let_def by (rule recent_panel) simp_all

section \<open>Skipped webhooks\<close>

record skipped_webhook =
  sk_time :: millis
  sk_trace :: trace_id
  sk_provider :: string
  sk_reason :: reject_reason
  sk_context_id :: "string option"
  sk_context_status :: "string option"
  sk_context_title :: "string option"

record skipped_counts =
  no_match :: nat
  duplicates :: nat
  signature_failure :: nat
  sender_gate_refusal :: nat

record skipped_registry =
  sr_capacity :: nat
  sr_ring :: "skipped_webhook list"
  sr_counts :: skipped_counts

definition zero_counts :: skipped_counts where
  "zero_counts = \<lparr>no_match = 0, duplicates = 0, signature_failure = 0, sender_gate_refusal = 0\<rparr>"

definition skipped_empty :: "nat \<Rightarrow> skipped_registry" where
  "skipped_empty cap = \<lparr>sr_capacity = cap, sr_ring = [], sr_counts = zero_counts\<rparr>"

definition skipped_stop :: "skipped_registry \<Rightarrow> skipped_registry" where
  "skipped_stop r = r\<lparr>sr_ring := [], sr_counts := zero_counts\<rparr>"

text \<open>\<open>limit\<close> is clamped to the interval from 0 to the capacity.\<close>

definition list_recent :: "int \<Rightarrow> skipped_registry \<Rightarrow> skipped_webhook list" where
  "list_recent limit r = take (nat (max 0 (min (int (sr_capacity r)) limit))) (sr_ring r)"

fun bump_count :: "reject_reason \<Rightarrow> skipped_counts \<Rightarrow> skipped_counts" where
  "bump_count No_routing_match c = c\<lparr>no_match := no_match c + 1\<rparr>"
| "bump_count Duplicate c = c\<lparr>duplicates := duplicates c + 1\<rparr>"
| "bump_count Invalid_signature c = c\<lparr>signature_failure := signature_failure c + 1\<rparr>"
| "bump_count Missing_signature c = c\<lparr>signature_failure := signature_failure c + 1\<rparr>"
| "bump_count Sender_gate_refusal c = c\<lparr>sender_gate_refusal := sender_gate_refusal c + 1\<rparr>"

definition skipped_record :: "skipped_webhook \<Rightarrow> skipped_registry \<Rightarrow> skipped_registry" where
  "skipped_record entry r =
     r\<lparr>sr_ring := push_front (sr_capacity r) entry (sr_ring r),
       sr_counts := bump_count (sk_reason entry) (sr_counts r)\<rparr>"

fun skipped_handle :: "clawndom_event \<Rightarrow> skipped_registry \<Rightarrow> skipped_registry" where
  "skipped_handle (Webhook (Webhook_rejected time t provider reason ci cs ct)) r =
     skipped_record \<lparr>sk_time = time, sk_trace = t, sk_provider = provider, sk_reason = reason,
       sk_context_id = ci, sk_context_status = cs, sk_context_title = ct\<rparr> r"
| "skipped_handle _ r = r"

definition skipped_run :: "nat \<Rightarrow> clawndom_event list \<Rightarrow> skipped_registry" where
  "skipped_run cap es = fold skipped_handle es (skipped_empty cap)"

text \<open>The rejections of a history, oldest first.\<close>

fun rejection_of :: "clawndom_event \<Rightarrow> skipped_webhook option" where
  "rejection_of (Webhook (Webhook_rejected time t provider reason ci cs ct)) =
     Some \<lparr>sk_time = time, sk_trace = t, sk_provider = provider, sk_reason = reason,
       sk_context_id = ci, sk_context_status = cs, sk_context_title = ct\<rparr>"
| "rejection_of _ = None"

definition rejections :: "clawndom_event list \<Rightarrow> skipped_webhook list" where
  "rejections es = List.map_filter rejection_of es"

definition count_reasons :: "reject_reason list \<Rightarrow> skipped_webhook list \<Rightarrow> nat" where
  "count_reasons rs ws = length (filter (\<lambda>w. sk_reason w \<in> set rs) ws)"

lemma skipped_handle_alt:
  "skipped_handle e r = (case rejection_of e of None \<Rightarrow> r | Some w \<Rightarrow> skipped_record w r)"
  by (cases e rule: rejection_of.cases) auto

lemma rejections_snoc:
  "rejections (es @ [e]) = rejections es @ (case rejection_of e of None \<Rightarrow> [] | Some w \<Rightarrow> [w])"
  by (auto simp: rejections_def List.map_filter_def split: option.splits)

lemma skipped_counts_bump:
  "bump_count (sk_reason w)
     \<lparr>no_match = count_reasons [No_routing_match] ws, duplicates = count_reasons [Duplicate] ws,
      signature_failure = count_reasons [Invalid_signature, Missing_signature] ws,
      sender_gate_refusal = count_reasons [Sender_gate_refusal] ws\<rparr>
   = \<lparr>no_match = count_reasons [No_routing_match] (ws @ [w]),
      duplicates = count_reasons [Duplicate] (ws @ [w]),
      signature_failure = count_reasons [Invalid_signature, Missing_signature] (ws @ [w]),
      sender_gate_refusal = count_reasons [Sender_gate_refusal] (ws @ [w])\<rparr>"
  by (cases "sk_reason w") (simp_all add: count_reasons_def)

text \<open>After any history the skipped-webhooks ring holds the newest rejections, newest
  first, up to its capacity, while the four counts cover every rejection, evicted ones
  included.\<close>

theorem skipped_history:
  "skipped_run cap es =
     \<lparr>sr_capacity = cap, sr_ring = take cap (rev (rejections es)),
      sr_counts =
        \<lparr>no_match = count_reasons [No_routing_match] (rejections es),
         duplicates = count_reasons [Duplicate] (rejections es),
         signature_failure = count_reasons [Invalid_signature, Missing_signature] (rejections es),
         sender_gate_refusal = count_reasons [Sender_gate_refusal] (rejections es)\<rparr>\<rparr>"
proof (induction es rule: rev_induct)
  case Nil
  then show ?case
    by (simp add: skipped_run_def skipped_empty_def zero_counts_def rejections_def
        List.map_filter_def count_reasons_def)
next
  case (snoc e es)
  have run: "skipped_run cap (es @ [e]) = skipped_handle e (skipped_run cap es)"
    by (simp add: skipped_run_def)
  show ?case
  proof (cases "rejection_of e")
    case None
    with snoc run show ?thesis
      by (simp add: skipped_handle_alt rejections_snoc)
  next
    case (Some w)
    with snoc run show ?thesis
      by (simp add: skipped_handle_alt rejections_snoc skipped_record_def skipped_counts_bump
          push_front_take)
  qed
qed

end
