(* ===== verification/Inflight.thy ===== *)
theory Inflight
  imports JobRegistries
begin

text \<open>
  The durable inflight registry of \<open>services/inflight-registry.service.ts\<close> and the sweeper of
  \<open>services/orphan-reaper.service.ts\<close>. A handler is a program of Redis commands and local
  actions. The bus starts handlers without awaiting them and one connection sends commands in
  issue order, so the machine below keeps the issued commands in a FIFO: executing the head
  runs its continuation, whose next command goes to the back. \<open>run_prog\<close> is the same handler run
  to its end before anything else happens.
\<close>

section \<open>Redis hashes\<close>

record redis =
  r_hashes :: "(string, (string, string) jsmap) jsmap"
  r_ttl :: "(string, int) jsmap"

definition redis_empty :: redis where "redis_empty = \<lparr>r_hashes = [], r_ttl = []\<rparr>"

definition r_exists :: "string \<Rightarrow> redis \<Rightarrow> bool" where
  "r_exists k r = (map_of (r_hashes r) k \<noteq> None)"

definition r_hgetall :: "string \<Rightarrow> redis \<Rightarrow> (string, string) jsmap" where
  "r_hgetall k r = (case map_of (r_hashes r) k of Some h \<Rightarrow> h | None \<Rightarrow> [])"

definition set_fields :: "(string, string) jsmap \<Rightarrow> (string, string) jsmap \<Rightarrow> (string, string) jsmap" where
  "set_fields fs h = fold (\<lambda>(f, v). AList.update f v) fs h"

definition r_hset :: "string \<Rightarrow> (string, string) jsmap \<Rightarrow> redis \<Rightarrow> redis" where
  "r_hset k fs r = r\<lparr>r_hashes := AList.update k (set_fields fs (r_hgetall k r)) (r_hashes r)\<rparr>"

definition r_expire :: "string \<Rightarrow> int \<Rightarrow> redis \<Rightarrow> redis" where
  "r_expire k s r = (if r_exists k r then r\<lparr>r_ttl := AList.update k s (r_ttl r)\<rparr> else r)"

definition r_del :: "string \<Rightarrow> redis \<Rightarrow> redis" where
  "r_del k r = r\<lparr>r_hashes := AList.delete k (r_hashes r), r_ttl := AList.delete k (r_ttl r)\<rparr>"

section \<open>Records\<close>

record inflight_record =
  if_trace :: trace_id
  if_job :: job_id
  if_provider :: string
  if_agent :: string
  if_context_id :: "string option"
  if_context_title :: "string option"
  if_context_status :: "string option"
  if_started :: millis
  if_last_at :: millis
  if_last_type :: string

definition inflight_prefix :: string where "inflight_prefix = ''clawndom:inflight:''"
definition inflight_ttl_seconds :: int where "inflight_ttl_seconds = 24 * 60 * 60"

definition build_inflight_key :: "trace_id \<Rightarrow> string" where
  "build_inflight_key t = inflight_prefix @ t"

text \<open>\<open>Number(s)\<close> on the numerals the registry writes; other texts are \<open>NaN\<close> here.\<close>

definition js_number :: "string \<Rightarrow> int option" where
  "js_number raw =
     (let s = trim raw;
          neg = (s \<noteq> [] \<and> hd s = CHR ''-'');
          ds = (if neg then tl s else s)
      in if s = [] then Some 0
         else if ds \<noteq> [] \<and> list_all is_digit ds
              then Some (if neg then - int (nat_of_digits ds) else int (nat_of_digits ds))
              else None)"

definition parse_inflight_hash :: "(string, string) jsmap \<Rightarrow> inflight_record option" where
  "parse_inflight_hash raw =
     (case (map_of raw ''traceId'', map_of raw ''jobId'', map_of raw ''provider'',
            map_of raw ''agentId'', map_of raw ''startedAt'', map_of raw ''lastEventAt'',
            map_of raw ''lastEventType'') of
        (Some t, Some j, Some p, Some a, Some started_raw, Some last_raw, Some ty) \<Rightarrow>
          (case (js_number started_raw, js_number last_raw) of
             (Some started, Some last_at) \<Rightarrow>
               Some \<lparr>if_trace = t, if_job = j, if_provider = p, if_agent = a,
                 if_context_id = map_of raw ''contextId'',
                 if_context_title = map_of raw ''contextTitle'',
                 if_context_status = map_of raw ''contextStatus'',
                 if_started = started, if_last_at = last_at, if_last_type = ty\<rparr>
           | _ \<Rightarrow> None)
      | _ \<Rightarrow> None)"

section \<open>Handlers\<close>

record inflight_state =
  is_redis :: redis
  is_pending :: "(trace_id, job_context) jsmap"

datatype prog =
    Finished
  | Exists_cmd string "bool \<Rightarrow> prog"
  | Hset_cmd string "(string, string) jsmap" prog
  | Expire_cmd string int prog
  | Del_cmd string prog
  | Forget trace_id prog

text \<open>Local actions run as soon as the continuation does; a program stops at its next command.\<close>

fun advance :: "prog \<Rightarrow> inflight_state \<Rightarrow> prog \<times> inflight_state" where
  "advance (Forget t p) s = advance p (s\<lparr>is_pending := AList.delete t (is_pending s)\<rparr>)"
| "advance p s = (p, s)"

fun exec_command :: "prog \<Rightarrow> inflight_state \<Rightarrow> prog \<times> inflight_state" where
  "exec_command (Exists_cmd k f) s = (f (r_exists k (is_redis s)), s)"
| "exec_command (Hset_cmd k fs p) s = (p, s\<lparr>is_redis := r_hset k fs (is_redis s)\<rparr>)"
| "exec_command (Expire_cmd k n p) s = (p, s\<lparr>is_redis := r_expire k n (is_redis s)\<rparr>)"
| "exec_command (Del_cmd k p) s = (p, s\<lparr>is_redis := r_del k (is_redis s)\<rparr>)"
| "exec_command p s = (p, s)"

primrec run_prog :: "prog \<Rightarrow> inflight_state \<Rightarrow> inflight_state" where
  "run_prog Finished s = s"
| "run_prog (Exists_cmd k f) s = run_prog (f (r_exists k (is_redis s))) s"
| "run_prog (Hset_cmd k fs p) s = run_prog p (s\<lparr>is_redis := r_hset k fs (is_redis s)\<rparr>)"
| "run_prog (Expire_cmd k n p) s = run_prog p (s\<lparr>is_redis := r_expire k n (is_redis s)\<rparr>)"
| "run_prog (Del_cmd k p) s = run_prog p (s\<lparr>is_redis := r_del k (is_redis s)\<rparr>)"
| "run_prog (Forget t p) s = run_prog p (s\<lparr>is_pending := AList.delete t (is_pending s)\<rparr>)"

definition record_pending_context ::
  "trace_id \<Rightarrow> string \<Rightarrow> string \<Rightarrow> string \<Rightarrow> inflight_state \<Rightarrow> inflight_state" where
  "record_pending_context t ci ct cs s =
     s\<lparr>is_pending := AList.update t \<lparr>cx_id = ci, cx_title = ct, cx_status = cs\<rparr> (is_pending s)\<rparr>"

definition started_fields ::
  "millis \<Rightarrow> trace_id \<Rightarrow> job_id \<Rightarrow> string \<Rightarrow> string \<Rightarrow> job_context option \<Rightarrow> (string, string) jsmap" where
  "started_fields time t j provider ag ctx =
     [(''traceId'', t), (''jobId'', j), (''provider'', provider), (''agentId'', ag),
      (''startedAt'', string_of_int time), (''lastEventAt'', string_of_int time),
      (''lastEventType'', ''job.started'')] @
     (case ctx of None \<Rightarrow> []
      | Some c \<Rightarrow> [(''contextId'', cx_id c), (''contextTitle'', cx_title c),
                   (''contextStatus'', cx_status c)])"

definition record_started ::
  "millis \<Rightarrow> trace_id \<Rightarrow> job_id \<Rightarrow> string \<Rightarrow> string \<Rightarrow> inflight_state \<Rightarrow> prog" where
  "record_started time t j provider ag s =
     (let k = build_inflight_key t in
      Hset_cmd k (started_fields time t j provider ag (map_of (is_pending s) t))
        (Expire_cmd k inflight_ttl_seconds Finished))"

definition touch :: "trace_id \<Rightarrow> millis \<Rightarrow> string \<Rightarrow> prog" where
  "touch t time ty =
     (let k = build_inflight_key t in
      Exists_cmd k (\<lambda>found. if \<not> found then Finished
        else Hset_cmd k [(''lastEventAt'', string_of_int time), (''lastEventType'', ty)] Finished))"

definition clear :: "trace_id \<Rightarrow> prog" where
  "clear t = Del_cmd (build_inflight_key t) (Forget t Finished)"

text \<open>The synchronous part of a handler (it may update the pending map) and the program it starts.\<close>

fun inflight_handle :: "clawndom_event \<Rightarrow> inflight_state \<Rightarrow> prog \<times> inflight_state" where
  "inflight_handle (Webhook (Webhook_accepted time t provider ci ct cs)) s =
     (Finished, record_pending_context t ci ct cs s)"
| "inflight_handle (Job (Job_started time t j provider ag tmpl runner model)) s =
     (record_started time t j provider ag s, s)"
| "inflight_handle (Job (Job_paused time t j provider n original resume)) s =
     (touch t time ''job.paused'', s)"
| "inflight_handle (Job (Job_retried time t j provider n original)) s =
     (touch t time ''job.retried'', s)"
| "inflight_handle (Runner e) s =
     (touch (runner_event_trace e) (runner_event_time e) (runner_event_type e), s)"
| "inflight_handle (Job (Job_completed time t j provider dur run)) s = (clear t, s)"
| "inflight_handle (Job (Job_failed time t j provider err n final)) s =
     (if final then clear t else Finished, s)"
| "inflight_handle _ s = (Finished, s)"

definition inflight_step :: "clawndom_event \<Rightarrow> inflight_state \<Rightarrow> inflight_state" where
  "inflight_step e s = (case inflight_handle e s of (p, s') \<Rightarrow> run_prog p s')"

definition inflight_empty :: inflight_state where
  "inflight_empty = \<lparr>is_redis = redis_empty, is_pending = []\<rparr>"

definition inflight_run :: "clawndom_event list \<Rightarrow> inflight_state" where
  "inflight_run es = fold inflight_step es inflight_empty"

definition read_record :: "trace_id \<Rightarrow> inflight_state \<Rightarrow> inflight_record option" where
  "read_record t s =
     (let raw = r_hgetall (build_inflight_key t) (is_redis s) in
      if raw = [] then None else parse_inflight_hash raw)"

section \<open>The connection\<close>

record inflight_machine =
  im_state :: inflight_state
  im_fifo :: "prog list"

datatype schedule = Deliver clawndom_event | Execute

definition issue :: "prog \<Rightarrow> prog list \<Rightarrow> prog list" where
  "issue p q = (if p = Finished then q else q @ [p])"

fun machine_step :: "schedule \<Rightarrow> inflight_machine \<Rightarrow> inflight_machine" where
  "machine_step (Deliver e) m =
     (case inflight_handle e (im_state m) of (p, s) \<Rightarrow>
        (case advance p s of (p', s') \<Rightarrow> \<lparr>im_state = s', im_fifo = issue p' (im_fifo m)\<rparr>))"
| "machine_step Execute m =
     (case im_fifo m of
        [] \<Rightarrow> m
      | p # q \<Rightarrow>
          (case exec_command p (im_state m) of (p1, s1) \<Rightarrow>
             (case advance p1 s1 of (p2, s2) \<Rightarrow> \<lparr>im_state = s2, im_fifo = issue p2 q\<rparr>)))"

definition machine_run :: "schedule list \<Rightarrow> inflight_machine" where
  "machine_run sch = fold machine_step sch \<lparr>im_state = inflight_empty, im_fifo = []\<rparr>"

section \<open>Facts about Redis\<close>

lemma r_exists_simps [simp]:
  "r_exists k (r_hset k' fs r) \<longleftrightarrow> k = k' \<or> r_exists k r"
  "r_exists k (r_expire k' n r) = r_exists k r"
  "r_exists k (r_del k' r) \<longleftrightarrow> k \<noteq> k' \<and> r_exists k r"
  "\<not> r_exists k redis_empty"
  by (auto simp: r_exists_def r_hset_def r_expire_def r_del_def redis_empty_def)

lemma r_hgetall_simps [simp]:
  "r_hgetall k (r_hset k' fs r) = (if k = k' then set_fields fs (r_hgetall k r) else r_hgetall k r)"
  "r_hgetall k (r_expire k' n r) = r_hgetall k r"
  "r_hgetall k (r_del k' r) = (if k = k' then [] else r_hgetall k r)"
  by (auto simp: r_hgetall_def r_hset_def r_expire_def r_del_def)

lemma inflight_key_inj [simp]: "build_inflight_key t = build_inflight_key t' \<longleftrightarrow> t = t'"
  by (simp add: build_inflight_key_def)

lemma map_of_set_fields:
  "map_of (set_fields fs h) f = (case map_of (rev fs) f of Some v \<Rightarrow> Some v | None \<Rightarrow> map_of h f)"
  unfolding set_fields_def
  by (induction fs arbitrary: h) (auto simp: map_add_def split: option.splits)

lemma set_fields_not_Nil: "fs \<noteq> [] \<Longrightarrow> set_fields fs h \<noteq> []"
proof
  assume "fs \<noteq> []" "set_fields fs h = []"
  then obtain f v where "map_of (rev fs) f = Some v"
    by (metis domD dom_map_of_conv_image_fst image_is_empty list.set_intros(1) neq_Nil_conv
        set_empty set_rev ex_in_conv)
  then have "map_of (set_fields fs h) f \<noteq> None" by (simp add: map_of_set_fields)
  with \<open>set_fields fs h = []\<close> show False by simp
qed

section \<open>The registry refines a map of records\<close>

lemma trim_no_space: "(\<And>c. c \<in> set s \<Longrightarrow> \<not> is_space c) \<Longrightarrow> trim s = s"
proof -
  assume *: "\<And>c. c \<in> set s \<Longrightarrow> \<not> is_space c"
  have id: "dropWhile is_space x = x" if "set x \<subseteq> set s" for x
    using that * by (cases x) auto
  show "trim s = s" by (simp add: trim_def id)
qed

lemma js_number_string_of_int [simp]: "js_number (string_of_int i) = Some i"
proof -
  have dig: "is_digit c \<Longrightarrow> \<not> is_space c \<and> c \<noteq> CHR ''-''" for c
    by (auto simp: is_digit_def is_space_def Let_def)
  have "\<not> is_space c" if "c \<in> set (string_of_int i)" for c
    using that dig by (auto simp: string_of_int_def is_space_def dest: string_of_nat_digits split: if_splits)
  then have trimmed: "trim (string_of_int i) = string_of_int i" by (rule trim_no_space)
  have all: "list_all is_digit (string_of_nat n)" for n
    by (simp add: list_all_iff string_of_nat_digits)
  have "hd (string_of_nat n) \<noteq> CHR ''-''" for n
    by (metis dig hd_in_set string_of_nat_digits string_of_nat_not_Nil)
  then show ?thesis
    using trimmed all by (simp add: js_number_def Let_def string_of_int_def)
qed

record inflight_abs =
  ab_pending :: "(trace_id, job_context) jsmap"
  ab_record :: "trace_id \<Rightarrow> inflight_record option"

definition with_context :: "job_context option \<Rightarrow> inflight_record option \<Rightarrow> inflight_record \<Rightarrow> inflight_record" where
  "with_context ctx old r =
     (case ctx of
        Some c \<Rightarrow> r\<lparr>if_context_id := Some (cx_id c), if_context_title := Some (cx_title c),
                     if_context_status := Some (cx_status c)\<rparr>
      | None \<Rightarrow>
          (case old of
             None \<Rightarrow> r
           | Some o' \<Rightarrow> r\<lparr>if_context_id := if_context_id o', if_context_title := if_context_title o',
                           if_context_status := if_context_status o'\<rparr>))"

definition spec_touch :: "trace_id \<Rightarrow> millis \<Rightarrow> string \<Rightarrow> inflight_abs \<Rightarrow> inflight_abs" where
  "spec_touch t time ty a = a\<lparr>ab_record := (ab_record a)
     (t := map_option (\<lambda>r. r\<lparr>if_last_at := time, if_last_type := ty\<rparr>) (ab_record a t))\<rparr>"

definition spec_clear :: "trace_id \<Rightarrow> inflight_abs \<Rightarrow> inflight_abs" where
  "spec_clear t a = a\<lparr>ab_pending := AList.delete t (ab_pending a), ab_record := (ab_record a)(t := None)\<rparr>"

fun inflight_spec :: "clawndom_event \<Rightarrow> inflight_abs \<Rightarrow> inflight_abs" where
  "inflight_spec (Webhook (Webhook_accepted time t provider ci ct cs)) a =
     a\<lparr>ab_pending := AList.update t \<lparr>cx_id = ci, cx_title = ct, cx_status = cs\<rparr> (ab_pending a)\<rparr>"
| "inflight_spec (Job (Job_started time t j provider ag tmpl runner model)) a =
     a\<lparr>ab_record := (ab_record a)(t \<mapsto> with_context (map_of (ab_pending a) t) (ab_record a t)
       \<lparr>if_trace = t, if_job = j, if_provider = provider, if_agent = ag, if_context_id = None,
        if_context_title = None, if_context_status = None, if_started = time,
        if_last_at = time, if_last_type = ''job.started''\<rparr>)\<rparr>"
| "inflight_spec (Job (Job_paused time t j provider n original resume)) a =
     spec_touch t time ''job.paused'' a"
| "inflight_spec (Job (Job_retried time t j provider n original)) a =
     spec_touch t time ''job.retried'' a"
| "inflight_spec (Runner e) a =
     spec_touch (runner_event_trace e) (runner_event_time e) (runner_event_type e) a"
| "inflight_spec (Job (Job_completed time t j provider dur run)) a = spec_clear t a"
| "inflight_spec (Job (Job_failed time t j provider err n final)) a =
     (if final then spec_clear t a else a)"
| "inflight_spec _ a = a"

definition inflight_abstract :: "inflight_state \<Rightarrow> inflight_abs" where
  "inflight_abstract s = \<lparr>ab_pending = is_pending s, ab_record = (\<lambda>t. read_record t s)\<rparr>"

text \<open>Every hash under an inflight key is complete.\<close>

definition inflight_inv :: "inflight_state \<Rightarrow> bool" where
  "inflight_inv s \<longleftrightarrow> (\<forall>t. r_exists (build_inflight_key t) (is_redis s) \<longrightarrow>
     parse_inflight_hash (r_hgetall (build_inflight_key t) (is_redis s)) \<noteq> None)"

lemma parse_Nil [simp]: "parse_inflight_hash [] = None"
  by (simp add: parse_inflight_hash_def)

lemma read_record_alt:
  "read_record t s = parse_inflight_hash (r_hgetall (build_inflight_key t) (is_redis s))"
  by (simp add: read_record_def Let_def)

lemma parse_set_touch:
  "parse_inflight_hash (set_fields [(''lastEventAt'', string_of_int time), (''lastEventType'', ty)] h)
   = map_option (\<lambda>r. r\<lparr>if_last_at := time, if_last_type := ty\<rparr>) (parse_inflight_hash h)"
  if "parse_inflight_hash h \<noteq> None"
  using that
  by (auto simp: parse_inflight_hash_def map_of_set_fields split: option.splits)

lemma parse_set_started:
  "parse_inflight_hash (set_fields (started_fields time t j provider ag ctx) h) =
     Some (with_context ctx (parse_inflight_hash h)
       \<lparr>if_trace = t, if_job = j, if_provider = provider, if_agent = ag,
        if_context_id = None, if_context_title = None, if_context_status = None,
        if_started = time, if_last_at = time, if_last_type = ''job.started''\<rparr>)"
  if "h = [] \<or> parse_inflight_hash h \<noteq> None"
  using that
  by (cases ctx) (auto simp: parse_inflight_hash_def map_of_set_fields started_fields_def
      with_context_def split: option.splits)

lemma hash_empty_or_parses:
  "inflight_inv s \<Longrightarrow> r_hgetall (build_inflight_key t) (is_redis s) = [] \<or>
   parse_inflight_hash (r_hgetall (build_inflight_key t) (is_redis s)) \<noteq> None"
  by (auto simp: inflight_inv_def r_exists_def r_hgetall_def split: option.splits)

lemma run_touch:
  assumes "inflight_inv s"
  shows "inflight_abstract (run_prog (touch t time ty) s) = spec_touch t time ty (inflight_abstract s)"
    and "inflight_inv (run_prog (touch t time ty) s)"
proof -
  let ?k = "build_inflight_key t"
  have absent: "read_record t s = None" if "\<not> r_exists ?k (is_redis s)"
    using that by (simp add: read_record_alt r_exists_def r_hgetall_def)
  have present: "parse_inflight_hash (r_hgetall ?k (is_redis s)) \<noteq> None" if "r_exists ?k (is_redis s)"
    using that assms by (simp add: inflight_inv_def)
  show "inflight_abstract (run_prog (touch t time ty) s) = spec_touch t time ty (inflight_abstract s)"
    using absent present
    by (auto simp: touch_def Let_def inflight_abstract_def spec_touch_def fun_eq_iff read_record_alt
        parse_set_touch)
  show "inflight_inv (run_prog (touch t time ty) s)"
    using assms present by (auto simp: touch_def Let_def inflight_inv_def parse_set_touch)
qed

lemma run_started:
  assumes "inflight_inv s"
  shows "inflight_abstract (run_prog (record_started time t j provider ag s) s)
      = inflight_spec (Job (Job_started time t j provider ag tmpl runner model)) (inflight_abstract s)"
    and "inflight_inv (run_prog (record_started time t j provider ag s) s)"
  using assms hash_empty_or_parses[OF assms, of t]
  by (auto simp: record_started_def Let_def inflight_abstract_def inflight_inv_def fun_eq_iff
      read_record_alt parse_set_started)

lemma run_clear:
  assumes "inflight_inv s"
  shows "inflight_abstract (run_prog (clear t) s) = spec_clear t (inflight_abstract s)"
    and "inflight_inv (run_prog (clear t) s)"
  using assms
  by (auto simp: clear_def inflight_abstract_def spec_clear_def inflight_inv_def fun_eq_iff read_record_alt)

lemma inflight_step_refines:
  assumes "inflight_inv s"
  shows "inflight_abstract (inflight_step e s) = inflight_spec e (inflight_abstract s) \<and>
    inflight_inv (inflight_step e s)"
proof (cases e)
  case (Webhook w)
  with assms show ?thesis
    by (cases w) (auto simp: inflight_step_def inflight_abstract_def inflight_inv_def
        record_pending_context_def read_record_alt)
next
  case (Job je)
  with assms run_touch[OF assms] run_started[OF assms] run_clear[OF assms] show ?thesis
    by (cases je) (auto simp: inflight_step_def)
next
  case (Runner re)
  with run_touch[OF assms] show ?thesis by (simp add: inflight_step_def)
qed (use assms in \<open>auto simp: inflight_step_def\<close>)

interpretation inflight_obs: invariant_machine inflight_inv inflight_step
  by unfold_locales (simp add: inflight_step_refines)


text \<open>Without that assumption the existence guard does not prevent resurrection. When a
  completion arrives after a progress event but before Redis has answered that event's
  \<open>EXISTS\<close>, the connection executes \<open>EXISTS\<close>, \<open>DEL\<close>, \<open>HSET\<close>: the finished run leaves a key that
  holds only the two touch fields, parses to no record and has no expiry.\<close>

theorem inflight_resurrection:
  "let m = machine_run
       [Deliver (Job (Job_started 1 ''t'' ''j'' ''jira'' ''patch'' None ''claude-cli'' None)),
        Execute, Execute,
        Deliver (Runner (Runner_complete 5 ''t'' ''j'' ''r'' 0 4)),
        Deliver (Job (Job_completed 6 ''t'' ''j'' ''jira'' 5 ''r'')),
        Execute, Execute, Execute]
   in im_fifo m = [] \<and>
      r_hgetall (build_inflight_key ''t'') (is_redis (im_state m)) =
        [(''lastEventAt'', ''5''), (''lastEventType'', ''runner.complete'')] \<and>
      read_record ''t'' (im_state m) = None \<and> r_ttl (is_redis (im_state m)) = []"
  by code_simp

section \<open>The reaper\<close>

datatype bull_state = Bull_completed | Bull_failed | Bull_active | Bull_waiting | Bull_delayed
  | Bull_paused | Bull_unknown

text \<open>The queue of a provider answers with an error, no job, or the job's state.\<close>

datatype queue_lookup = Lookup_error string | No_job | Job_state bull_state

fun lookup_bullmq_state :: "queue_lookup \<Rightarrow> bull_state" where
  "lookup_bullmq_state (Lookup_error msg) = Bull_unknown"
| "lookup_bullmq_state No_job = Bull_unknown"
| "lookup_bullmq_state (Job_state s) = s"

definition orphan_eligible :: "bull_state \<Rightarrow> bool" where
  "orphan_eligible s = (s \<in> {Bull_completed, Bull_failed, Bull_unknown})"

definition fetch_inflights :: "string list \<Rightarrow> redis \<Rightarrow> (string \<times> inflight_record) list" where
  "fetch_inflights keys r =
     concat (map (\<lambda>k. case parse_inflight_hash (r_hgetall k r) of None \<Rightarrow> [] | Some rec \<Rightarrow> [(k, rec)]) keys)"

definition orphan_event :: "millis \<Rightarrow> inflight_record \<Rightarrow> clawndom_event" where
  "orphan_event now rec = Job (Job_orphaned now (if_trace rec) (if_job rec) (if_provider rec)
     (if_agent rec) (if_context_id rec) (if_context_title rec) (if_context_status rec)
     (if_last_at rec) (if_last_type rec) No_terminal_event)"

definition is_stale :: "millis \<Rightarrow> millis \<Rightarrow> inflight_record \<Rightarrow> bool" where
  "is_stale now threshold rec = (now - if_last_at rec > threshold)"

definition is_orphan ::
  "(string \<Rightarrow> job_id \<Rightarrow> queue_lookup) \<Rightarrow> millis \<Rightarrow> millis \<Rightarrow> inflight_record \<Rightarrow> bool" where
  "is_orphan lookup now threshold rec =
     (is_stale now threshold rec \<and>
      orphan_eligible (lookup_bullmq_state (lookup (if_provider rec) (if_job rec))))"

definition emit_orphan ::
  "millis \<Rightarrow> string \<times> inflight_record \<Rightarrow> redis \<times> clawndom_event list \<Rightarrow> redis \<times> clawndom_event list" where
  "emit_orphan now cand st =
     (case (cand, st) of ((k, rec), (r, out)) \<Rightarrow> (r_del k r, out @ [orphan_event now rec]))"

record reap_result =
  reap_scanned :: nat
  reap_orphaned :: nat

text \<open>One sweep over the keys a \<open>SCAN\<close> cursor loop collected.\<close>

definition reap_once ::
  "(string \<Rightarrow> job_id \<Rightarrow> queue_lookup) \<Rightarrow> millis \<Rightarrow> millis \<Rightarrow> string list \<Rightarrow> redis \<Rightarrow>
   reap_result \<times> redis \<times> clawndom_event list" where
  "reap_once lookup threshold now keys r =
     (let inflights = fetch_inflights keys r;
          orphans = filter (is_orphan lookup now threshold \<circ> snd) inflights
      in if inflights = [] then (\<lparr>reap_scanned = 0, reap_orphaned = 0\<rparr>, r, [])
         else (\<lparr>reap_scanned = length inflights, reap_orphaned = length orphans\<rparr>,
               fold (emit_orphan now) orphans (r, [])))"

lemma fold_emit_orphan:
  "fold (emit_orphan now) cands (r, out) =
   (fold r_del (map fst cands) r, out @ map (orphan_event now \<circ> snd) cands)"
  by (induction cands arbitrary: r out) (auto simp: emit_orphan_def)

lemma r_hgetall_fold_del:
  "r_hgetall k (fold r_del ks r) = (if k \<in> set ks then [] else r_hgetall k r)"
  by (induction ks arbitrary: r) auto

lemma fetched_hash: "(k, rec) \<in> set (fetch_inflights keys r) \<longleftrightarrow>
    k \<in> set keys \<and> parse_inflight_hash (r_hgetall k r) = Some rec"
  by (auto simp: fetch_inflights_def split: option.splits)

text \<open>A sweep deletes the hash of a scanned key exactly when its record is stale and the queue
  no longer holds its job (a failed lookup counts as not holding it), publishes one
  \<open>job.orphaned\<close> per such entry of the scan, and leaves every other hash as it was.\<close>

theorem reap_once_spec:
  "case reap_once lookup threshold now keys r of (res, r', out) \<Rightarrow>
     out = map (orphan_event now \<circ> snd)
             (filter (is_orphan lookup now threshold \<circ> snd) (fetch_inflights keys r)) \<and>
     reap_orphaned res = length out \<and> reap_scanned res = length (fetch_inflights keys r) \<and>
     r_hgetall k r' =
       (case parse_inflight_hash (r_hgetall k r) of
          Some rec \<Rightarrow> if k \<in> set keys \<and> is_orphan lookup now threshold rec then [] else r_hgetall k r
        | None \<Rightarrow> r_hgetall k r)"
proof -
  let ?orphans = "filter (is_orphan lookup now threshold \<circ> snd) (fetch_inflights keys r)"
  have "k \<in> fst ` set ?orphans \<longleftrightarrow>
      (\<exists>rec. parse_inflight_hash (r_hgetall k r) = Some rec \<and> k \<in> set keys \<and>
         is_orphan lookup now threshold rec)"
    by (simp add: image_iff Bex_def fetched_hash split_paired_Ex conj_ac)
  then show ?thesis
    by (auto simp: reap_once_def Let_def fold_emit_orphan r_hgetall_fold_del split: option.splits)
qed

text \<open>Redis may return a key twice in one \<open>SCAN\<close>; the collected list is not deduplicated, so the
  orphan is then published, and alerted, twice.\<close>

lemma reap_duplicate_scan:
  assumes "parse_inflight_hash (r_hgetall k r) = Some rec" and "is_orphan lookup now threshold rec"
  shows "snd (snd (reap_once lookup threshold now [k, k] r)) = [orphan_event now rec, orphan_event now rec]"
  using assms by (simp add: reap_once_def fetch_inflights_def fold_emit_orphan)

end
