(* ===== verification/LibText.thy ===== *)
theory LibText
  imports Json
begin

text \<open>
  The small text routines under \<open>lib/\<close> and \<open>services/rule-id.ts\<close>: credential redaction of
  audit records (\<open>lib/audit/redact.ts\<close>), durations (\<open>lib/duration.ts\<close>), rule identifiers,
  and queue names (\<open>lib/bullmq-name.ts\<close>, \<open>services/queue.service.ts\<close>).
\<close>

section \<open>Redaction\<close>

definition redacted :: string where "redacted = ''<redacted>''"

text \<open>\<open>out.split(secret).join(REDACTED)\<close>: leftmost occurrences that do not overlap.\<close>

function (sequential) replace_all :: "string \<Rightarrow> string \<Rightarrow> string \<Rightarrow> string" where
  "replace_all pat rep [] = []"
| "replace_all pat rep (c # cs) =
     (if pat \<noteq> [] \<and> prefix pat (c # cs)
      then rep @ replace_all pat rep (drop (length pat) (c # cs))
      else c # replace_all pat rep cs)"
  by pat_completeness auto
termination
  by (relation "measure (\<lambda>(pat, rep, s). length s)") (auto simp: neq_Nil_conv)

fun redact_string :: "string list \<Rightarrow> string \<Rightarrow> string" where
  "redact_string [] s = s"
| "redact_string (secret # secrets) s =
     redact_string secrets (if sublist secret s then replace_all secret redacted s else s)"

primrec apply_redaction :: "string list \<Rightarrow> json \<Rightarrow> json" where
  "apply_redaction ss JNull = JNull"
| "apply_redaction ss (JBool b) = JBool b"
| "apply_redaction ss (JNum i) = JNum i"
| "apply_redaction ss (JStr s) = JStr (redact_string ss s)"
| "apply_redaction ss (JArr vs) = JArr (map (apply_redaction ss) vs)"
| "apply_redaction ss (JObj ps) = JObj (map (map_prod id (apply_redaction ss)) ps)"

text \<open>\<open>new Set\<close> keeps first occurrences; the sort is stable, longest first.\<close>

definition order_secrets :: "string list \<Rightarrow> string list" where
  "order_secrets ss =
     sort_key (\<lambda>s. - int (length s)) (rev (remdups (rev (filter (\<lambda>s. s \<noteq> []) ss))))"

definition redact_credentials :: "json \<Rightarrow> string list \<Rightarrow> json" where
  "redact_credentials input secrets =
     (if secrets = [] then input
      else let ordered = order_secrets secrets in
           if ordered = [] then input else apply_redaction ordered input)"

primrec string_leaves :: "json \<Rightarrow> string list" where
  "string_leaves JNull = []"
| "string_leaves (JBool b) = []"
| "string_leaves (JNum i) = []"
| "string_leaves (JStr s) = [s]"
| "string_leaves (JArr vs) = concat (map string_leaves vs)"
| "string_leaves (JObj ps) = concat (map snd (map (map_prod id string_leaves) ps))"

text \<open>A secret the marker cannot reveal: no angle bracket, and not part of the word inside.\<close>

definition plain_secret :: "string \<Rightarrow> bool" where
  "plain_secret s \<longleftrightarrow> s \<noteq> [] \<and> CHR ''<'' \<notin> set s \<and> CHR ''>'' \<notin> set s \<and> \<not> sublist s ''redacted''"

lemma set_order_secrets: "set (order_secrets ss) = set ss - {[]}"
  by (auto simp: order_secrets_def)

lemma prefix_append_other: "c \<notin> set t \<Longrightarrow> prefix t (a @ c # b) \<longleftrightarrow> prefix t a"
proof (induction t arbitrary: a)
  case Nil
  then show ?case by simp
next
  case (Cons x t)
  then show ?case by (cases a) auto
qed

lemma sublist_append_other:
  "c \<notin> set t \<Longrightarrow> sublist t (a @ c # b) \<longleftrightarrow> sublist t a \<or> sublist t b"
proof (induction a)
  case Nil
  then show ?case using prefix_append_other[of c t "[]" b] by (auto simp: sublist_Cons_right)
next
  case (Cons x a)
  then show ?case
    using prefix_append_other[of c t "x # a" b] by (auto simp: sublist_Cons_right)
qed

lemma sublist_redacted_append:
  assumes "plain_secret t"
  shows "sublist t (redacted @ s) \<longleftrightarrow> sublist t s"
proof -
  have "redacted @ s = [] @ CHR ''<'' # (''redacted'' @ CHR ''>'' # s)"
    by (simp add: redacted_def)
  then show ?thesis
    using assms
    by (metis (no_types, lifting) plain_secret_def sublist_Nil_right sublist_append_other)
qed

lemma prefix_replace_all:
  "CHR ''<'' \<notin> set t \<Longrightarrow> prefix t (replace_all s redacted x) \<Longrightarrow> prefix t x"
proof (induction s redacted x arbitrary: t rule: replace_all.induct)
  case (1 pat)
  then show ?case by simp
next
  case (2 pat c cs)
  show ?case
  proof (cases "pat \<noteq> [] \<and> prefix pat (c # cs)")
    case True
    with 2(4) have "prefix t (CHR ''<'' # ''redacted>'' @ replace_all pat redacted (drop (length pat) (c # cs)))"
      by (simp add: redacted_def)
    with 2(3) show ?thesis by (cases t) auto
  next
    case False
    with 2 show ?thesis by (cases t) auto
  qed
qed

lemma replace_all_keeps_hidden:
  assumes "plain_secret t"
  shows "\<not> sublist t x \<or> (t = s) \<Longrightarrow> \<not> sublist t (replace_all s redacted x)"
proof (induction s redacted x rule: replace_all.induct)
  case (1 pat)
  then show ?case using assms by (simp add: plain_secret_def)
next
  case (2 pat c cs)
  have nb: "CHR ''<'' \<notin> set t" and ne: "t \<noteq> []" using assms by (simp_all add: plain_secret_def)
  show ?case
  proof (cases "pat \<noteq> [] \<and> prefix pat (c # cs)")
    case True
    have "\<not> sublist t (drop (length pat) (c # cs)) \<or> t = pat"
      using 2(3) sublist_drop sublist_order.order_trans by blast
    then have "\<not> sublist t (replace_all pat redacted (drop (length pat) (c # cs)))"
      by (rule 2(1)[OF True])
    then show ?thesis
      using True assms by (simp add: sublist_redacted_append)
  next
    case False
    have "\<not> sublist t cs \<or> t = pat" using 2(3) by (auto simp: sublist_Cons_right)
    then have rest: "\<not> sublist t (replace_all pat redacted cs)"
      by (rule 2(2)[OF False])
    have "\<not> prefix t (c # cs)"
      using 2(3) False ne by (auto simp: sublist_Cons_right)
    then have "\<not> prefix t (replace_all pat redacted (c # cs))"
      using prefix_replace_all[OF nb] by blast
    with rest False show ?thesis by (auto simp: sublist_Cons_right)
  qed
qed

lemma redact_string_hides:
  "list_all plain_secret ss \<Longrightarrow> plain_secret t \<Longrightarrow> t \<in> set ss \<or> \<not> sublist t x \<Longrightarrow>
   \<not> sublist t (redact_string ss x)"
proof (induction ss arbitrary: x)
  case Nil
  then show ?case by simp
next
  case (Cons s ss)
  then show ?case
    using replace_all_keeps_hidden[of t x s] by auto
qed

lemma leaves_apply_redaction:
  "string_leaves (apply_redaction ss v) = map (redact_string ss) (string_leaves v)"
proof (induction v)
  case (JArr vs)
  then show ?case by (induction vs) auto
next
  case (JObj ps)
  then show ?case
    by (induction ps) (auto simp: snds.simps)
qed auto

lemma redacted_leaf_hides:
  assumes "list_all (\<lambda>s. s = [] \<or> plain_secret s) secrets"
    and "secret \<in> set secrets" and "secret \<noteq> []"
    and "leaf \<in> set (string_leaves (redact_credentials v secrets))"
  shows "\<not> sublist secret leaf"
proof -
  have mem: "secret \<in> set (order_secrets secrets)" using assms(2,3) by (simp add: set_order_secrets)
  then have "redact_credentials v secrets = apply_redaction (order_secrets secrets) v"
    using assms(2) by (auto simp: redact_credentials_def Let_def)
  then obtain x where leaf: "leaf = redact_string (order_secrets secrets) x"
    using assms(4) by (auto simp: leaves_apply_redaction)
  have "list_all plain_secret (order_secrets secrets)"
    using assms(1) by (auto simp: list_all_iff set_order_secrets)
  then show ?thesis
    using mem leaf redact_string_hides by (metis list_all_iff)
qed

text \<open>No string of a redacted record contains a secret, for secrets the marker itself cannot
  spell; the order of the secrets and secrets that are parts of one another do not matter.\<close>

theorem redaction_hides:
  assumes "list_all (\<lambda>s. s = [] \<or> plain_secret s) secrets"
    and "secret \<in> set secrets" and "secret \<noteq> []"
    and "leaf \<in> set (string_leaves (redact_credentials v secrets))"
  shows "\<not> sublist secret leaf"
  using assms by (rule redacted_leaf_hides)

theorem redaction_hides_witness:
  "\<not> sublist ''xoxb-1'' (hd (string_leaves
     (redact_credentials (JObj [(''token'', JStr ''use xoxb-12 now'')]) [''xoxb-1'', ''xoxb-12''])))"
  by (rule redaction_hides[where secrets = "[''xoxb-1'', ''xoxb-12'']"
        and v = "JObj [(''token'', JStr ''use xoxb-12 now'')]"])
    (auto simp: plain_secret_def redact_credentials_def Let_def set_order_secrets
      leaves_apply_redaction sublist_Cons_right simp flip: set_empty)

lemma replace_all_absent: "\<not> sublist s x \<Longrightarrow> replace_all s r x = x"
  by (induction s r x rule: replace_all.induct) (auto simp: sublist_Cons_right)

lemma redact_string_absent: "list_all (\<lambda>s. \<not> sublist s x) ss \<Longrightarrow> redact_string ss x = x"
  by (induction ss) auto

lemma apply_redaction_absent:
  "list_all (\<lambda>x. list_all (\<lambda>s. \<not> sublist s x) ss) (string_leaves v) \<Longrightarrow> apply_redaction ss v = v"
proof (induction v)
  case (JArr vs)
  then show ?case by (induction vs) auto
next
  case (JObj ps)
  have "map_prod id (apply_redaction ss) p = p" if "p \<in> set ps" for p
  proof -
    have "list_all (\<lambda>x. list_all (\<lambda>s. \<not> sublist s x) ss) (string_leaves (snd p))"
      using JObj.prems that by (auto simp: list_all_iff)
    then have "apply_redaction ss (snd p) = snd p"
      using JObj.IH[OF that, of "snd p"] by (cases p) simp
    then show ?thesis by (cases p) simp
  qed
  then show ?case by (simp add: map_idI)
qed (auto simp: redact_string_absent)

text \<open>A record without any of the secrets is left exactly as it was.\<close>

theorem redaction_identity:
  assumes "list_all (\<lambda>x. list_all (\<lambda>s. s = [] \<or> \<not> sublist s x) secrets) (string_leaves v)"
  shows "redact_credentials v secrets = v"
proof -
  have "apply_redaction (order_secrets secrets) v = v"
    using assms by (intro apply_redaction_absent) (auto simp: list_all_iff set_order_secrets)
  then show ?thesis by (simp add: redact_credentials_def Let_def)
qed

theorem redaction_identity_witness:
  "redact_credentials (JArr [JStr ''hello'', JNum 3]) [''xoxb''] = JArr [JStr ''hello'', JNum 3]"
  by (rule redaction_identity) (simp add: sublist_Cons_right)

text \<open>Property names are not searched: a credential used as a key survives.\<close>

lemma redaction_keeps_keys:
  "redact_credentials (JObj [(k, JNull)]) [k] = JObj [(k, JNull)]"
  by (simp add: redact_credentials_def Let_def)

section \<open>Durations\<close>

datatype duration_error = InvalidDuration string

fun unit_millis :: "string \<Rightarrow> nat option" where
  "unit_millis u =
     (if u = ''ms'' then Some 1
      else if u = ''s'' then Some 1000
      else if u = ''m'' then Some 60000
      else if u = ''h'' then Some 3600000
      else if u = ''d'' then Some 86400000
      else None)"

text \<open>\<open>/^(\d+)(ms|s|m|h|d)$/\<close>: the digits are taken greedily and no unit starts with one.\<close>

definition parse_duration_to_ms :: "string \<Rightarrow> duration_error + nat" where
  "parse_duration_to_ms value =
     (let coefficient = takeWhile is_digit value; unit = dropWhile is_digit value in
      if coefficient = [] then Inl (InvalidDuration value)
      else (case unit_millis unit of
              None \<Rightarrow> Inl (InvalidDuration value)
            | Some multiplier \<Rightarrow> Inr (nat_of_digits coefficient * multiplier)))"

lemma unit_not_digit: "unit_millis u = Some m \<Longrightarrow> u \<noteq> [] \<and> \<not> is_digit (hd u)"
  by (auto simp: is_digit_def split: if_splits)

lemma span_digits:
  "list_all is_digit ds \<Longrightarrow> u \<noteq> [] \<Longrightarrow> \<not> is_digit (hd u) \<Longrightarrow>
   takeWhile is_digit (ds @ u) = ds \<and> dropWhile is_digit (ds @ u) = u"
  by (induction ds) (auto simp: neq_Nil_conv)

text \<open>A duration parses to \<open>ms\<close> exactly when it is one or more digits followed by a known
  unit, and then \<open>ms\<close> is the number written times the length of the unit; all else is rejected.\<close>

theorem duration_characterised:
  "parse_duration_to_ms s = Inr ms \<longleftrightarrow>
     (\<exists>ds u m. s = ds @ u \<and> ds \<noteq> [] \<and> list_all is_digit ds \<and> unit_millis u = Some m \<and>
        ms = nat_of_digits ds * m)"
proof
  assume "parse_duration_to_ms s = Inr ms"
  then obtain m where "takeWhile is_digit s \<noteq> []"
    and "unit_millis (dropWhile is_digit s) = Some m"
    and "ms = nat_of_digits (takeWhile is_digit s) * m"
    by (auto simp: parse_duration_to_ms_def Let_def simp del: unit_millis.simps
        split: if_splits option.splits)
  moreover have "list_all is_digit (takeWhile is_digit s)"
    by (auto simp: list_all_iff dest: set_takeWhileD)
  ultimately show "\<exists>ds u m. s = ds @ u \<and> ds \<noteq> [] \<and> list_all is_digit ds \<and>
      unit_millis u = Some m \<and> ms = nat_of_digits ds * m"
    by (metis takeWhile_dropWhile_id)
next
  assume "\<exists>ds u m. s = ds @ u \<and> ds \<noteq> [] \<and> list_all is_digit ds \<and> unit_millis u = Some m \<and>
      ms = nat_of_digits ds * m"
  then obtain ds u m where s: "s = ds @ u" "ds \<noteq> []" "list_all is_digit ds"
    and u: "unit_millis u = Some m" and ms: "ms = nat_of_digits ds * m" by blast
  have "takeWhile is_digit s = ds" "dropWhile is_digit s = u"
    using span_digits[OF s(3)] unit_not_digit[OF u] s(1) by auto
  then show "parse_duration_to_ms s = Inr ms"
    using s(2) u ms by (simp add: parse_duration_to_ms_def del: unit_millis.simps)
qed

section \<open>Rule identifiers\<close>

definition is_slug_char :: "char \<Rightarrow> bool" where
  "is_slug_char c \<longleftrightarrow> is_lower c \<or> is_digit c"

text \<open>\<open>replace(/[^a-z0-9]+/g, '-')\<close>; the flag says that the scan is inside a run.\<close>

fun replace_runs :: "bool \<Rightarrow> string \<Rightarrow> string" where
  "replace_runs in_run [] = []"
| "replace_runs in_run (c # cs) =
     (if is_slug_char c then c # replace_runs False cs
      else if in_run then replace_runs True cs
      else CHR ''-'' # replace_runs True cs)"

definition format_as_kebab :: "string \<Rightarrow> string" where
  "format_as_kebab input =
     (let runs = replace_runs False (map lower_char input);
          led = dropWhile (\<lambda>c. c = CHR ''-'') runs;
          trailed = rev (dropWhile (\<lambda>c. c = CHR ''-'') (rev led))
      in dropWhile (\<lambda>c. \<not> is_lower c) trailed)"

record rule_id_inputs =
  input_id :: "string option"
  input_name :: "string option"

definition resolve_rule_id :: "rule_id_inputs \<Rightarrow> nat \<Rightarrow> string" where
  "resolve_rule_id rule fallback_index =
     (case input_id rule of
        Some i \<Rightarrow> i
      | None \<Rightarrow>
          (case input_name rule of
             Some n \<Rightarrow>
               if format_as_kebab n \<noteq> [] then format_as_kebab n
               else ''rule-'' @ string_of_nat fallback_index
           | None \<Rightarrow> ''rule-'' @ string_of_nat fallback_index))"

text \<open>Words of slug characters separated by single dashes; \<open>pending\<close> says a dash was just read.\<close>

fun slug_shape :: "bool \<Rightarrow> string \<Rightarrow> bool" where
  "slug_shape pending [] \<longleftrightarrow> True"
| "slug_shape pending (c # cs) \<longleftrightarrow>
     (if c = CHR ''-'' then \<not> pending \<and> slug_shape True cs
      else is_slug_char c \<and> slug_shape False cs)"

definition is_slug :: "string \<Rightarrow> bool" where
  "is_slug s \<longleftrightarrow> slug_shape False s \<and> (s \<noteq> [] \<longrightarrow> is_lower (hd s) \<and> last s \<noteq> CHR ''-'')"

lemma dash_not_slug_char [simp]: "\<not> is_slug_char CHR ''-''" "\<not> is_lower CHR ''-''"
  by (simp_all add: is_slug_char_def is_lower_def is_digit_def)

lemma slug_shape_weaken: "slug_shape True s \<Longrightarrow> slug_shape False s"
  by (cases s) auto

lemma slug_shape_replace_runs: "slug_shape r (replace_runs r s)"
  by (induction r s rule: replace_runs.induct) auto

lemma slug_shape_tl: "slug_shape p (c # s) \<Longrightarrow> slug_shape False s"
  by (auto split: if_splits intro: slug_shape_weaken)

lemma slug_shape_dropWhile: "slug_shape p s \<Longrightarrow> slug_shape False (dropWhile P s)"
proof (induction s arbitrary: p)
  case (Cons c s)
  show ?case
  proof (cases "P c")
    case True
    then show ?thesis using Cons slug_shape_tl by auto
  next
    case False
    then show ?thesis using Cons.prems by (auto split: if_splits)
  qed
qed simp

lemma slug_shape_append: "slug_shape p (a @ b) \<Longrightarrow> slug_shape p a"
  by (induction a arbitrary: p) auto

lemma strip_end_prefix: "\<exists>b. s = rev (dropWhile P (rev s)) @ b"
  by (metis rev_append rev_rev_ident takeWhile_dropWhile_id)

lemma slug_shape_strip_end: "slug_shape p s \<Longrightarrow> slug_shape p (rev (dropWhile P (rev s)))"
  using strip_end_prefix[of s P] slug_shape_append by metis

lemma last_strip_end:
  "rev (dropWhile P (rev s)) \<noteq> [] \<Longrightarrow> \<not> P (last (rev (dropWhile P (rev s))))"
  by (simp add: last_rev hd_dropWhile)

lemma last_dropWhile: "dropWhile P s \<noteq> [] \<Longrightarrow> last (dropWhile P s) = last s"
  by (induction s) (auto split: if_splits)

lemma format_is_slug: "is_slug (format_as_kebab s)"
proof -
  define t where "t = rev (dropWhile (\<lambda>c. c = CHR ''-'')
    (rev (dropWhile (\<lambda>c. c = CHR ''-'') (replace_runs False (map lower_char s)))))"
  have f: "format_as_kebab s = dropWhile (\<lambda>c. \<not> is_lower c) t"
    by (simp add: format_as_kebab_def t_def Let_def)
  have shape: "slug_shape False t"
    unfolding t_def
    by (intro slug_shape_strip_end slug_shape_dropWhile[of False] slug_shape_replace_runs)
  have "is_lower (hd (dropWhile (\<lambda>c. \<not> is_lower c) t))" if "dropWhile (\<lambda>c. \<not> is_lower c) t \<noteq> []"
    using hd_dropWhile[OF that] by simp
  moreover have "last (dropWhile (\<lambda>c. \<not> is_lower c) t) \<noteq> CHR ''-''"
    if ne: "dropWhile (\<lambda>c. \<not> is_lower c) t \<noteq> []"
  proof -
    have "t \<noteq> []" using ne by auto
    then have "last t \<noteq> CHR ''-''"
      unfolding t_def using last_strip_end by fast
    with ne show ?thesis by (simp add: last_dropWhile)
  qed
  ultimately show ?thesis
    using slug_shape_dropWhile[OF shape] by (simp add: is_slug_def f)
qed

lemma lower_slug_char: "c = CHR ''-'' \<or> is_slug_char c \<Longrightarrow> lower_char c = c"
  by (auto simp: lower_char_def is_slug_char_def is_lower_def is_digit_def Let_def)

lemma slug_shape_chars: "slug_shape p s \<Longrightarrow> c \<in> set s \<Longrightarrow> c = CHR ''-'' \<or> is_slug_char c"
  by (induction p s rule: slug_shape.induct) (auto split: if_splits)

lemma replace_runs_slug: "slug_shape p s \<Longrightarrow> replace_runs p s = s"
  by (induction p s rule: slug_shape.induct) (auto split: if_splits)

lemma format_slug_id:
  assumes "is_slug s" shows "format_as_kebab s = s"
proof (cases s)
  case Nil
  then show ?thesis by (simp add: format_as_kebab_def)
next
  case (Cons c cs)
  have shape: "slug_shape False s" using assms by (simp add: is_slug_def)
  have "map lower_char s = s"
    using slug_shape_chars[OF shape] lower_slug_char by (simp add: map_idI)
  then have runs: "replace_runs False (map lower_char s) = s"
    using replace_runs_slug[OF shape] by simp
  have low: "is_lower c" using assms Cons by (simp add: is_slug_def)
  then have lead: "dropWhile (\<lambda>c. c = CHR ''-'') s = s" using Cons by auto
  have "last s \<noteq> CHR ''-''" using assms Cons by (simp add: is_slug_def)
  then have "\<not> (rev s \<noteq> [] \<and> hd (rev s) = CHR ''-'')"
    by (simp add: hd_rev)
  then have "dropWhile (\<lambda>c. c = CHR ''-'') (rev s) = rev s"
    by (cases "rev s") auto
  then show ?thesis
    using runs lead low Cons by (simp add: format_as_kebab_def Let_def)
qed

text \<open>Slugs are the fixed points of the slug function, and applying it twice changes
  nothing more: an identifier derived from a name is stable when it is read back as one.\<close>

theorem kebab_normal_form:
  "is_slug (format_as_kebab s) \<and> format_as_kebab (format_as_kebab s) = format_as_kebab s \<and>
   (format_as_kebab t = t \<longleftrightarrow> is_slug t)"
  using format_is_slug format_slug_id by metis

section \<open>Queue names\<close>

datatype queue_name_error = NameHasColon string | NameNotSafe string

text \<open>\<open>/^[a-z0-9][a-z0-9_-]*$/\<close>.\<close>

fun bullmq_safe_name :: "string \<Rightarrow> bool" where
  "bullmq_safe_name [] = False"
| "bullmq_safe_name (c # cs) =
     (is_slug_char c \<and> list_all (\<lambda>d. is_slug_char d \<or> d = CHR ''_'' \<or> d = CHR ''-'') cs)"

definition assert_bullmq_safe_name :: "string \<Rightarrow> queue_name_error + unit" where
  "assert_bullmq_safe_name name =
     (if CHR '':'' \<in> set name then Inl (NameHasColon name)
      else if \<not> bullmq_safe_name name then Inl (NameNotSafe name)
      else Inr ())"

definition build_queue_name :: "string option \<Rightarrow> string \<Rightarrow> queue_name_error + string" where
  "build_queue_name env_prefix provider =
     (let name = (case env_prefix of None \<Rightarrow> ''webhooks'' | Some p \<Rightarrow> p) @ ''-'' @ provider in
      case assert_bullmq_safe_name name of Inl e \<Rightarrow> Inl e | Inr _ \<Rightarrow> Inr name)"

lemma safe_name_no_colon: "bullmq_safe_name s \<Longrightarrow> CHR '':'' \<notin> set s"
  by (cases s) (auto simp: list_all_iff is_slug_char_def is_lower_def is_digit_def)

lemma slug_is_safe_name: "is_slug s \<Longrightarrow> s \<noteq> [] \<Longrightarrow> bullmq_safe_name s"
  by (cases s) (auto simp: is_slug_def list_all_iff is_slug_char_def
      dest!: slug_shape_chars split: if_splits)

lemma assert_safe_iff: "assert_bullmq_safe_name s = Inr () \<longleftrightarrow> bullmq_safe_name s"
  using safe_name_no_colon by (auto simp: assert_bullmq_safe_name_def)

text \<open>Under the default prefix a provider gets a queue exactly when every character of its
  name is in \<open>[a-z0-9_-]\<close>; the queue name never holds the Redis separator, and two providers
  never share a queue.\<close>

theorem queue_names:
  "(build_queue_name None p = Inr q \<longleftrightarrow>
      q = ''webhooks-'' @ p \<and>
      list_all (\<lambda>d. is_slug_char d \<or> d = CHR ''_'' \<or> d = CHR ''-'') p) \<and>
   (build_queue_name None p = Inr q \<and> build_queue_name None p' = Inr q \<longleftrightarrow>
      build_queue_name None p = Inr q \<and> p = p')"
proof -
  have "bullmq_safe_name (''webhooks-'' @ p) \<longleftrightarrow>
      list_all (\<lambda>d. is_slug_char d \<or> d = CHR ''_'' \<or> d = CHR ''-'') p" for p
    by (simp add: is_slug_char_def is_lower_def)
  moreover have "build_queue_name None p = Inr q \<longleftrightarrow>
      q = ''webhooks-'' @ p \<and> bullmq_safe_name (''webhooks-'' @ p)" for p
    using assert_safe_iff[of "''webhooks-'' @ p"]
    by (auto simp: build_queue_name_def Let_def simp del: bullmq_safe_name.simps split: sum.splits)
  ultimately show ?thesis by auto
qed

end
