(* ===== verification/Ingest.thy ===== *)
theory Ingest
  imports EventBus Routing LibText
begin

text \<open>
  The shared ingest pipeline: the provider strategies of \<open>strategies/context.ts\<close> that name
  an event, and \<open>services/event-ingest.service.ts\<close>, which routes it, drops a duplicate seen
  within the dedup window (\<open>SET key 1 EX ttl NX\<close> on Redis) and adds the job envelope to the
  provider's queue. What \<open>queue.add\<close> answers, the job id or a failure, is part of a request;
  \<open>Date.now()\<close> is read once per request. Redis keeps a key until its expiry, in milliseconds.
\<close>

section \<open>Webhook context\<close>

record webhook_context =
  ctx_id :: string
  ctx_title :: string
  ctx_status :: string
  ctx_source :: string

record provider =
  provider_name :: string
  provider_context_strategy :: "string option"
  provider_runner :: "string option"
  provider_env_secrets :: "string list option"

definition slice80 :: "string \<Rightarrow> string" where "slice80 s = take 80 s"

definition jira_extract :: "jsval \<Rightarrow> webhook_context" where
  "jira_extract p =
     \<lparr>ctx_id = get_string_field p ''issue.key'' ''?'',
      ctx_title = slice80 (get_string_field p ''issue.fields.summary'' ''?''),
      ctx_status = get_string_field p ''issue.fields.status.name'' ''?'',
      ctx_source = ''jira''\<rparr>"

definition github_extract :: "jsval \<Rightarrow> webhook_context" where
  "github_extract p =
     (let base = get_string_field p ''repository.full_name'' ''?'';
          ref = get_string_field p ''ref'' [];
          it = (case get_scalar_field p ''pull_request.number'' of
              Some n \<Rightarrow> (base @ ''#'' @ scalar_text n,
                         slice80 (get_string_field p ''pull_request.title'' ''?''))
            | None \<Rightarrow>
                (case get_scalar_field p ''issue.number'' of
                   Some n \<Rightarrow> (base @ ''#'' @ scalar_text n,
                              slice80 (get_string_field p ''issue.title'' ''?''))
                 | None \<Rightarrow>
                     if length ref > 0 then (base @ '' '' @ ref, ''push'') else (base, ''?'')))
      in \<lparr>ctx_id = fst it, ctx_title = snd it,
          ctx_status = get_string_field p ''action'' ''?'', ctx_source = ''github''\<rparr>)"

text \<open>The channel table is an object literal: a channel named after a member of
  \<open>Object.prototype\<close> reads that member, written here as the text it turns into.\<close>

definition slack_environment :: "string \<Rightarrow> string" where
  "slack_environment channel =
     (if channel = ''C08V6MV0VNV'' then ''development''
      else if channel = ''C08UWMQJFBN'' then ''testing''
      else if channel = ''C08UVJDJZTL'' then ''production''
      else case object_inherited channel of Undef \<Rightarrow> ''unknown'' | v \<Rightarrow> stringify_resolved v)"

definition slack_title :: "jsval \<Rightarrow> string" where
  "slack_title p =
     (case resolve_field_path p ''event.blocks'' of
        Val (JArr (first # _)) \<Rightarrow>
          (let t = get_string_field (Val first) ''text.text'' [];
               resolved = (if length t > 0 then t else get_string_field (Val first) ''text'' [])
           in if length resolved > 0 then slice80 resolved else ''?'')
      | _ \<Rightarrow> ''?'')"

definition slack_extract :: "jsval \<Rightarrow> webhook_context" where
  "slack_extract p =
     \<lparr>ctx_id = get_string_field p ''event.ts'' ''?'', ctx_title = slack_title p,
      ctx_status = slack_environment (get_string_field p ''event.channel'' []),
      ctx_source = ''slack''\<rparr>"

definition gmail_extract :: "jsval \<Rightarrow> webhook_context" where
  "gmail_extract p =
     (let email = get_string_field p ''emailAddress'' [];
          history = get_string_field p ''historyId'' []
      in \<lparr>ctx_id = (if length email > 0 then email else ''?''),
          ctx_title = (if length history > 0 then ''history '' @ history else ''?''),
          ctx_status = ''pubsub'', ctx_source = ''gmail-pubsub''\<rparr>)"

definition fallback_extract :: "jsval \<Rightarrow> webhook_context" where
  "fallback_extract p = \<lparr>ctx_id = ''?'', ctx_title = ''?'', ctx_status = ''?'', ctx_source = ''unknown''\<rparr>"

text \<open>\<open>strategies[key] ?? fallbackStrategy\<close>; \<open>None\<close> is an inherited member, which has no
  \<open>extract\<close> method.\<close>

definition get_context_strategy :: "provider \<Rightarrow> (jsval \<Rightarrow> webhook_context) option" where
  "get_context_strategy p =
     (let key = (case provider_context_strategy p of Some k \<Rightarrow> k | None \<Rightarrow> provider_name p) in
      if key = ''jira'' then Some jira_extract
      else if key = ''github'' then Some github_extract
      else if key = ''slack'' then Some slack_extract
      else if key = ''gmail-pubsub'' then Some gmail_extract
      else if object_inherited key = Undef then Some fallback_extract
      else None)"

datatype ingest_error =
    Extract_not_a_function
  | Routing_threw eval_error
  | Bad_queue_name queue_name_error
  | Queue_add_failed

definition extract_webhook_context :: "provider \<Rightarrow> jsval \<Rightarrow> ingest_error + webhook_context" where
  "extract_webhook_context p payload =
     (case get_context_strategy p of
        None \<Rightarrow> Inl Extract_not_a_function
      | Some extract \<Rightarrow> Inr (extract payload))"

section \<open>Dedup store\<close>

type_synonym dedup_store = "(string, millis) jsmap"

definition dedup_key :: "string \<Rightarrow> webhook_context \<Rightarrow> string" where
  "dedup_key provider c =
     ''clawndom:dedup:'' @ provider @ '':'' @ ctx_id c @ '':'' @ ctx_status c"

definition holds_key :: "dedup_store \<Rightarrow> millis \<Rightarrow> string \<Rightarrow> bool" where
  "holds_key d now k = (case map_of d k of Some expiry \<Rightarrow> now < expiry | None \<Rightarrow> False)"

definition set_nx_ex :: "string \<Rightarrow> millis \<Rightarrow> nat \<Rightarrow> dedup_store \<Rightarrow> bool \<times> dedup_store" where
  "set_nx_ex k now ttl d =
     (if holds_key d now k then (False, d)
      else (True, AList.update k (now + 1000 * int ttl) d))"

section \<open>The pipeline\<close>

record ingest_env =
  env_rx :: regex_engine
  env_ttl :: nat
  env_prefix :: "string option"

record ingest_request =
  rq_provider :: provider
  rq_agents :: "agent list"
  rq_payload :: json
  rq_trace :: string
  rq_now :: millis
  rq_added :: "string option option"

record ingest_state =
  st_dedup :: dedup_store
  st_jobs :: "(string \<times> string) list"
  st_bus :: bus

datatype ingest_outcome = No_routing_match_outcome | Duplicate_outcome | Enqueued string

definition publish_rejected ::
  "ingest_request \<Rightarrow> webhook_context \<Rightarrow> reject_reason \<Rightarrow> ingest_state \<Rightarrow> ingest_state" where
  "publish_rejected r c why s =
     s\<lparr>st_bus := publish (Webhook (Webhook_rejected (rq_now r) (rq_trace r)
         (provider_name (rq_provider r)) why (Some (ctx_id c)) (Some (ctx_status c))
         (Some (ctx_title c)))) (st_bus s)\<rparr>"

definition first_envelope :: "json \<Rightarrow> webhook_context \<Rightarrow> json" where
  "first_envelope payload c =
     JObj [(''payload'', JStr (json_stringify payload)),
           (''attempt'', JNum 1),
           (''context'', JObj [(''id'', JStr (ctx_id c)), (''title'', JStr (ctx_title c)),
                               (''status'', JStr (ctx_status c))])]"

definition accepted_events :: "ingest_request \<Rightarrow> webhook_context \<Rightarrow> string \<Rightarrow> clawndom_event list" where
  "accepted_events r c job_trace =
     [Webhook (Webhook_accepted (rq_now r) job_trace (provider_name (rq_provider r))
        (ctx_id c) (ctx_title c) (ctx_status c)),
      Job (Job_queued (rq_now r) job_trace job_trace (provider_name (rq_provider r))
        (ctx_id c) (ctx_title c))]"

definition enqueue_event :: "ingest_env \<Rightarrow> ingest_request \<Rightarrow> webhook_context \<Rightarrow> ingest_state \<Rightarrow>
    (ingest_error + ingest_outcome) \<times> ingest_state" where
  "enqueue_event env r c s =
     (case build_queue_name (env_prefix env) (provider_name (rq_provider r)) of
        Inl e \<Rightarrow> (Inl (Bad_queue_name e), s)
      | Inr queue \<Rightarrow>
          (case rq_added r of
             None \<Rightarrow> (Inl Queue_add_failed, s)
           | Some job_id \<Rightarrow>
               (let job_trace = (case job_id of Some i \<Rightarrow> i | None \<Rightarrow> ''unknown'') in
                (Inr (Enqueued job_trace),
                 s\<lparr>st_jobs := st_jobs s @ [(queue, json_stringify (first_envelope (rq_payload r) c))],
                   st_bus := publish_all (accepted_events r c job_trace) (st_bus s)\<rparr>))))"

definition ingest_event :: "ingest_env \<Rightarrow> ingest_request \<Rightarrow> ingest_state \<Rightarrow>
    (ingest_error + ingest_outcome) \<times> ingest_state" where
  "ingest_event env r s =
     (case extract_webhook_context (rq_provider r) (Val (rq_payload r)) of
        Inl e \<Rightarrow> (Inl e, s)
      | Inr c \<Rightarrow>
          (case resolve_agent_from_agents (env_rx env) (Val (rq_payload r))
                  (provider_name (rq_provider r)) (rq_agents r) of
             Inl e \<Rightarrow> (Inl (Routing_threw e), s)
           | Inr None \<Rightarrow> (Inr No_routing_match_outcome, publish_rejected r c No_routing_match s)
           | Inr (Some _) \<Rightarrow>
               if ctx_id c \<noteq> ''?'' then
                 (let (is_new, dedup) = set_nx_ex (dedup_key (provider_name (rq_provider r)) c)
                        (rq_now r) (env_ttl env) (st_dedup s)
                  in if \<not> is_new
                     then (Inr Duplicate_outcome, publish_rejected r c Duplicate s)
                     else enqueue_event env r c (s\<lparr>st_dedup := dedup\<rparr>))
               else enqueue_event env r c s))"

definition ingest_run :: "ingest_env \<Rightarrow> ingest_request list \<Rightarrow> ingest_state \<Rightarrow> ingest_state" where
  "ingest_run env rs s = fold (\<lambda>r s. snd (ingest_event env r s)) rs s"

text \<open>The dedup key under which a request is known, when it has one.\<close>

definition request_key :: "ingest_request \<Rightarrow> string option" where
  "request_key r =
     (case extract_webhook_context (rq_provider r) (Val (rq_payload r)) of
        Inl e \<Rightarrow> None
      | Inr c \<Rightarrow> if ctx_id c = ''?'' then None
                 else Some (dedup_key (provider_name (rq_provider r)) c))"

section \<open>Effects of one request\<close>

lemma enqueue_dedup [simp]: "st_dedup (snd (enqueue_event env r c s)) = st_dedup s"
  by (simp add: enqueue_event_def Let_def split: sum.split option.split)

lemma enqueue_not_duplicate [simp]: "fst (enqueue_event env r c s) \<noteq> Inr Duplicate_outcome"
  by (simp add: enqueue_event_def Let_def split: sum.split option.split)

text \<open>What one request does. It adds a job exactly when it answers \<open>enqueued\<close>, and then the
  job is the payload in a first-attempt envelope and both announcements carry the job's id; it
  answers otherwise with one rejection on the bus, or throws and publishes nothing.\<close>

theorem ingest_effects:
  "case ingest_event env r s of (result, s') \<Rightarrow>
   (case result of
      Inl e \<Rightarrow> st_jobs s' = st_jobs s \<and> st_bus s' = st_bus s
    | Inr (Enqueued t) \<Rightarrow>
        (\<exists>c queue. extract_webhook_context (rq_provider r) (Val (rq_payload r)) = Inr c \<and>
           build_queue_name (env_prefix env) (provider_name (rq_provider r)) = Inr queue \<and>
           st_jobs s' = st_jobs s @ [(queue, json_stringify (first_envelope (rq_payload r) c))] \<and>
           st_bus s' = publish_all (accepted_events r c t) (st_bus s))
    | Inr No_routing_match_outcome \<Rightarrow>
        (\<exists>c. extract_webhook_context (rq_provider r) (Val (rq_payload r)) = Inr c \<and>
           s' = publish_rejected r c No_routing_match s)
    | Inr Duplicate_outcome \<Rightarrow>
        (\<exists>c k. extract_webhook_context (rq_provider r) (Val (rq_payload r)) = Inr c \<and>
           request_key r = Some k \<and> holds_key (st_dedup s) (rq_now r) k \<and>
           s' = publish_rejected r c Duplicate s))"
  by (auto simp: ingest_event_def enqueue_event_def request_key_def set_nx_ex_def Let_def
      split: sum.splits option.splits if_splits prod.splits ingest_outcome.splits)

section \<open>The dedup window\<close>

lemma set_nx_ex_keeps:
  "holds_key d now k \<Longrightarrow> now \<le> t \<Longrightarrow> t < the (map_of d k) \<Longrightarrow>
   map_of (snd (set_nx_ex k' t ttl d)) k = map_of d k"
  by (auto simp: set_nx_ex_def holds_key_def split: option.splits)

text \<open>A key with expiry \<open>e\<close> survives every request made before \<open>e\<close>.\<close>

lemma ingest_event_keeps_key:
  assumes "map_of (st_dedup s) k = Some e" "rq_now r < e"
  shows "map_of (st_dedup (snd (ingest_event env r s))) k = Some e"
  using assms
  by (auto simp: ingest_event_def set_nx_ex_def holds_key_def publish_rejected_def Let_def
      split: sum.splits option.splits prod.splits if_splits)

lemma ingest_run_keeps_key:
  "map_of (st_dedup s) k = Some e \<Longrightarrow> list_all (\<lambda>r. rq_now r < e) rs \<Longrightarrow>
   map_of (st_dedup (ingest_run env rs s)) k = Some e"
  by (induction rs arbitrary: s) (simp_all add: ingest_run_def ingest_event_keeps_key)

lemma ingest_marks_key:
  assumes "request_key r = Some k"
    and "fst (ingest_event env r s) = Inr (Enqueued t) \<or> fst (ingest_event env r s) = Inl Queue_add_failed"
  shows "map_of (st_dedup (snd (ingest_event env r s))) k = Some (rq_now r + 1000 * int (env_ttl env))"
  using assms
  by (auto simp: ingest_event_def request_key_def set_nx_ex_def Let_def extract_webhook_context_def
      split: sum.splits option.splits prod.splits if_splits)

lemma ingest_held_key:
  assumes "request_key r = Some k" "map_of (st_dedup s) k = Some e" "rq_now r < e"
  shows "fst (ingest_event env r s) = Inr Duplicate_outcome \<or>
    fst (ingest_event env r s) = Inr No_routing_match_outcome \<or>
    (\<exists>e. fst (ingest_event env r s) = Inl (Routing_threw e))"
  using assms
  by (auto simp: ingest_event_def request_key_def set_nx_ex_def holds_key_def Let_def
      split: sum.splits option.splits prod.splits if_splits)

definition sample_env :: ingest_env where
  "sample_env = \<lparr>env_rx = (\<lambda>_ _. None), env_ttl = 60, env_prefix = None\<rparr>"

definition sample_agent :: agent where
  "sample_agent = \<lparr>agent_name = ''patch'', agent_dir = ''/a'',
     agent_routing = [(''jira'', [\<lparr>rule_name = Some ''r'', rule_id = None,
       rule_condition = Some (Exists ''issue''), rule_template = None,
       rule_session = None, rule_memory = None, rule_max_turns = None, rule_runner = None, rule_tools = None,
       rule_cron = None, rule_timezone = None, rule_context = None\<rparr>])],
     agent_model_rules = []\<rparr>"

definition sample_request :: "millis \<Rightarrow> string option option \<Rightarrow> ingest_request" where
  "sample_request now added =
     \<lparr>rq_provider = \<lparr>provider_name = ''jira'', provider_context_strategy = None,
        provider_runner = None, provider_env_secrets = None\<rparr>, rq_agents = [sample_agent],
      rq_payload = JObj [(''issue'', JObj [(''key'', JStr ''S-1'')])], rq_trace = ''t'',
      rq_now = now, rq_added = added\<rparr>"

definition sample_state :: ingest_state where
  "sample_state = \<lparr>st_dedup = [], st_jobs = [], st_bus = new_bus (Some 5) None\<rparr>"


text \<open>The routing, the context and the queue name of the sample request, evaluated once.\<close>

lemma sample_key: "request_key (sample_request now added) = Some ''clawndom:dedup:jira:S-1:?''"
  by code_simp

lemma sample_first:
  "fst (ingest_event sample_env (sample_request 0 (Some (Some ''7''))) sample_state)
     = Inr (Enqueued ''7'')"
  by code_simp

lemma sample_failed:
  "fst (ingest_event sample_env (sample_request 0 None) sample_state) = Inl Queue_add_failed"
  by code_simp

text \<open>C2: Once an event has been enqueued, no other event of the same provider, identifier and
  status is enqueued before the window ends, whatever requests arrive in between.\<close>

theorem dedup_window:
  assumes "fst (ingest_event env first s) = Inr (Enqueued t)"
    and "request_key first = Some k" and "request_key again = Some k"
    and "list_all (\<lambda>r. rq_now r < rq_now first + 1000 * int (env_ttl env)) (between @ [again])"
  shows "fst (ingest_event env again (ingest_run env between (snd (ingest_event env first s))))
    \<noteq> Inr (Enqueued u)"
proof -
  let ?s = "ingest_run env between (snd (ingest_event env first s))"
  have "map_of (st_dedup (snd (ingest_event env first s))) k
      = Some (rq_now first + 1000 * int (env_ttl env))"
    using ingest_marks_key assms(1,2) by blast
  then have "map_of (st_dedup ?s) k = Some (rq_now first + 1000 * int (env_ttl env))"
    using ingest_run_keeps_key assms(4) by simp
  from ingest_held_key[OF assms(3) this, of env] assms(4) show ?thesis by auto
qed

theorem dedup_window_witness:
  "fst (ingest_event sample_env (sample_request 59999 (Some (Some ''8'')))
     (ingest_run sample_env [sample_request 1000 None]
       (snd (ingest_event sample_env (sample_request 0 (Some (Some ''7''))) sample_state))))
   \<noteq> Inr (Enqueued ''8'')"
  by (rule dedup_window[OF sample_first sample_key sample_key])
    (simp add: sample_request_def sample_env_def)

text \<open>The mark is set before the job is added. When adding the job fails, a redelivery of
  the event inside the window adds no job either: it is answered as a duplicate of a job that
  does not exist.\<close>

theorem failed_add_loses_event:
  assumes "fst (ingest_event env first s) = Inl Queue_add_failed"
    and "request_key first = Some k" and "request_key again = Some k"
    and "list_all (\<lambda>r. rq_now r < rq_now first + 1000 * int (env_ttl env)) (between @ [again])"
  shows "fst (ingest_event env again (ingest_run env between (snd (ingest_event env first s))))
    \<in> {Inr Duplicate_outcome, Inr No_routing_match_outcome} \<union> (Inl ` range Routing_threw)"
proof -
  let ?s = "ingest_run env between (snd (ingest_event env first s))"
  have "map_of (st_dedup (snd (ingest_event env first s))) k
      = Some (rq_now first + 1000 * int (env_ttl env))"
    using ingest_marks_key assms(1,2) by blast
  then have "map_of (st_dedup ?s) k = Some (rq_now first + 1000 * int (env_ttl env))"
    using ingest_run_keeps_key assms(4) by simp
  from ingest_held_key[OF assms(3) this, of env] assms(4) show ?thesis by auto
qed

theorem failed_add_loses_event_witness:
  "fst (ingest_event sample_env (sample_request 5000 (Some (Some ''8'')))
     (ingest_run sample_env [] (snd (ingest_event sample_env (sample_request 0 None) sample_state))))
   \<in> {Inr Duplicate_outcome, Inr No_routing_match_outcome} \<union> (Inl ` range Routing_threw)"
  by (rule failed_add_loses_event[OF sample_failed sample_key sample_key])
    (simp add: sample_request_def sample_env_def)

text \<open>Keys keep apart the events whose identifiers hold no separator.\<close>

lemma dedup_key_separates:
  assumes "CHR '':'' \<notin> set p" "CHR '':'' \<notin> set q" "CHR '':'' \<notin> set (ctx_id c)" "CHR '':'' \<notin> set (ctx_id d)"
    and "dedup_key p c = dedup_key q d"
  shows "p = q \<and> ctx_id c = ctx_id d \<and> ctx_status c = ctx_status d"
proof -
  have split: "a @ CHR '':'' # x = b @ CHR '':'' # y \<Longrightarrow> CHR '':'' \<notin> set a \<Longrightarrow> CHR '':'' \<notin> set b \<Longrightarrow>
      a = b \<and> x = y" for a b x y :: string
    by (metis split_on_append_sep join_split_on list.inject)
  have "p @ CHR '':'' # ctx_id c @ CHR '':'' # ctx_status c
      = q @ CHR '':'' # ctx_id d @ CHR '':'' # ctx_status d"
    using assms(5) by (simp add: dedup_key_def)
  from split[OF this assms(1,2)] show ?thesis using split assms(3,4) by blast
qed

text \<open>Every Gmail notification of one mailbox has the same key, whatever its history id.\<close>

lemma gmail_notifications_coalesce:
  "get_string_field p ''emailAddress'' [] = get_string_field q ''emailAddress'' [] \<Longrightarrow>
   dedup_key n (gmail_extract p) = dedup_key n (gmail_extract q)"
  by (simp add: dedup_key_def gmail_extract_def Let_def)

text \<open>A strategy name inherited from \<open>Object.prototype\<close> passes the \<open>??\<close> and then throws.\<close>

lemma inherited_strategy_throws:
  "extract_webhook_context \<lparr>provider_name = ''constructor'', provider_context_strategy = None,
     provider_runner = None, provider_env_secrets = None\<rparr> payload = Inl Extract_not_a_function"
  by (simp add: extract_webhook_context_def get_context_strategy_def object_inherited_def
      object_members_def)

end
