(* ===== verification/SessionKey.thy ===== *)
theory SessionKey
  imports Extract
begin

text \<open>
  Session keys: the Slack strategy of \<open>strategies/session-key/slack.ts\<close> that says which
  conversation an event belongs to, and the registry lookup of \<open>session-key/index.ts\<close>.
  A key is the channel for a direct message or an assistant panel and \<open>channel:thread\<close> for
  a conversation inside a channel; \<open>None\<close> sends the event down the per-event path.
\<close>

record slack_event =
  se_channel :: "string option"
  se_channel_type :: "string option"
  se_type :: "string option"
  se_thread_ts :: "string option"
  se_ts :: "string option"
  se_assistant_thread :: bool

text \<open>The property reads on \<open>payload.event\<close>; each text field counts only when it is non-empty.\<close>

definition read_slack_event :: "jsval \<Rightarrow> slack_event" where
  "read_slack_event event =
     \<lparr>se_channel = read_string (read_indexed event ''channel''),
      se_channel_type = read_string (read_indexed event ''channel_type''),
      se_type = read_string (read_indexed event ''type''),
      se_thread_ts = read_string (read_indexed event ''thread_ts''),
      se_ts = read_string (read_indexed event ''ts''),
      se_assistant_thread =
        (read_indexed event ''assistant_thread'' \<noteq> Undef \<and>
         read_indexed event ''assistant_thread'' \<noteq> Val JNull)\<rparr>"

definition slack_conversation :: "slack_event \<Rightarrow> string option" where
  "slack_conversation e =
     (case se_channel e of
        None \<Rightarrow> None
      | Some channel \<Rightarrow>
          if se_channel_type e = Some ''im'' then Some channel
          else if se_assistant_thread e then Some channel
          else if se_channel_type e = Some ''group'' \<and> se_thread_ts e \<noteq> None then Some channel
          else if se_type e = Some ''app_mention'' \<and> se_channel_type e = Some ''channel'' then
            (case (case se_thread_ts e of Some t \<Rightarrow> Some t | None \<Rightarrow> se_ts e) of
               None \<Rightarrow> None
             | Some conversation \<Rightarrow> Some (channel @ '':'' @ conversation))
          else if se_type e = Some ''message'' \<and> se_channel_type e = Some ''channel'' then
            (case se_thread_ts e of
               None \<Rightarrow> None
             | Some thread \<Rightarrow> Some (channel @ '':'' @ thread))
          else None)"

definition slack_session_key :: "jsval \<Rightarrow> string option" where
  "slack_session_key payload =
     (if \<not> is_plain_object payload then None
      else let event = read_indexed payload ''event'' in
           if \<not> is_plain_object event then None
           else slack_conversation (read_slack_event event))"

definition get_session_key_strategy :: "string \<Rightarrow> (jsval \<Rightarrow> string option) option" where
  "get_session_key_strategy name = (if name = ''slack'' then Some slack_session_key else None)"

lemma not_channel_with_thread:
  "CHR '':'' \<notin> set c \<Longrightarrow> c \<noteq> d @ CHR '':'' # t"
  by auto

text \<open>The thread an event in a channel continues: its parent's timestamp, or for a mention that
  opens a thread its own.\<close>

definition slack_thread :: "slack_event \<Rightarrow> string option" where
  "slack_thread e =
     (if se_type e = Some ''app_mention''
      then (case se_thread_ts e of Some t \<Rightarrow> Some t | None \<Rightarrow> se_ts e)
      else se_thread_ts e)"

definition whole_channel :: "slack_event \<Rightarrow> bool" where
  "whole_channel e \<longleftrightarrow> se_channel_type e = Some ''im'' \<or> se_assistant_thread e \<or>
     se_channel_type e = Some ''group'' \<and> se_thread_ts e \<noteq> None"

lemma slack_conversation_cases:
  assumes "slack_conversation e = Some k"
  obtains (whole) "se_channel e = Some k" "whole_channel e"
  | (thread) c t where "se_channel e = Some c" "slack_thread e = Some t" "\<not> whole_channel e"
      "k = c @ CHR '':'' # t"
  using assms
  by (auto simp: slack_conversation_def slack_thread_def whole_channel_def
      split: option.splits if_splits)

text \<open>Two events share a session key exactly when they are in the same channel and either
  both belong to the whole channel or both belong to the same thread; conversations never mix,
  whatever the timestamps hold (Slack channel ids hold no colon).\<close>

theorem slack_key_separates:
  assumes "slack_conversation e = Some k" and "slack_conversation f = Some l"
    and "list_all (\<lambda>x. CHR '':'' \<notin> set (the (se_channel x))) [e, f]"
  shows "k = l \<longleftrightarrow> se_channel e = se_channel f \<and> whole_channel e = whole_channel f \<and>
    (\<not> whole_channel e \<longrightarrow> slack_thread e = slack_thread f)"
  using assms(1)
proof (cases rule: slack_conversation_cases)
  case e: whole
  from assms(2) show ?thesis
  proof (cases rule: slack_conversation_cases)
    case whole
    then show ?thesis using e by simp
  next
    case (thread c t)
    then show ?thesis using e assms(3) by auto
  qed
next
  case e: (thread c t)
  from assms(2) show ?thesis
  proof (cases rule: slack_conversation_cases)
    case whole
    then show ?thesis using e assms(3) by auto
  next
    case (thread d u)
    then show ?thesis using e assms(3) split_at_colon[of c t d u] by auto
  qed
qed

definition sample_slack_event :: "string option \<Rightarrow> string \<Rightarrow> slack_event" where
  "sample_slack_event thread ts = \<lparr>se_channel = Some ''C1'', se_channel_type = Some ''channel'',
     se_type = Some ''app_mention'', se_thread_ts = thread, se_ts = Some ts,
     se_assistant_thread = False\<rparr>"

theorem slack_key_separates_witness:
  "''C1:5.0'' = ''C1:5.0'' \<longleftrightarrow>
     se_channel (sample_slack_event None ''5.0'') = se_channel (sample_slack_event (Some ''5.0'') ''6.0'') \<and>
     whole_channel (sample_slack_event None ''5.0'') = whole_channel (sample_slack_event (Some ''5.0'') ''6.0'') \<and>
     (\<not> whole_channel (sample_slack_event None ''5.0'') \<longrightarrow>
      slack_thread (sample_slack_event None ''5.0'') = slack_thread (sample_slack_event (Some ''5.0'') ''6.0''))"
  by (rule slack_key_separates) (simp_all add: slack_conversation_def sample_slack_event_def)

end
