(* ===== verification/Worker.thy ===== *)
theory Worker
  imports Ingest JobRegistries SessionKey
begin

text \<open>
  The job worker: \<open>services/worker.service.ts\<close> (envelopes, model rules, env secrets, the turn
  \<open>processJob\<close>, quota pauses, dispatch) and \<open>services/worker-failure-handler.ts\<close> (retry with
  backoff, final failure). A turn is a function of the job, the state and a \<open>world\<close>: what the
  file system, the template renderer, the memory search, the secret backend, the runner and
  \<open>queue.add\<close> answer. The state holds the jobs added (with their delay), the events published,
  the alerts sent, and the active-jobs registry, which observes the same bus.
\<close>

section \<open>Envelopes\<close>

record job_envelope =
  jenv_payload :: string
  jenv_attempt :: int
  jenv_original :: "string option"
  jenv_context :: "job_context option"
  jenv_session :: "string option"

definition context_json :: "job_context \<Rightarrow> json" where
  "context_json c = JObj [(''id'', JStr (cx_id c)), (''title'', JStr (cx_title c)),
     (''status'', JStr (cx_status c))]"

text \<open>An envelope as \<open>JSON.stringify\<close> writes it: undefined members are left out.\<close>

definition envelope_json :: "job_envelope \<Rightarrow> json" where
  "envelope_json e =
     JObj ([(''payload'', JStr (jenv_payload e)), (''attempt'', JNum (jenv_attempt e))]
       @ (case jenv_original e of None \<Rightarrow> [] | Some i \<Rightarrow> [(''originalJobId'', JStr i)])
       @ (case jenv_context e of None \<Rightarrow> [] | Some c \<Rightarrow> [(''context'', context_json c)])
       @ (case jenv_session e of None \<Rightarrow> [] | Some i \<Rightarrow> [(''sessionId'', JStr i)]))"

text \<open>The schema of the optional context; the outer \<open>None\<close> is a failed check.\<close>

fun parse_context :: "json option \<Rightarrow> job_context option option" where
  "parse_context None = Some None"
| "parse_context (Some (JObj ps)) =
     (case (string_member ps ''id'', string_member ps ''title'', string_member ps ''status'') of
        (Some i, Some t, Some s) \<Rightarrow> Some (Some \<lparr>cx_id = i, cx_title = t, cx_status = s\<rparr>)
      | _ \<Rightarrow> None)"
| "parse_context _ = None"

fun safe_parse_envelope :: "json \<Rightarrow> job_envelope option" where
  "safe_parse_envelope (JObj ps) =
     (case (string_member ps ''payload'', map_of ps ''attempt'') of
        (Some p, Some (JNum n)) \<Rightarrow>
          (case (optional_string_member ps ''originalJobId'', parse_context (map_of ps ''context''),
                 optional_string_member ps ''sessionId'') of
             (Some i, Some c, Some s) \<Rightarrow>
               Some \<lparr>jenv_payload = p, jenv_attempt = n, jenv_original = i, jenv_context = c,
                     jenv_session = s\<rparr>
           | _ \<Rightarrow> None)
      | _ \<Rightarrow> None)"
| "safe_parse_envelope _ = None"

definition raw_envelope :: "string \<Rightarrow> job_envelope" where
  "raw_envelope data = \<lparr>jenv_payload = data, jenv_attempt = 1, jenv_original = None,
     jenv_context = None, jenv_session = None\<rparr>"

definition parse_envelope :: "string \<Rightarrow> job_envelope" where
  "parse_envelope data =
     (case json_parse data of
        None \<Rightarrow> raw_envelope data
      | Some parsed \<Rightarrow>
          (case safe_parse_envelope parsed of Some e \<Rightarrow> e | None \<Rightarrow> raw_envelope data))"

definition write_envelope :: "job_envelope \<Rightarrow> string" where
  "write_envelope e = json_stringify (envelope_json e)"

lemma wf_envelope_json: "wf_json (envelope_json e)"
  by (simp add: envelope_json_def context_json_def split: option.split)

lemma safe_parse_envelope_json: "safe_parse_envelope (envelope_json e) = Some e"
  by (cases e) (auto simp: envelope_json_def context_json_def string_member_def
      optional_string_member_def split: option.split)

lemma parse_write_envelope: "parse_envelope (write_envelope e) = e"
  using json_parse_stringify[OF wf_envelope_json[of e]]
  by (simp add: parse_envelope_def write_envelope_def safe_parse_envelope_json)

interpretation envelope_codec: codec "\<lambda>_. True" write_envelope "\<lambda>w. Some (parse_envelope w)"
  by unfold_locales (simp add: parse_write_envelope)

text \<open>C32: An envelope reads back as it was written, whatever strings it holds, and different
  envelopes are written differently: no retry or pause confuses two jobs.\<close>

theorem envelope_roundtrip:
  "parse_envelope (write_envelope e) = e \<and> (write_envelope e = write_envelope f \<longleftrightarrow> e = f)"
  using parse_write_envelope envelope_codec.enc_inj by auto

lemma first_envelope_json:
  "json_stringify (first_envelope payload c) = write_envelope
     \<lparr>jenv_payload = json_stringify payload, jenv_attempt = 1, jenv_original = None,
      jenv_context = Some \<lparr>cx_id = ctx_id c, cx_title = ctx_title c, cx_status = ctx_status c\<rparr>,
      jenv_session = None\<rparr>"
  by (simp add: first_envelope_def write_envelope_def envelope_json_def context_json_def)

section \<open>Model rules and secrets\<close>

definition rule_targets :: "match_targets \<Rightarrow> string list" where
  "rule_targets m = (case m of One_target s \<Rightarrow> [s] | Many_targets ss \<Rightarrow> ss)"

fun is_string_in :: "string list \<Rightarrow> jsval \<Rightarrow> bool" where
  "is_string_in ss (Val (JStr s)) = (s \<in> set ss)"
| "is_string_in ss _ = False"

fun resolve_model :: "jsval \<Rightarrow> model_rule list \<Rightarrow> string option" where
  "resolve_model payload [] = None"
| "resolve_model payload (rule # rules) =
     (let v = resolve_field_path payload (mr_field rule) in
      if v = Undef then resolve_model payload rules
      else let values = (if is_array v then array_elements v else [v]) in
           if list_ex (is_string_in (rule_targets (mr_matches rule))) values
           then Some (mr_model rule)
           else resolve_model payload rules)"

definition env_var_char :: "char \<Rightarrow> char" where
  "env_var_char c = (if c = CHR ''-'' \<or> c = CHR ''.'' then CHR ''_'' else c)"

definition build_env_var_name_for_secret :: "string \<Rightarrow> string" where
  "build_env_var_name_for_secret key = map upper_char (map env_var_char key)"

text \<open>The overlay is filled key by key; a failed lookup throws out of the loop.\<close>

fun fill_overlay :: "(string \<Rightarrow> string option) \<Rightarrow> string list \<Rightarrow> (string, string) jsmap \<Rightarrow>
    string + (string, string) jsmap" where
  "fill_overlay get [] overlay = Inr overlay"
| "fill_overlay get (key # keys) overlay =
     (case get key of
        None \<Rightarrow> Inl key
      | Some secret \<Rightarrow>
          fill_overlay get keys (AList.update (build_env_var_name_for_secret key) secret overlay))"

definition resolve_env_secrets :: "(string \<Rightarrow> string option) \<Rightarrow> string list option \<Rightarrow>
    string + (string, string) jsmap option" where
  "resolve_env_secrets get env_secrets =
     (case env_secrets of
        None \<Rightarrow> Inr None
      | Some [] \<Rightarrow> Inr None
      | Some keys \<Rightarrow> (case fill_overlay get keys [] of Inl k \<Rightarrow> Inl k | Inr overlay \<Rightarrow> Inr (Some overlay)))"

lemma fill_overlay_char:
  "fill_overlay get keys overlay = Inr result \<longleftrightarrow>
     list_all (\<lambda>k. get k \<noteq> None) keys \<and>
     result = fold (\<lambda>k. AList.update (build_env_var_name_for_secret k) (the (get k))) keys overlay"
  by (induction keys arbitrary: overlay) (auto split: option.splits)

lemma fold_update_lookup:
  "map_of (fold (\<lambda>k. AList.update (f k) (g k)) keys m) v =
     (case filter (\<lambda>k. f k = v) keys of [] \<Rightarrow> map_of m v | ks \<Rightarrow> Some (g (last ks)))"
  by (induction keys arbitrary: m) (auto split: list.splits)

text \<open>Secrets are injected only when every declared key resolves, and an environment
  variable then holds the secret of the last declared key that maps to its name.\<close>

theorem env_secrets_overlay:
  "resolve_env_secrets get (Some keys) = Inr (Some overlay) \<Longrightarrow>
   list_all (\<lambda>k. get k \<noteq> None) keys \<and>
   map_of overlay v =
     (case filter (\<lambda>k. build_env_var_name_for_secret k = v) keys of
        [] \<Rightarrow> None | ks \<Rightarrow> get (last ks))"
proof -
  assume "resolve_env_secrets get (Some keys) = Inr (Some overlay)"
  then have "fill_overlay get keys [] = Inr overlay"
    by (auto simp: resolve_env_secrets_def split: list.splits sum.splits)
  then have all: "list_all (\<lambda>k. get k \<noteq> None) keys"
    and o: "overlay = fold (\<lambda>k. AList.update (build_env_var_name_for_secret k) (the (get k))) keys []"
    by (simp_all add: fill_overlay_char)
  have "get (last ks) \<noteq> None" if "filter (\<lambda>k. build_env_var_name_for_secret k = v) keys = ks" "ks \<noteq> []" for ks
    using all that by (metis (mono_tags, lifting) last_in_set list_all_iff mem_Collect_eq set_filter)
  then show ?thesis
    using all unfolding o fold_update_lookup by (auto split: list.splits)
qed

theorem env_secrets_overlay_witness:
  "list_all (\<lambda>k. (\<lambda>k. Some (k @ ''!'')) k \<noteq> (None :: string option)) [''a-b'', ''a.b''] \<and>
   map_of [(''A_B'', ''a.b!'')] ''A_B'' =
     (case filter (\<lambda>k. build_env_var_name_for_secret k = ''A_B'') [''a-b'', ''a.b''] of
        [] \<Rightarrow> None | ks \<Rightarrow> (\<lambda>k. Some (k @ ''!'')) (last ks))"
  by (rule env_secrets_overlay) code_simp

section \<open>State, world and jobs\<close>

datatype turn_error =
    Payload_not_json
  | Context_threw ingest_error
  | Routing_failed eval_error
  | Agent_not_loaded string
  | Template_unreadable string
  | Render_failed
  | Unknown_runner string
  | Secret_missing string
  | Tools_failed string
  | Runner_threw string
  | Run_failed string
  | Run_timed_out string
  | Requeue_failed

text \<open>\<open>error.message\<close>: the worker's own texts, and those the collaborators threw.\<close>

fun turn_message :: "turn_error \<Rightarrow> string" where
  "turn_message (Run_failed e) = ''Agent run failed: '' @ e"
| "turn_message (Run_timed_out i) = ''Agent run timed out (runId: '' @ i @ '')''"
| "turn_message (Agent_not_loaded a) =
     ''Routing resolved agentId \"'' @ a @ ''\" but that agent is not loaded''"
| "turn_message (Tools_failed e) = e"
| "turn_message (Runner_threw e) = e"
| "turn_message (Unknown_runner r) = ''Unknown runner: '' @ r"
| "turn_message (Secret_missing k) = ''Secret not found: '' @ k"
| "turn_message (Template_unreadable t) = ''Cannot read template '' @ t"
| "turn_message (Context_threw e) = ''Context extraction failed''"
| "turn_message (Routing_failed e) = ''Condition evaluation failed''"
| "turn_message Payload_not_json = ''Payload is not JSON''"
| "turn_message Render_failed = ''Template rendering failed''"
| "turn_message Requeue_failed = ''queue.add failed''"

datatype run_status = Run_ok | Run_error | Run_timeout | Run_quota_exceeded

record run_result =
  rr_status :: run_status
  rr_run_id :: "string option"
  rr_error :: "string option"
  rr_quota_reset :: "millis option"
  rr_session :: "string option"

record run_options =
  ro_prompt :: string
  ro_session_key :: string
  ro_agent :: string
  ro_model :: "string option"
  ro_trace :: string
  ro_job :: string
  ro_env :: "(string, string) jsmap option"
  ro_system_prompt :: "string option"
  ro_resume :: "string option"
  ro_max_turns :: "nat option"

text \<open>\<open>runner.run(options)\<close>, or \<open>runner.runSession\<close> with the provider, key, first prompt,
  message, agent, model, trace, job and environment it is given.\<close>

datatype dispatch =
    Run_plain run_options
  | Run_session string string string string string "string option" string string
      "(string, string) jsmap option"

record world =
  wo_rx :: regex_engine
  wo_now :: millis
  wo_ended :: millis
  wo_read :: "string \<Rightarrow> string option"
  wo_render :: "string \<Rightarrow> json \<Rightarrow> agent_rule \<Rightarrow> (string \<times> string) option"
  wo_search :: "string \<Rightarrow> string \<Rightarrow> string list option"
  wo_recall :: "string list \<Rightarrow> string"
  wo_storage :: "string \<Rightarrow> string \<Rightarrow> string"
  wo_secret :: "string \<Rightarrow> string option"
  wo_runner_known :: "string \<Rightarrow> bool"
  wo_run_session :: "string \<Rightarrow> bool"
  wo_bundle_error :: "string option"
  wo_run :: "dispatch \<Rightarrow> string + run_result"
  wo_added :: "string option option"
  wo_inflight_agent :: "string option"

record job =
  jb_id :: "string option"
  jb_data :: string

record added_job =
  ad_data :: string
  ad_delay :: millis

record alert =
  al_job :: string
  al_session :: string
  al_agent :: string
  al_error :: string
  al_attempts :: int
  al_max :: int

record worker_state =
  ws_added :: "added_job list"
  ws_events :: "clawndom_event list"
  ws_active :: active_registry
  ws_alerts :: "alert list"

definition emit :: "clawndom_event \<Rightarrow> worker_state \<Rightarrow> worker_state" where
  "emit e s = s\<lparr>ws_events := ws_events s @ [e], ws_active := active_handle e (ws_active s)\<rparr>"

definition add_job :: "string \<Rightarrow> millis \<Rightarrow> worker_state \<Rightarrow> worker_state" where
  "add_job data delay s = s\<lparr>ws_added := ws_added s @ [\<lparr>ad_data = data, ad_delay = delay\<rparr>]\<rparr>"

text \<open>\<open>String(job.id ?? 'unknown')\<close>.\<close>

definition id_text :: "string option \<Rightarrow> string" where
  "id_text i = (case i of Some s \<Rightarrow> s | None \<Rightarrow> ''unknown'')"

definition trace_of_job :: "job_envelope \<Rightarrow> job \<Rightarrow> string" where
  "trace_of_job e j = (case jenv_original e of Some t \<Rightarrow> t | None \<Rightarrow> id_text (jb_id j))"

section \<open>Prompts and dispatch\<close>

definition wrap_with_memory_fragments ::
  "world \<Rightarrow> string \<Rightarrow> string option \<Rightarrow> string list option \<Rightarrow> string \<Rightarrow> string" where
  "wrap_with_memory_fragments w body namespace memories trace =
     (case namespace of
        None \<Rightarrow> body
      | Some ns \<Rightarrow> body @ newline @ wo_recall w (case memories of Some ms \<Rightarrow> ms | None \<Rightarrow> [])
                  @ newline @ wo_storage w ns trace)"

definition wrap_per_turn_user_message_with_memory ::
  "world \<Rightarrow> string \<Rightarrow> string option \<Rightarrow> string list option \<Rightarrow> string" where
  "wrap_per_turn_user_message_with_memory w message namespace memories =
     (case namespace of
        None \<Rightarrow> message
      | Some ns \<Rightarrow> message @ newline @ wo_recall w (case memories of Some ms \<Rightarrow> ms | None \<Rightarrow> []))"

definition fetch_memories_for_rule :: "world \<Rightarrow> agent_rule \<Rightarrow> json \<Rightarrow> string list option" where
  "fetch_memories_for_rule w rule payload =
     (case rule_memory rule of
        Some (ns, Some query_field) \<Rightarrow>
          (case get_optional_string_field (Val payload) query_field of
             None \<Rightarrow> None
           | Some query \<Rightarrow> wo_search w ns query)
      | _ \<Rightarrow> None)"

definition build_session_dispatch :: "json \<Rightarrow> agent_rule \<Rightarrow> string option" where
  "build_session_dispatch payload rule =
     (case rule_session rule of
        None \<Rightarrow> None
      | Some name \<Rightarrow>
          (case get_session_key_strategy name of
             None \<Rightarrow> None
           | Some extract \<Rightarrow> extract (Val payload)))"

definition dispatch_to_runner :: "world \<Rightarrow> string \<Rightarrow> string \<Rightarrow> run_options \<Rightarrow> string option \<Rightarrow> string \<Rightarrow>
    dispatch" where
  "dispatch_to_runner w runner provider options session_key user_message =
     (case session_key of
        None \<Rightarrow> Run_plain options
      | Some key \<Rightarrow>
          if \<not> wo_run_session w runner then Run_plain options
          else Run_session provider key (ro_prompt options) user_message (ro_agent options)
                 (ro_model options) (ro_trace options) (ro_job options) (ro_env options))"

definition extract_reply_context :: "json \<Rightarrow> json option" where
  "extract_reply_context payload =
     (case payload of
        JObj ps \<Rightarrow> map_of ps ''replyContext''
      | _ \<Rightarrow> None)"

section \<open>Quota pauses\<close>

definition quota_resume_floor_ms :: millis where "quota_resume_floor_ms = 5000"

definition paused_envelope :: "job_envelope \<Rightarrow> string \<Rightarrow> string option \<Rightarrow> job_envelope" where
  "paused_envelope e job_id session =
     \<lparr>jenv_payload = jenv_payload e, jenv_attempt = 1,
      jenv_original = Some (case jenv_original e of Some i \<Rightarrow> i | None \<Rightarrow> job_id),
      jenv_context = jenv_context e,
      jenv_session = (case session of Some i \<Rightarrow> Some i | None \<Rightarrow> jenv_session e)\<rparr>"

definition handle_quota_exceeded :: "world \<Rightarrow> string \<Rightarrow> job_envelope \<Rightarrow> string \<Rightarrow> string \<Rightarrow>
    run_result \<Rightarrow> worker_state \<Rightarrow> (turn_error + unit) \<times> worker_state" where
  "handle_quota_exceeded w provider e trace job_id result s =
     (let now = wo_ended w;
          reset_at = (case rr_quota_reset result of Some t \<Rightarrow> t | None \<Rightarrow> now + quota_resume_floor_ms);
          delay = max quota_resume_floor_ms (reset_at - now);
          requeue = paused_envelope e job_id (rr_session result)
      in case wo_added w of
           None \<Rightarrow> (Inl Requeue_failed, s)
         | Some new_id \<Rightarrow>
             (Inr (),
              emit (Job (Job_paused now trace (id_text new_id) provider (nat (jenv_attempt requeue))
                     (case jenv_original e of Some i \<Rightarrow> i | None \<Rightarrow> job_id) reset_at))
                (add_job (write_envelope requeue) delay s)))"

section \<open>One turn of the worker\<close>

record turn =
  tn_envelope :: job_envelope
  tn_payload :: json
  tn_route :: resolved_route
  tn_model :: "string option"
  tn_memories :: "string list option"
  tn_prompt :: string
  tn_system :: string
  tn_env :: "(string, string) jsmap option"
  tn_runner :: string
  tn_trace :: string
  tn_job :: string

definition rule_namespace :: "agent_rule \<Rightarrow> string option" where
  "rule_namespace rule = map_option fst (rule_memory rule)"

text \<open>The prompt: the rendered template with its memory blocks and the system part, or the raw
  payload when the rule has no template.\<close>

definition build_prompt :: "world \<Rightarrow> job_envelope \<Rightarrow> json \<Rightarrow> resolved_route \<Rightarrow> string list option \<Rightarrow>
    string \<Rightarrow> turn_error + (string \<times> string)" where
  "build_prompt w e payload route memories trace =
     (case route_template route of
        Some (c # path) \<Rightarrow>
          (case wo_read w (route_dir route @ ''/'' @ c # path) of
             None \<Rightarrow> Inl (Template_unreadable (c # path))
           | Some template \<Rightarrow>
               (case wo_render w template payload (route_rule route) of
                  None \<Rightarrow> Inl Render_failed
                | Some (system, body) \<Rightarrow>
                    Inr (wrap_with_memory_fragments w body (rule_namespace (route_rule route))
                           memories trace, system)))
      | _ \<Rightarrow> Inr (jenv_payload e, []))"

text \<open>Everything up to the first event: parsing, routing, the model, the prompt, the runner and
  the environment. \<open>Inr None\<close> is the early return without a route.\<close>

definition select_model :: "provider \<Rightarrow> json \<Rightarrow> agent \<Rightarrow> string option" where
  "select_model p payload a =
     (case map_of (agent_model_rules a) (provider_name p) of
        None \<Rightarrow> None | Some rules \<Rightarrow> resolve_model (Val payload) rules)"

definition prepare_turn :: "world \<Rightarrow> provider \<Rightarrow> agent list \<Rightarrow> job \<Rightarrow> turn_error + turn option" where
  "prepare_turn w p agents j =
     (let e = parse_envelope (jb_data j); trace = trace_of_job e j in
      case json_parse (jenv_payload e) of
        None \<Rightarrow> Inl Payload_not_json
      | Some payload \<Rightarrow>
      (case extract_webhook_context p (Val payload) of
        Inl x \<Rightarrow> Inl (Context_threw x)
      | Inr _ \<Rightarrow>
      (case resolve_agent_from_agents (wo_rx w) (Val payload) (provider_name p) agents of
        Inl x \<Rightarrow> Inl (Routing_failed x)
      | Inr None \<Rightarrow> Inr None
      | Inr (Some route) \<Rightarrow>
      (case find (\<lambda>a. agent_name a = route_agent route) agents of
        None \<Rightarrow> Inl (Agent_not_loaded (route_agent route))
      | Some a \<Rightarrow>
          (let memories = fetch_memories_for_rule w (route_rule route) payload;
               runner = (case provider_runner p of Some r \<Rightarrow> r | None \<Rightarrow> ''openclaw'') in
           case build_prompt w e payload route memories trace of
             Inl x \<Rightarrow> Inl x
           | Inr (prompt, system) \<Rightarrow>
               if \<not> wo_runner_known w runner then Inl (Unknown_runner runner)
               else (case resolve_env_secrets (wo_secret w) (provider_env_secrets p) of
                       Inl k \<Rightarrow> Inl (Secret_missing k)
                     | Inr env \<Rightarrow>
                         Inr (Some \<lparr>tn_envelope = e, tn_payload = payload, tn_route = route,
                           tn_model = select_model p payload a, tn_memories = memories,
                           tn_prompt = prompt, tn_system = system, tn_env = env,
                           tn_runner = runner, tn_trace = trace,
                           tn_job = id_text (jb_id j)\<rparr>)))))))"

text \<open>The recovery announcement, when the envelope knows its context and the registry does not,
  and \<open>job.started\<close>.\<close>

definition announce_turn :: "world \<Rightarrow> provider \<Rightarrow> turn \<Rightarrow> worker_state \<Rightarrow> worker_state" where
  "announce_turn w p t s =
     (let s1 = (case jenv_context (tn_envelope t) of
            Some c \<Rightarrow>
              if \<not> has_pending_context (ws_active s) (tn_trace t)
              then emit (Webhook (Webhook_accepted (wo_now w) (tn_trace t) (provider_name p)
                     (cx_id c) (cx_title c) (cx_status c))) s
              else s
          | None \<Rightarrow> s)
      in emit (Job (Job_started (wo_now w) (tn_trace t) (tn_job t) (provider_name p)
             (route_agent (tn_route t)) (route_template (tn_route t)) (tn_runner t) (tn_model t))) s1)"

definition turn_session_key :: "provider \<Rightarrow> turn \<Rightarrow> string" where
  "turn_session_key p t =
     ''agent:'' @ route_agent (tn_route t) @ '':hook-'' @ provider_name p @ ''-'' @ tn_trace t"

definition turn_options :: "provider \<Rightarrow> turn \<Rightarrow> run_options" where
  "turn_options p t =
     \<lparr>ro_prompt = tn_prompt t, ro_session_key = turn_session_key p t,
      ro_agent = route_agent (tn_route t), ro_model = tn_model t, ro_trace = tn_trace t,
      ro_job = tn_job t, ro_env = tn_env t,
      ro_system_prompt = (if length (tn_system t) > 0 then Some (tn_system t) else None),
      ro_resume = jenv_session (tn_envelope t),
      ro_max_turns = rule_max_turns (route_rule (tn_route t))\<rparr>"

definition turn_dispatch :: "world \<Rightarrow> provider \<Rightarrow> turn \<Rightarrow> dispatch" where
  "turn_dispatch w p t =
     dispatch_to_runner w (tn_runner t) (provider_name p) (turn_options p t)
       (build_session_dispatch (tn_payload t) (route_rule (tn_route t)))
       (wrap_per_turn_user_message_with_memory w (jenv_payload (tn_envelope t))
          (rule_namespace (route_rule (tn_route t))) (tn_memories t))"

definition finish_turn :: "world \<Rightarrow> provider \<Rightarrow> turn \<Rightarrow> run_result \<Rightarrow> worker_state \<Rightarrow>
    (turn_error + unit) \<times> worker_state" where
  "finish_turn w p t result s =
     (case rr_status result of
        Run_quota_exceeded \<Rightarrow>
          handle_quota_exceeded w (provider_name p) (tn_envelope t) (tn_trace t) (tn_job t) result s
      | Run_error \<Rightarrow>
          (Inl (Run_failed (case rr_error result of Some e \<Rightarrow> e | None \<Rightarrow> ''unknown error'')), s)
      | Run_timeout \<Rightarrow>
          (Inl (Run_timed_out (case rr_run_id result of Some i \<Rightarrow> i | None \<Rightarrow> ''undefined'')), s)
      | Run_ok \<Rightarrow>
          (Inr (), emit (Job (Job_completed (wo_ended w) (tn_trace t) (tn_job t) (provider_name p)
             (wo_ended w - wo_now w) (id_text (rr_run_id result)))) s))"

definition process_job :: "world \<Rightarrow> provider \<Rightarrow> agent list \<Rightarrow> job \<Rightarrow> worker_state \<Rightarrow>
    (turn_error + unit) \<times> worker_state" where
  "process_job w p agents j s =
     (case prepare_turn w p agents j of
        Inl x \<Rightarrow> (Inl x, s)
      | Inr None \<Rightarrow> (Inr (), s)
      | Inr (Some t) \<Rightarrow>
          (let s1 = announce_turn w p t s in
           case wo_bundle_error w of
             Some x \<Rightarrow> (Inl (Tools_failed x), s1)
           | None \<Rightarrow>
               (case wo_run w (turn_dispatch w p t) of
                  Inl x \<Rightarrow> (Inl (Runner_threw x), s1)
                | Inr result \<Rightarrow> finish_turn w p t result s1)))"

section \<open>The failed handler\<close>

definition compute_requeue_delay_ms :: "int \<Rightarrow> millis" where
  "compute_requeue_delay_ms attempt = min (5000 * 2 ^ nat (attempt - 1)) 60000"

definition final_alert :: "world \<Rightarrow> provider \<Rightarrow> string \<Rightarrow> job_envelope \<Rightarrow> string \<Rightarrow> int \<Rightarrow> alert" where
  "final_alert w p trace e message max_attempts =
     (let agent = id_text (wo_inflight_agent w) in
      \<lparr>al_job = trace,
       al_session = ''agent:'' @ agent @ '':hook-'' @ provider_name p @ ''-'' @ trace,
       al_agent = agent, al_error = message, al_attempts = jenv_attempt e,
       al_max = max_attempts\<rparr>)"

definition retry_envelope :: "job_envelope \<Rightarrow> job \<Rightarrow> job_envelope" where
  "retry_envelope e j =
     \<lparr>jenv_payload = jenv_payload e, jenv_attempt = jenv_attempt e + 1,
      jenv_original = (case jenv_original e of Some i \<Rightarrow> Some i | None \<Rightarrow> jb_id j),
      jenv_context = jenv_context e, jenv_session = None\<rparr>"

text \<open>A failing \<open>add\<close> makes the handler reject, which its caller logs: no event follows.\<close>

definition requeue_job_to_back :: "world \<Rightarrow> provider \<Rightarrow> job \<Rightarrow> job_envelope \<Rightarrow> string \<Rightarrow>
    worker_state \<Rightarrow> worker_state" where
  "requeue_job_to_back w p j e trace s =
     (let r = retry_envelope e j in
      case wo_added w of
        None \<Rightarrow> s
      | Some new_id \<Rightarrow>
          emit (Job (Job_retried (wo_ended w) trace (id_text new_id) (provider_name p)
                 (nat (jenv_attempt r)) (id_text (jenv_original r))))
            (add_job (write_envelope r) (compute_requeue_delay_ms (jenv_attempt e)) s))"

definition handle_failure :: "world \<Rightarrow> provider \<Rightarrow> bool \<Rightarrow> int \<Rightarrow> job \<Rightarrow> string \<Rightarrow> worker_state \<Rightarrow>
    worker_state" where
  "handle_failure w p alerting max_attempts j message s =
     (let e = parse_envelope (jb_data j);
          final = (jenv_attempt e \<ge> max_attempts);
          trace = trace_of_job e j;
          s1 = emit (Job (Job_failed (wo_ended w) trace (id_text (jb_id j)) (provider_name p) message
                 (nat (jenv_attempt e)) final)) s
      in if final
         then (if alerting
               then s1\<lparr>ws_alerts := ws_alerts s1 @ [final_alert w p trace e message max_attempts]\<rparr>
               else s1)
         else requeue_job_to_back w p j e trace s1)"

text \<open>What BullMQ does with one job: run the processor, and the failed handler when it throws.\<close>

definition work_job :: "world \<Rightarrow> provider \<Rightarrow> agent list \<Rightarrow> bool \<Rightarrow> int \<Rightarrow> job \<Rightarrow> worker_state \<Rightarrow>
    worker_state" where
  "work_job w p agents alerting max_attempts j s =
     (case process_job w p agents j s of
        (Inr _, s') \<Rightarrow> s'
      | (Inl x, s') \<Rightarrow> handle_failure w p alerting max_attempts j (turn_message x) s')"

section \<open>What a turn leaves behind\<close>

lemma emit_frame [simp]:
  "ws_events (emit e s) = ws_events s @ [e]" "ws_added (emit e s) = ws_added s"
  "ws_alerts (emit e s) = ws_alerts s" "ws_active (emit e s) = active_handle e (ws_active s)"
  by (simp_all add: emit_def)

lemma add_job_frame [simp]:
  "ws_events (add_job d n s) = ws_events s" "ws_alerts (add_job d n s) = ws_alerts s"
  "ws_active (add_job d n s) = ws_active s"
  "ws_added (add_job d n s) = ws_added s @ [\<lparr>ad_data = d, ad_delay = n\<rparr>]"
  by (simp_all add: add_job_def)

lemma announce_frame [simp]:
  "ws_added (announce_turn w p t s) = ws_added s" "ws_alerts (announce_turn w p t s) = ws_alerts s"
  by (simp_all add: announce_turn_def Let_def split: option.split)

lemma matched_agent_loaded:
  "resolve_agent_from_agents rx payload provider agents = Inr (Some route) \<Longrightarrow>
   \<exists>a \<in> set agents. agent_name a = route_agent route"
proof (induction rx payload provider agents rule: resolve_agent_from_agents.induct)
  case (2 rx p provider a as)
  have "match_rules rx p a rules = Inr (Some route) \<Longrightarrow> agent_name a = route_agent route" for rules
    by (induction rx p a rules rule: match_rules.induct) (auto split: option.splits sum.splits if_splits)
  with 2 show ?case by (auto split: option.splits sum.splits)
qed simp

lemma build_prompt_error [simp]: "build_prompt w e payload route m t \<noteq> Inl (Agent_not_loaded x)"
  by (auto simp: build_prompt_def split: option.splits list.splits)

lemma prepare_turn_agent_loaded: "prepare_turn w p agents j \<noteq> Inl (Agent_not_loaded x)"
proof -
  have "find (\<lambda>a. agent_name a = route_agent route) agents \<noteq> None"
    if "resolve_agent_from_agents (wo_rx w) (Val payload) (provider_name p) agents = Inr (Some route)"
    for payload route
    using matched_agent_loaded[OF that] by (auto simp: find_None_iff)
  moreover have "\<exists>payload route. resolve_agent_from_agents (wo_rx w) (Val payload) (provider_name p) agents
      = Inr (Some route) \<and> find (\<lambda>a. agent_name a = route_agent route) agents = None"
    if "prepare_turn w p agents j = Inl (Agent_not_loaded x)"
    using that
    by (auto simp: prepare_turn_def Let_def split: option.splits sum.splits prod.splits if_splits)
  ultimately show ?thesis by blast
qed

text \<open>C3: The worker agrees with the ingest check. For a job the pipeline enqueued, the worker
  reads the very payload that was routed, finds a route in it, and finds the matched agent
  loaded; it neither drops the job nor fails to route it.\<close>

theorem ingested_job_routes:
  assumes "ingest_event env r s = (Inr (Enqueued t), s')" and "wf_json (rq_payload r)"
    and "wo_rx w = env_rx env"
  shows "\<exists>queue data. st_jobs s' = st_jobs s @ [(queue, data)] \<and>
    json_parse (jenv_payload (parse_envelope data)) = Some (rq_payload r) \<and>
    jenv_attempt (parse_envelope data) = 1 \<and>
    prepare_turn w (rq_provider r) (rq_agents r) \<lparr>jb_id = i, jb_data = data\<rparr>
      \<notin> {Inr None} \<union> Inl ` (range Routing_failed \<union> range Context_threw \<union> range Agent_not_loaded)"
proof -
  obtain c queue route where c: "extract_webhook_context (rq_provider r) (Val (rq_payload r)) = Inr c"
    and jobs: "st_jobs s' = st_jobs s @ [(queue, json_stringify (first_envelope (rq_payload r) c))]"
    and route: "resolve_agent_from_agents (env_rx env) (Val (rq_payload r))
      (provider_name (rq_provider r)) (rq_agents r) = Inr (Some route)"
    using assms(1)
    by (auto simp: ingest_event_def enqueue_event_def Let_def
        split: sum.splits option.splits prod.splits if_splits)
  let ?data = "json_stringify (first_envelope (rq_payload r) c)"
  have payload: "jenv_payload (parse_envelope ?data) = json_stringify (rq_payload r)"
    and attempt: "jenv_attempt (parse_envelope ?data) = 1"
    unfolding first_envelope_json parse_write_envelope by simp_all
  have parsed: "json_parse (jenv_payload (parse_envelope ?data)) = Some (rq_payload r)"
    using json_parse_stringify[OF assms(2)] payload by simp
  have "prepare_turn w (rq_provider r) (rq_agents r) \<lparr>jb_id = i, jb_data = ?data\<rparr> \<noteq> Inr None"
    and "prepare_turn w (rq_provider r) (rq_agents r) \<lparr>jb_id = i, jb_data = ?data\<rparr> \<noteq> Inl (Routing_failed x)"
    and "prepare_turn w (rq_provider r) (rq_agents r) \<lparr>jb_id = i, jb_data = ?data\<rparr> \<noteq> Inl (Context_threw y)"
    for x y
    using parsed c route assms(3)
    by (auto simp: prepare_turn_def Let_def build_prompt_def
        split: option.splits sum.splits prod.splits list.splits)
  then show ?thesis
    using jobs parsed attempt prepare_turn_agent_loaded[of w "rq_provider r" "rq_agents r"] by auto
qed

definition sample_world :: world where
  "sample_world = \<lparr>wo_rx = (\<lambda>_ _. None), wo_now = 1000, wo_ended = 9000, wo_read = (\<lambda>_. None),
     wo_render = (\<lambda>_ _ _. None), wo_search = (\<lambda>_ _. None), wo_recall = (\<lambda>_. []),
     wo_storage = (\<lambda>_ _. []), wo_secret = (\<lambda>_. None), wo_runner_known = (\<lambda>_. True),
     wo_run_session = (\<lambda>_. False), wo_bundle_error = None,
     wo_run = (\<lambda>_. Inr \<lparr>rr_status = Run_quota_exceeded, rr_run_id = None, rr_error = None,
        rr_quota_reset = Some 60000, rr_session = Some ''sid''\<rparr>),
     wo_added = Some (Some ''8''), wo_inflight_agent = None\<rparr>"

lemma sample_ingested:
  "ingest_event sample_env (sample_request 0 (Some (Some ''7''))) sample_state
     = (Inr (Enqueued ''7''),
        snd (ingest_event sample_env (sample_request 0 (Some (Some ''7''))) sample_state))"
  using sample_first by (metis prod.collapse)

theorem ingested_job_routes_witness:
  "\<exists>queue data. st_jobs (snd (ingest_event sample_env (sample_request 0 (Some (Some ''7''))) sample_state))
      = st_jobs sample_state @ [(queue, data)] \<and>
    json_parse (jenv_payload (parse_envelope data)) = Some (rq_payload (sample_request 0 (Some (Some ''7'')))) \<and>
    jenv_attempt (parse_envelope data) = 1 \<and>
    prepare_turn sample_world (rq_provider (sample_request 0 (Some (Some ''7''))))
      (rq_agents (sample_request 0 (Some (Some ''7'')))) \<lparr>jb_id = Some ''7'', jb_data = data\<rparr>
      \<notin> {Inr None} \<union> Inl ` (range Routing_failed \<union> range Context_threw \<union> range Agent_not_loaded)"
  by (rule ingested_job_routes[OF sample_ingested])
    (simp_all add: sample_request_def sample_world_def sample_env_def)

section \<open>The event log of a turn\<close>

text \<open>How the events of one turn of job \<open>j\<close> on trace \<open>t\<close> can end.\<close>

fun closes_turn :: "trace_id \<Rightarrow> job_id \<Rightarrow> clawndom_event list \<Rightarrow> bool" where
  "closes_turn t j [Job (Job_completed _ t' j' _ _ _)] \<longleftrightarrow> t' = t \<and> j' = j"
| "closes_turn t j [Job (Job_paused _ t' _ _ n _ _)] \<longleftrightarrow> t' = t \<and> n = 1"
| "closes_turn t j [Job (Job_failed _ t' j' _ _ _ _)] \<longleftrightarrow> t' = t \<and> j' = j"
| "closes_turn t j [Job (Job_failed _ t' j' _ _ n final), Job (Job_retried _ t'' _ _ _ _)] \<longleftrightarrow>
     t' = t \<and> t'' = t \<and> j' = j \<and> \<not> final"
| "closes_turn t j _ \<longleftrightarrow> False"

fun opens_turn :: "trace_id \<Rightarrow> job_id \<Rightarrow> clawndom_event list \<Rightarrow> bool" where
  "opens_turn t j [Job (Job_started _ t' j' _ _ _ _ _)] \<longleftrightarrow> t' = t \<and> j' = j"
| "opens_turn t j [Webhook (Webhook_accepted _ t'' _ _ _ _), Job (Job_started _ t' j' _ _ _ _ _)] \<longleftrightarrow>
     t'' = t \<and> t' = t \<and> j' = j"
| "opens_turn t j _ \<longleftrightarrow> False"

fun is_failed :: "clawndom_event \<Rightarrow> bool" where
  "is_failed (Job (Job_failed _ _ _ _ _ _ _)) = True"
| "is_failed _ = False"

definition turn_log :: "trace_id \<Rightarrow> job_id \<Rightarrow> clawndom_event list \<Rightarrow> bool" where
  "turn_log t j es \<longleftrightarrow>
     es = [] \<or> (\<exists>op cl. es = op @ cl \<and> closes_turn t j cl \<and>
       (if op = [] then is_failed (hd cl) else opens_turn t j op))"

lemma prepared_turn_names:
  assumes "prepare_turn w p agents j = Inr (Some t)"
  shows "tn_envelope t = parse_envelope (jb_data j)" "tn_job t = id_text (jb_id j)"
    "tn_trace t = trace_of_job (parse_envelope (jb_data j)) j"
  using assms
  by (auto simp: prepare_turn_def Let_def split: option.splits sum.splits prod.splits if_splits)

lemma announce_opens:
  obtains op where "ws_events (announce_turn w p t s) = ws_events s @ op"
    "opens_turn (tn_trace t) (tn_job t) op"
proof -
  have "\<exists>op. ws_events (announce_turn w p t s) = ws_events s @ op \<and> opens_turn (tn_trace t) (tn_job t) op"
    by (auto simp: announce_turn_def Let_def split: option.splits)
  then show ?thesis using that by blast
qed

lemma handle_failure_closes:
  obtains cl where "ws_events (handle_failure w p al m j msg s) = ws_events s @ cl"
    "closes_turn (trace_of_job (parse_envelope (jb_data j)) j) (id_text (jb_id j)) cl" "is_failed (hd cl)"
proof -
  have "\<exists>cl. ws_events (handle_failure w p al m j msg s) = ws_events s @ cl \<and>
    closes_turn (trace_of_job (parse_envelope (jb_data j)) j) (id_text (jb_id j)) cl \<and> is_failed (hd cl)"
    by (auto simp: handle_failure_def requeue_job_to_back_def Let_def split: option.splits)
  then show ?thesis using that by blast
qed

lemma finish_turn_log:
  "finish_turn w p t r s = (Inr (), s') \<Longrightarrow>
   \<exists>cl. ws_events s' = ws_events s @ cl \<and> closes_turn (tn_trace t) (tn_job t) cl"
  "finish_turn w p t r s = (Inl x, s') \<Longrightarrow> s' = s"
  by (auto simp: finish_turn_def handle_quota_exceeded_def paused_envelope_def Let_def
      split: run_status.splits option.splits)

lemma process_job_log:
  assumes "process_job w p agents j s = (r, s')"
    and "t = trace_of_job (parse_envelope (jb_data j)) j" and "i = id_text (jb_id j)"
  shows "case r of
      Inr _ \<Rightarrow> ws_events s' = ws_events s \<or>
        (\<exists>op cl. ws_events s' = ws_events s @ op @ cl \<and> opens_turn t i op \<and> closes_turn t i cl)
    | Inl _ \<Rightarrow> ws_events s' = ws_events s \<or> (\<exists>op. ws_events s' = ws_events s @ op \<and> opens_turn t i op)"
proof (cases "prepare_turn w p agents j")
  case (Inl x)
  then show ?thesis using assms(1) by (auto simp: process_job_def)
next
  case (Inr prep)
  show ?thesis
  proof (cases prep)
    case None
    then show ?thesis using assms(1) Inr by (auto simp: process_job_def)
  next
    case (Some tn)
    then have names: "tn_trace tn = t" "tn_job tn = i"
      using prepared_turn_names[of w p agents j tn] Inr assms(2,3) by simp_all
    obtain op where op: "ws_events (announce_turn w p tn s) = ws_events s @ op" "opens_turn t i op"
      using announce_opens[of w p tn s] names by metis
    show ?thesis
    proof (cases "\<exists>res. wo_bundle_error w = None \<and> wo_run w (turn_dispatch w p tn) = Inr res")
      case True
      then obtain res where "finish_turn w p tn res (announce_turn w p tn s) = (r, s')"
        using assms(1) Inr Some by (auto simp: process_job_def Let_def)
      then show ?thesis
        using op names finish_turn_log[of w p tn res "announce_turn w p tn s"]
        by (cases r) fastforce+
    next
      case False
      then show ?thesis
        using assms(1) Inr Some op by (auto simp: process_job_def Let_def split: option.splits sum.splits)
    qed
  qed
qed

lemma opens_turn_not_Nil: "opens_turn t j op \<Longrightarrow> op \<noteq> []"
  by auto

text \<open>Every turn of a job logs one of four stories and nothing else: silence (no route);
  an early failure; a start that completes or pauses; or a start that fails, with a retry
  announced unless the failure was final. Each event carries the job's own id and the trace of
  its first generation.\<close>

theorem work_job_log:
  "\<exists>es. ws_events (work_job w p agents alerting m j s) = ws_events s @ es \<and>
     turn_log (trace_of_job (parse_envelope (jb_data j)) j) (id_text (jb_id j)) es"
proof -
  let ?t = "trace_of_job (parse_envelope (jb_data j)) j" and ?i = "id_text (jb_id j)"
  obtain r s' where run: "process_job w p agents j s = (r, s')" by force
  show ?thesis
  proof (cases r)
    case (Inl x)
    obtain cl where cl: "ws_events (work_job w p agents alerting m j s) = ws_events s' @ cl"
        "closes_turn ?t ?i cl" "is_failed (hd cl)"
      using handle_failure_closes[of w p alerting m j "turn_message x" s'] run Inl
      by (auto simp: work_job_def)
    consider "ws_events s' = ws_events s"
      | op where "ws_events s' = ws_events s @ op" "opens_turn ?t ?i op"
      using process_job_log[OF run refl refl] Inl by auto
    then show ?thesis
    proof cases
      case 1
      have "turn_log ?t ?i cl"
        unfolding turn_log_def using cl by (metis append_Nil)
      then show ?thesis using cl 1 by simp
    next
      case (2 op)
      have "turn_log ?t ?i (op @ cl)"
        unfolding turn_log_def using 2 cl opens_turn_not_Nil by metis
      then show ?thesis using cl 2 by simp
    qed
  next
    case (Inr u)
    then have w: "work_job w p agents alerting m j s = s'" using run by (simp add: work_job_def)
    consider "ws_events s' = ws_events s"
      | op cl where "ws_events s' = ws_events s @ op @ cl" "opens_turn ?t ?i op" "closes_turn ?t ?i cl"
      using process_job_log[OF run refl refl] Inr by auto
    then show ?thesis
    proof cases
      case 1
      then show ?thesis using w by (simp add: turn_log_def)
    next
      case (2 op cl)
      have "turn_log ?t ?i (op @ cl)"
        unfolding turn_log_def using 2 opens_turn_not_Nil by metis
      then show ?thesis using w 2 by metis
    qed
  qed
qed

section \<open>Retries\<close>

text \<open>A job that keeps failing: each failure is handled, and the job it re-adds, under the id
  \<open>queue.add\<close> gave it, fails next. The flag says that no job was re-added within the fuel.\<close>

fun keeps_failing :: "nat \<Rightarrow> world \<Rightarrow> provider \<Rightarrow> int \<Rightarrow> string \<Rightarrow> job \<Rightarrow> worker_state \<Rightarrow>
    bool \<times> worker_state" where
  "keeps_failing 0 w p m msg j s = (False, s)"
| "keeps_failing (Suc n) w p m msg j s =
     (let s' = handle_failure w p True m j msg s in
      if length (ws_added s') = length (ws_added s) then (True, s')
      else keeps_failing n w p m msg
             \<lparr>jb_id = (case wo_added w of Some i \<Rightarrow> i | None \<Rightarrow> None), jb_data = ad_data (last (ws_added s'))\<rparr> s')"

text \<open>The failures logged for a trace: attempt and final flag, in order.\<close>

fun failure_of :: "trace_id \<Rightarrow> clawndom_event \<Rightarrow> (nat \<times> bool) list" where
  "failure_of t (Job (Job_failed _ t' _ _ _ n final)) = (if t' = t then [(n, final)] else [])"
| "failure_of t _ = []"

definition failures :: "trace_id \<Rightarrow> worker_state \<Rightarrow> (nat \<times> bool) list" where
  "failures t s = concat (map (failure_of t) (ws_events s))"

lemma trace_of_retry:
  "jb_id j = Some i \<Longrightarrow> trace_of_job (retry_envelope e j) j' = trace_of_job e j"
  by (auto simp: trace_of_job_def retry_envelope_def id_text_def split: option.splits)

lemma keeps_failing_from:
  assumes "jenv_attempt (parse_envelope (jb_data j)) = int k" and "k \<le> m" and "m - k < n"
    and "jb_id j = Some i" and "wo_added w = Some (Some i')"
    and "trace_of_job (parse_envelope (jb_data j)) j = t"
  shows "case keeps_failing n w p (int m) msg j s of (finished, s') \<Rightarrow>
    finished \<and> failures t s' = failures t s @ map (\<lambda>a. (a, a = m)) [k..<Suc m] \<and>
    map ad_delay (ws_added s') = map ad_delay (ws_added s)
      @ map (\<lambda>a. compute_requeue_delay_ms (int a)) [k..<m] \<and>
    (\<exists>al. ws_alerts s' = ws_alerts s @ [al] \<and> al_attempts al = int m \<and> al_job al = t)"
  using assms
proof (induction n arbitrary: j k s i)
  case (Suc n)
  let ?e = "parse_envelope (jb_data j)"
  show ?case
  proof (cases "k = m")
    case True
    then have upt: "[k..<Suc m] = [m]" "[k..<m] = []" by simp_all
    show ?thesis
      using Suc.prems True
      by (simp add: upt handle_failure_def Let_def failures_def final_alert_def)
  next
    case False
    define s1 where "s1 = handle_failure w p True (int m) j msg s"
    define j1 where "j1 = \<lparr>jb_id = Some i', jb_data = write_envelope (retry_envelope ?e j)\<rparr>"
    have added: "ws_added s1 = ws_added s @ [\<lparr>ad_data = write_envelope (retry_envelope ?e j),
        ad_delay = compute_requeue_delay_ms (int k)\<rparr>]"
      and alerts: "ws_alerts s1 = ws_alerts s"
      and fails: "failures t s1 = failures t s @ [(k, False)]"
      using Suc.prems False
      by (simp_all add: s1_def handle_failure_def requeue_job_to_back_def Let_def failures_def)
    have step: "keeps_failing (Suc n) w p (int m) msg j s = keeps_failing n w p (int m) msg j1 s1"
      using added Suc.prems(5) by (simp add: Let_def s1_def[symmetric] j1_def)
    have parsed: "parse_envelope (jb_data j1) = retry_envelope ?e j"
      by (simp add: j1_def parse_write_envelope)
    have "jenv_attempt (parse_envelope (jb_data j1)) = int (Suc k)"
      unfolding parsed using Suc.prems(1) by (simp add: retry_envelope_def)
    moreover have "trace_of_job (parse_envelope (jb_data j1)) j1 = t"
      unfolding parsed using Suc.prems(6) trace_of_retry[OF Suc.prems(4)] by simp
    ultimately have IH: "case keeps_failing n w p (int m) msg j1 s1 of (finished, s') \<Rightarrow>
      finished \<and> failures t s' = failures t s1 @ map (\<lambda>a. (a, a = m)) [Suc k..<Suc m] \<and>
      map ad_delay (ws_added s') = map ad_delay (ws_added s1)
        @ map (\<lambda>a. compute_requeue_delay_ms (int a)) [Suc k..<m] \<and>
      (\<exists>al. ws_alerts s' = ws_alerts s1 @ [al] \<and> al_attempts al = int m \<and> al_job al = t)"
      using Suc.prems False by (intro Suc.IH[where i = i']) (simp_all add: j1_def)
    have "[k..<Suc m] = k # [Suc k..<Suc m]" "[k..<m] = k # [Suc k..<m]"
      using Suc.prems(2) False by (simp_all add: upt_conv_Cons)
    then show ?thesis
      using IH False unfolding step by (auto simp: added alerts fails split: prod.splits)
  qed
qed simp

text \<open>C5: A job that fails every time is tried exactly \<open>maxAttempts\<close> times and then given up: the
  attempts are numbered from 1, only the last is final, one alert is sent and it names the first
  generation, and retry \<open>a\<close> waits \<open>min (5000 * 2^(a-1)) 60000\<close> milliseconds.\<close>

theorem retries_end:
  assumes "jenv_attempt (parse_envelope (jb_data j)) = 1" and "0 < m"
    and "jb_id j = Some i" and "wo_added w = Some (Some i')"
    and "trace_of_job (parse_envelope (jb_data j)) j = t"
  shows "case keeps_failing m w p (int m) msg j s of (finished, s') \<Rightarrow>
    finished \<and> failures t s' = failures t s @ map (\<lambda>a. (a, a = m)) [1..<Suc m] \<and>
    map ad_delay (ws_added s') = map ad_delay (ws_added s)
      @ map (\<lambda>a. min (5000 * 2 ^ (a - 1)) 60000) [1..<m] \<and>
    (\<exists>al. ws_alerts s' = ws_alerts s @ [al] \<and> al_attempts al = int m \<and> al_job al = t)"
proof -
  have delays: "map (\<lambda>a. compute_requeue_delay_ms (int a)) [1..<m]
      = map (\<lambda>a. min (5000 * 2 ^ (a - 1)) 60000) [1..<m]"
    by (auto simp: compute_requeue_delay_ms_def nat_diff_distrib)
  show ?thesis
    using keeps_failing_from[of j 1 m m i w i' t] assms unfolding delays by simp
qed

definition sample_worker_state :: worker_state where
  "sample_worker_state = \<lparr>ws_added = [], ws_events = [], ws_active = active_start active_empty,
     ws_alerts = []\<rparr>"

definition sample_job :: job where
  "sample_job = \<lparr>jb_id = Some ''7'', jb_data = write_envelope \<lparr>jenv_payload = ''{}'', jenv_attempt = 1,
     jenv_original = None, jenv_context = None, jenv_session = None\<rparr>\<rparr>"

theorem retries_end_witness:
  "case keeps_failing 3 sample_world (rq_provider (sample_request 0 None)) (int 3) ''boom'' sample_job
      sample_worker_state of (finished, s') \<Rightarrow>
    finished \<and> failures ''7'' s' = failures ''7'' sample_worker_state @ map (\<lambda>a. (a, a = 3)) [1..<Suc 3] \<and>
    map ad_delay (ws_added s') = map ad_delay (ws_added sample_worker_state)
      @ map (\<lambda>a. min (5000 * 2 ^ (a - 1)) 60000) [1..<3] \<and>
    (\<exists>al. ws_alerts s' = ws_alerts sample_worker_state @ [al] \<and> al_attempts al = int 3 \<and> al_job al = ''7'')"
  by (rule retries_end[of sample_job 3 "''7''" sample_world "''8''"])
    (simp_all add: sample_job_def sample_world_def parse_write_envelope trace_of_job_def id_text_def)

section \<open>Quota pauses, dispatch and conservation\<close>

text \<open>C6: A quota pause never resumes early: the delay is at least the five second floor and
  reaches the announced reset time, the retry budget is restored, and the paused job keeps its
  payload, its context and its trace.\<close>

theorem quota_pause_resumes:
  assumes "handle_quota_exceeded w prov e (trace_of_job e j) (id_text (jb_id j)) r s = (Inr (), s')"
  shows "\<exists>ad. ws_added s' = ws_added s @ [ad] \<and> 5000 \<le> ad_delay ad \<and>
    list_all (\<lambda>reset. reset \<le> wo_ended w + ad_delay ad) (case rr_quota_reset r of None \<Rightarrow> [] | Some x \<Rightarrow> [x]) \<and>
    jenv_attempt (parse_envelope (ad_data ad)) = 1 \<and>
    jenv_payload (parse_envelope (ad_data ad)) = jenv_payload e \<and>
    jenv_context (parse_envelope (ad_data ad)) = jenv_context e \<and>
    trace_of_job (parse_envelope (ad_data ad)) j' = trace_of_job e j \<and>
    jenv_session (parse_envelope (ad_data ad)) =
      (if rr_session r = None then jenv_session e else rr_session r)"
  using assms
  by (auto simp: handle_quota_exceeded_def Let_def paused_envelope_def parse_write_envelope
      quota_resume_floor_ms_def trace_of_job_def id_text_def split: option.splits)

definition sample_quota :: run_result where
  "sample_quota = \<lparr>rr_status = Run_quota_exceeded, rr_run_id = None, rr_error = None,
     rr_quota_reset = Some 60000, rr_session = Some ''sid''\<rparr>"

theorem quota_pause_resumes_witness:
  "\<exists>ad. ws_added (snd (handle_quota_exceeded sample_world ''jira'' (raw_envelope ''{}'')
        (trace_of_job (raw_envelope ''{}'') sample_job) (id_text (jb_id sample_job)) sample_quota sample_worker_state))
      = ws_added sample_worker_state @ [ad] \<and> 5000 \<le> ad_delay ad \<and>
    list_all (\<lambda>reset. reset \<le> wo_ended sample_world + ad_delay ad)
      (case rr_quota_reset sample_quota of None \<Rightarrow> [] | Some x \<Rightarrow> [x]) \<and>
    jenv_attempt (parse_envelope (ad_data ad)) = 1 \<and>
    jenv_payload (parse_envelope (ad_data ad)) = jenv_payload (raw_envelope ''{}'') \<and>
    jenv_context (parse_envelope (ad_data ad)) = jenv_context (raw_envelope ''{}'') \<and>
    trace_of_job (parse_envelope (ad_data ad)) sample_job = trace_of_job (raw_envelope ''{}'') sample_job \<and>
    jenv_session (parse_envelope (ad_data ad)) =
      (if rr_session sample_quota = None then jenv_session (raw_envelope ''{}'') else rr_session sample_quota)"
  by (rule quota_pause_resumes)
    (simp add: handle_quota_exceeded_def sample_world_def Let_def sample_quota_def)

lemma announce_active:
  "is_active (ws_active (announce_turn w p t s)) (tn_job t)"
  by (auto simp: announce_turn_def Let_def is_active_def split: option.split)

text \<open>The pause clears the registry entry of the first generation only. After a pause, the
  paused job is still listed as running exactly when it is itself a resumed or retried job, and
  nothing that happens later to its successor takes it off the list.\<close>

theorem paused_job_registry:
  assumes "prepare_turn w p agents j = Inr (Some t)" and "wo_bundle_error w = None"
    and "wo_run w (turn_dispatch w p t) = Inr r" and "rr_status r = Run_quota_exceeded"
    and "wo_added w = Some new_id"
    and "list_all (\<lambda>e. \<not> ends_job (tn_job t) e \<and> \<not> starts_job (tn_job t) e) later"
  shows "is_active (fold active_handle later (ws_active (work_job w p agents al m j s))) (tn_job t)
    \<longleftrightarrow> jenv_original (tn_envelope t) \<notin> {None, Some (tn_job t)}"
proof -
  let ?s = "announce_turn w p t s"
  have "work_job w p agents al m j s
      = snd (handle_quota_exceeded w (provider_name p) (tn_envelope t) (tn_trace t) (tn_job t) r ?s)"
    using assms(1-5)
    by (simp add: work_job_def process_job_def Let_def finish_turn_def handle_quota_exceeded_def)
  then have "is_active (ws_active (work_job w p agents al m j s)) (tn_job t)
      \<longleftrightarrow> jenv_original (tn_envelope t) \<notin> {None, Some (tn_job t)}"
    using assms(5) announce_active[of w p t s]
    by (auto simp: handle_quota_exceeded_def Let_def is_active_def split: option.splits)
  moreover have "list_all (\<lambda>e. \<not> ends_job i e \<and> \<not> starts_job i e) es \<Longrightarrow>
      is_active (fold active_handle es a) i = is_active a i" for i es a
    by (induction es arbitrary: a) (simp_all add: is_active_handle)
  ultimately show ?thesis using assms(6) by simp
qed

definition resumed_job :: job where
  "resumed_job = \<lparr>jb_id = Some ''8'', jb_data = write_envelope
     \<lparr>jenv_payload = json_stringify (rq_payload (sample_request 0 None)), jenv_attempt = 1,
      jenv_original = Some ''7'', jenv_context = None, jenv_session = Some ''sid''\<rparr>\<rparr>"

lemma resumed_prepared:
  "\<exists>t. prepare_turn sample_world (rq_provider (sample_request 0 None)) [sample_agent] resumed_job
     = Inr (Some t) \<and> tn_job t = ''8'' \<and> jenv_original (tn_envelope t) = Some ''7''"
proof -
  have parse: "json_parse (json_stringify (rq_payload (sample_request 0 None)))
      = Some (rq_payload (sample_request 0 None))"
    by (rule json_parse_stringify) (simp add: sample_request_def)
  have ctx: "\<exists>c. extract_webhook_context (rq_provider (sample_request 0 None))
      (Val (rq_payload (sample_request 0 None))) = Inr c"
    by (simp add: extract_webhook_context_def get_context_strategy_def sample_request_def)
  have route: "resolve_agent_from_agents (wo_rx sample_world) (Val (rq_payload (sample_request 0 None)))
      (provider_name (rq_provider (sample_request 0 None))) [sample_agent]
      = Inr (Some \<lparr>route_agent = ''patch'', route_dir = ''/a'', route_template = None,
          route_rule = snd (''r'', hd (snd (hd (agent_routing sample_agent))))\<rparr>)"
    by code_simp
  have envelope: "parse_envelope (jb_data resumed_job)
      = \<lparr>jenv_payload = json_stringify (rq_payload (sample_request 0 None)), jenv_attempt = 1,
         jenv_original = Some ''7'', jenv_context = None, jenv_session = Some ''sid''\<rparr>"
    by (simp only: resumed_job_def job.simps parse_write_envelope)
  have "jb_id resumed_job = Some ''8''" by (simp add: resumed_job_def)
  moreover have "wo_runner_known sample_world x"
    "provider_env_secrets (rq_provider (sample_request 0 None)) = None"
    "find (\<lambda>a. agent_name a = ''patch'') [sample_agent] = Some sample_agent" for x
    by (simp_all add: sample_world_def sample_request_def sample_agent_def)
  ultimately show ?thesis
    using parse ctx route
    by (auto simp: prepare_turn_def Let_def envelope build_prompt_def resolve_env_secrets_def
        id_text_def simp del: find.simps)
qed

theorem paused_job_registry_witness:
  "\<exists>t :: turn. tn_job t = ''8'' \<and> (is_active (fold active_handle [] (ws_active (work_job sample_world
      (rq_provider (sample_request 0 None)) [sample_agent] True 5 resumed_job sample_worker_state))) (tn_job t)
    \<longleftrightarrow> jenv_original (tn_envelope t) \<notin> {None, Some (tn_job t)}) \<and>
    jenv_original (tn_envelope t) = Some ''7''"
proof -
  obtain t where t: "prepare_turn sample_world (rq_provider (sample_request 0 None)) [sample_agent] resumed_job
      = Inr (Some t)" "tn_job t = ''8''" "jenv_original (tn_envelope t) = Some ''7''"
    using resumed_prepared by blast
  have "is_active (fold active_handle [] (ws_active (work_job sample_world
      (rq_provider (sample_request 0 None)) [sample_agent] True 5 resumed_job sample_worker_state))) (tn_job t)
    \<longleftrightarrow> jenv_original (tn_envelope t) \<notin> {None, Some (tn_job t)}"
    by (rule paused_job_registry[OF t(1), where r = "\<lparr>rr_status = Run_quota_exceeded, rr_run_id = None,
        rr_error = None, rr_quota_reset = Some 60000, rr_session = Some ''sid''\<rparr>" and new_id = "Some ''8''"])
      (simp_all add: sample_world_def)
  then show ?thesis using t(2,3) by (intro exI[of _ t] conjI)
qed

text \<open>The events that end the life of a job.\<close>

fun settles :: "clawndom_event \<Rightarrow> bool" where
  "settles (Job (Job_completed _ _ _ _ _ _)) = True"
| "settles (Job (Job_failed _ _ _ _ _ _ final)) = final"
| "settles _ = False"

definition succeeds_job :: "job \<Rightarrow> added_job \<Rightarrow> bool" where
  "succeeds_job j ad \<longleftrightarrow>
     jenv_payload (parse_envelope (ad_data ad)) = jenv_payload (parse_envelope (jb_data j)) \<and>
     jenv_context (parse_envelope (ad_data ad)) = jenv_context (parse_envelope (jb_data j)) \<and>
     jenv_original (parse_envelope (ad_data ad)) = Some (trace_of_job (parse_envelope (jb_data j)) j) \<and>
     5000 \<le> ad_delay ad"

lemma requeue_delay_floor: "5000 \<le> compute_requeue_delay_ms a"
  by (simp add: compute_requeue_delay_ms_def)

lemma handle_failure_conserves:
  assumes "wo_added w = Some new_id" "jb_id j = Some i"
  shows "ws_added (handle_failure w p al m j msg s) = ws_added s \<and>
      settles (last (ws_events (handle_failure w p al m j msg s))) \<or>
    (\<exists>ad. ws_added (handle_failure w p al m j msg s) = ws_added s @ [ad] \<and> succeeds_job j ad)"
  using assms requeue_delay_floor
  by (auto simp: handle_failure_def requeue_job_to_back_def Let_def succeeds_job_def
      parse_write_envelope retry_envelope_def trace_of_job_def id_text_def split: option.splits)

lemma finish_turn_conserves:
  assumes "finish_turn w p t r s = (Inr (), s')" and "tn_envelope t = parse_envelope (jb_data j)"
    and "tn_job t = id_text (jb_id j)"
  shows "ws_added s' = ws_added s \<and> settles (last (ws_events s')) \<or>
    (\<exists>ad. ws_added s' = ws_added s @ [ad] \<and> succeeds_job j ad)"
  using assms
  by (auto simp: finish_turn_def handle_quota_exceeded_def Let_def succeeds_job_def paused_envelope_def
      parse_write_envelope quota_resume_floor_ms_def trace_of_job_def
      split: run_status.splits option.splits)

text \<open>C4: No job is lost. When the queue takes what is added to it, a turn that is not silent
  ends in one of two ways: nothing is added and its last event is a completion or a final
  failure, or one successor is added with the same payload and context, on the same trace, due
  in five seconds or more.\<close>

theorem job_conserved:
  assumes "wo_added w = Some new_id" and "jb_id j = Some i"
  shows "work_job w p agents al m j s = s \<and> prepare_turn w p agents j = Inr None \<or>
    ws_added (work_job w p agents al m j s) = ws_added s \<and>
      settles (last (ws_events (work_job w p agents al m j s))) \<or>
    (\<exists>ad. ws_added (work_job w p agents al m j s) = ws_added s @ [ad] \<and> succeeds_job j ad)"
proof (cases "prepare_turn w p agents j")
  case (Inl x)
  then show ?thesis
    using handle_failure_conserves[OF assms, of p al m "turn_message x" s]
    by (auto simp: work_job_def process_job_def)
next
  case (Inr prep)
  show ?thesis
  proof (cases prep)
    case None
    then show ?thesis using Inr by (simp add: work_job_def process_job_def)
  next
    case (Some t)
    let ?s = "announce_turn w p t s"
    consider x where "process_job w p agents j s = (Inl x, ?s)"
      | res s' where "finish_turn w p t res ?s = (Inr (), s')" "process_job w p agents j s = (Inr (), s')"
    proof (cases "process_job w p agents j s")
      case (Pair r s')
      then show ?thesis
        using that Inr Some finish_turn_log(2)
        by (cases r) (auto simp: process_job_def Let_def split: option.splits sum.splits)
    qed
    then show ?thesis
    proof cases
      case (1 x)
      then show ?thesis
        using handle_failure_conserves[OF assms, of p al m "turn_message x" ?s]
        by (auto simp: work_job_def)
    next
      case (2 res s')
      then show ?thesis
        using finish_turn_conserves[OF 2(1)] prepared_turn_names Inr Some
        by (auto simp: work_job_def)
    qed
  qed
qed

theorem job_conserved_witness:
  "work_job sample_world (rq_provider (sample_request 0 None)) [] True 5 sample_job sample_worker_state
      = sample_worker_state \<and>
     prepare_turn sample_world (rq_provider (sample_request 0 None)) [] sample_job = Inr None \<or>
   ws_added (work_job sample_world (rq_provider (sample_request 0 None)) [] True 5 sample_job sample_worker_state)
      = ws_added sample_worker_state \<and>
     settles (last (ws_events (work_job sample_world (rq_provider (sample_request 0 None)) [] True 5
        sample_job sample_worker_state))) \<or>
   (\<exists>ad. ws_added (work_job sample_world (rq_provider (sample_request 0 None)) [] True 5 sample_job
        sample_worker_state) = ws_added sample_worker_state @ [ad] \<and> succeeds_job sample_job ad)"
  by (rule job_conserved[of sample_world "Some ''8''" sample_job "''7''"])
    (simp_all add: sample_world_def sample_job_def)

text \<open>A session turn runs without the parts of the prompt that belong in the system slot: what
  the runner is asked to do does not depend on the rendered system prompt, nor on the session to
  resume or the turn limit, once the event has a session key and the runner keeps sessions.\<close>

theorem session_dispatch_drops_system_prompt:
  assumes "wo_run_session w (tn_runner t)"
    and "build_session_dispatch (tn_payload t) (route_rule (tn_route t)) \<noteq> None"
  shows "turn_dispatch w p (t\<lparr>tn_system := system, tn_envelope := (tn_envelope t)\<lparr>jenv_session := i\<rparr>,
      tn_route := (tn_route t)\<lparr>route_rule := (route_rule (tn_route t))\<lparr>rule_max_turns := n\<rparr>\<rparr>\<rparr>)
    = turn_dispatch w p t"
  using assms
  by (auto simp: turn_dispatch_def dispatch_to_runner_def turn_options_def turn_session_key_def
      build_session_dispatch_def rule_namespace_def)

definition sample_session_turn :: turn where
  "sample_session_turn =
     \<lparr>tn_envelope = raw_envelope ''{}'',
      tn_payload = JObj [(''event'', JObj [(''channel'', JStr ''D1''), (''channel_type'', JStr ''im'')])],
      tn_route = \<lparr>route_agent = ''w'', route_dir = ''/w'', route_template = Some ''chat.md'',
        route_rule = \<lparr>rule_name = None, rule_id = None, rule_condition = None,
          rule_template = Some ''chat.md'', rule_session = Some ''slack'', rule_memory = None,
          rule_max_turns = None, rule_runner = None, rule_tools = None,
       rule_cron = None, rule_timezone = None, rule_context = None\<rparr>\<rparr>,
      tn_model = None, tn_memories = None, tn_prompt = ''body'', tn_system = ''IDENTITY'',
      tn_env = None, tn_runner = ''claude-cli'', tn_trace = ''7'', tn_job = ''7''\<rparr>"

theorem session_dispatch_drops_system_prompt_witness:
  "turn_dispatch (sample_world\<lparr>wo_run_session := (\<lambda>_. True)\<rparr>) (rq_provider (sample_request 0 None))
     (sample_session_turn\<lparr>tn_system := [], tn_envelope := (tn_envelope sample_session_turn)\<lparr>jenv_session := None\<rparr>,
      tn_route := (tn_route sample_session_turn)\<lparr>route_rule := (route_rule (tn_route sample_session_turn))
        \<lparr>rule_max_turns := Some 9\<rparr>\<rparr>\<rparr>)
   = turn_dispatch (sample_world\<lparr>wo_run_session := (\<lambda>_. True)\<rparr>) (rq_provider (sample_request 0 None))
       sample_session_turn"
  by (rule session_dispatch_drops_system_prompt)
    (simp_all add: sample_session_turn_def build_session_dispatch_def get_session_key_strategy_def
      slack_session_key_def read_slack_event_def slack_conversation_def object_read_def)

end
