(* ===== verification/Base64.thy ===== *)
theory Base64
  imports Prelude
begin

text \<open>
  Node's \<open>Buffer\<close> encodings that the program uses on byte strings: \<open>base64url\<close> writing (no
  padding), the lenient \<open>base64\<close>/\<open>base64url\<close> reading (both alphabets, other characters
  skipped, reading stops at the padding) and \<open>hex\<close> reading (stops at the first pair that is
  not hexadecimal). A byte string is a character list.
\<close>

section \<open>Bits\<close>

fun bits_of :: "nat \<Rightarrow> nat \<Rightarrow> bool list" where
  "bits_of 0 n = []"
| "bits_of (Suc w) n = bits_of w (n div 2) @ [odd n]"

fun nat_of_bits :: "bool list \<Rightarrow> nat" where
  "nat_of_bits bs = foldl (\<lambda>n b. 2 * n + of_bool b) 0 bs"

lemma length_bits_of [simp]: "length (bits_of w n) = w"
  by (induction w arbitrary: n) auto

lemma nat_of_bits_of: "n < 2 ^ w \<Longrightarrow> nat_of_bits (bits_of w n) = n"
  by (induction w arbitrary: n) (auto simp: less_mult_imp_div_less)

lemma nat_of_bits_bound: "nat_of_bits bs < 2 ^ length bs"
  by (induction bs rule: rev_induct) auto

lemma bits_of_nat_of_bits: "bits_of (length bs) (nat_of_bits bs) = bs"
  by (induction bs rule: rev_induct) auto

function (sequential) chunks :: "nat \<Rightarrow> 'a list \<Rightarrow> 'a list list" where
  "chunks w [] = []"
| "chunks w (x # xs) = (if w = 0 then [] else take w (x # xs) # chunks w (drop w (x # xs)))"
  by pat_completeness auto
termination by (relation "measure (\<lambda>(w, xs). length xs)") auto

lemma concat_chunks: "0 < w \<Longrightarrow> concat (chunks w xs) = xs"
  by (induction w xs rule: chunks.induct) (simp_all del: take_Suc_Cons drop_Suc_Cons)

lemma chunks_full: "0 < w \<Longrightarrow> w dvd length xs \<Longrightarrow> c \<in> set (chunks w xs) \<Longrightarrow> length c = w"
proof (induction w xs rule: chunks.induct)
  case (2 w x xs)
  have "w \<le> length (x # xs)" using 2(3) by (metis dvd_imp_le length_greater_0_conv list.distinct(1))
  moreover have "w dvd length (drop w (x # xs))" using 2(3) by (simp only: length_drop dvd_diff_nat dvd_refl)
  ultimately show ?case using 2 by (auto simp del: drop_Suc_Cons take_Suc_Cons)
qed simp

definition byte_bits :: "string \<Rightarrow> bool list" where
  "byte_bits s = concat (map (\<lambda>c. bits_of 8 (of_char c)) s)"

definition bytes_of_bits :: "bool list \<Rightarrow> string" where
  "bytes_of_bits bs = map (\<lambda>b. char_of (nat_of_bits b)) (chunks 8 (take (8 * (length bs div 8)) bs))"

lemma length_byte_bits [simp]: "length (byte_bits s) = 8 * length s"
  by (induction s) (simp_all add: byte_bits_def)

lemma chunks_append: "0 < w \<Longrightarrow> length xs = w \<Longrightarrow> chunks w (xs @ ys) = xs # chunks w ys"
  by (cases xs) auto

lemma byte_bits_Cons: "byte_bits (c # s) = bits_of 8 (of_char c) @ byte_bits s"
  by (simp only: byte_bits_def list.map concat.simps)

lemma chunks_byte_bits: "chunks 8 (byte_bits s) = map (\<lambda>c. bits_of 8 (of_char c)) s"
proof (induction s)
  case Nil
  then show ?case by (simp add: byte_bits_def)
next
  case (Cons c s)
  then show ?case by (simp only: byte_bits_Cons chunks_append length_bits_of zero_less_numeral list.map)
qed

lemma of_char_byte: "(of_char c :: nat) < 2 ^ 8"
  using nat_of_char_less_256[of c] by (simp only: power_numeral_reduce) simp

lemma bytes_of_byte_bits: "length pad < 8 \<Longrightarrow> bytes_of_bits (byte_bits s @ pad) = s"
proof -
  assume "length pad < 8"
  then have "8 * (length (byte_bits s @ pad) div 8) = length (byte_bits s)" by simp
  moreover have "char_of (nat_of_bits (bits_of 8 (of_char c))) = c" for c
    by (simp only: nat_of_bits_of[OF of_char_byte] char_of_char)
  ultimately show ?thesis
    by (simp only: bytes_of_bits_def append_eq_conv_conj[THEN iffD1, OF refl, THEN conjunct1]
        take_append take_all order_refl diff_self_eq_0 take_0 append_Nil2 chunks_byte_bits map_map comp_def map_ident)
qed

section \<open>Base64\<close>

definition base64url_alphabet :: string where
  "base64url_alphabet = ''ABCDEFGHIJKLMNOPQRSTUVWXYZabcdefghijklmnopqrstuvwxyz0123456789-_''"

definition encode_base64url :: "string \<Rightarrow> string" where
  "encode_base64url s =
     (let bs = byte_bits s; pad = replicate ((6 - length bs mod 6) mod 6) False in
      map (\<lambda>b. base64url_alphabet ! nat_of_bits b) (chunks 6 (bs @ pad)))"

fun index_of :: "char \<Rightarrow> string \<Rightarrow> nat option" where
  "index_of c [] = None"
| "index_of c (d # ds) = (if c = d then Some 0 else map_option Suc (index_of c ds))"

definition base64_value :: "char \<Rightarrow> nat option" where
  "base64_value c = (if c = CHR ''+'' then Some 62 else if c = CHR ''/'' then Some 63
     else index_of c base64url_alphabet)"

definition decode_base64 :: "string \<Rightarrow> string" where
  "decode_base64 t =
     bytes_of_bits (concat (map (bits_of 6)
       (List.map_filter base64_value (takeWhile (\<lambda>c. c \<noteq> CHR ''='') t))))"

lemma index_of_nth: "distinct ds \<Longrightarrow> n < length ds \<Longrightarrow> index_of (ds ! n) ds = Some n"
proof (induction ds arbitrary: n)
  case (Cons d ds)
  then show ?case by (cases n) auto
qed simp

lemma alphabet_facts:
  "distinct base64url_alphabet" "length base64url_alphabet = 64"
  "CHR ''='' \<notin> set base64url_alphabet" "CHR ''+'' \<notin> set base64url_alphabet"
  "CHR ''/'' \<notin> set base64url_alphabet"
  by (simp_all add: base64url_alphabet_def)

lemma base64_value_alphabet: "n < 64 \<Longrightarrow> base64_value (base64url_alphabet ! n) = Some n"
proof -
  assume n: "n < 64"
  then have "base64url_alphabet ! n \<in> set base64url_alphabet" by (simp add: alphabet_facts(2))
  then have "base64url_alphabet ! n \<noteq> CHR ''+''" "base64url_alphabet ! n \<noteq> CHR ''/''"
    using alphabet_facts(4,5) by metis+
  then show ?thesis
    using n alphabet_facts(1,2) by (simp only: base64_value_def if_False index_of_nth)
qed

lemma padded_length: "6 dvd n + (6 - n mod 6) mod (6 :: nat)"
proof -
  obtain q r where n: "n = 6 * q + r" "r < 6"
    using mod_less_divisor[of 6 n] mult_div_mod_eq[of 6 n] by (metis zero_less_numeral)
  then have "n mod 6 = r" by simp
  then have "n + (6 - n mod 6) mod 6 = (if r = 0 then 6 * q else 6 * (q + 1))" using n by simp
  then show ?thesis by (metis dvd_triv_left)
qed

lemma decode_encode_base64url: "decode_base64 (encode_base64url s) = s"
proof -
  define bs where "bs = byte_bits s"
  define pad where "pad = replicate ((6 - length bs mod 6) mod 6) False"
  have full: "length c = 6" if "c \<in> set (chunks 6 (bs @ pad))" for c
  proof (rule chunks_full[OF _ _ that])
    show "6 dvd length (bs @ pad)"
      unfolding pad_def length_append length_replicate by (rule padded_length)
  qed simp
  then have small: "nat_of_bits c < 64" if "c \<in> set (chunks 6 (bs @ pad))" for c
    using that nat_of_bits_bound[of c] by fastforce
  have enc: "encode_base64url s = map (\<lambda>b. base64url_alphabet ! nat_of_bits b) (chunks 6 (bs @ pad))"
    by (simp add: encode_base64url_def Let_def bs_def pad_def)
  have in_alphabet: "\<forall>c \<in> set (encode_base64url s). c \<in> set base64url_alphabet"
    using small unfolding enc by (simp add: alphabet_facts(2))
  then have whole: "takeWhile (\<lambda>c. c \<noteq> CHR ''='') (encode_base64url s) = encode_base64url s"
    using alphabet_facts(3) by (intro takeWhile_eq_all_conv[THEN iffD2]) metis
  have "List.map_filter base64_value (map (\<lambda>b. base64url_alphabet ! nat_of_bits b) cs) = map nat_of_bits cs"
    if "\<forall>c \<in> set cs. nat_of_bits c < 64" for cs
    using that by (induction cs) (simp_all add: map_filter_simps base64_value_alphabet del: nat_of_bits.simps)
  then have sextets: "List.map_filter base64_value (encode_base64url s) = map nat_of_bits (chunks 6 (bs @ pad))"
    using small unfolding enc by blast
  have whole_bits: "concat (map (bits_of 6) (map nat_of_bits (chunks 6 (bs @ pad)))) = bs @ pad"
  proof -
    have "map (\<lambda>c. bits_of 6 (nat_of_bits c)) (chunks 6 (bs @ pad)) = chunks 6 (bs @ pad)"
      using full bits_of_nat_of_bits by (intro map_idI) metis
    then show ?thesis by (simp only: map_map comp_def) (simp add: concat_chunks)
  qed
  have "length pad < 8" by (simp add: pad_def)
  then show ?thesis
    unfolding decode_base64_def whole sextets whole_bits unfolding bs_def by (rule bytes_of_byte_bits)
qed

text \<open>What is written consists of letters of the alphabet.\<close>

lemma encode_base64url_chars: "set (encode_base64url s) \<subseteq> set base64url_alphabet"
proof
  define bs where "bs = byte_bits s @ replicate ((6 - length (byte_bits s) mod 6) mod 6) False"
  fix c assume "c \<in> set (encode_base64url s)"
  then obtain b where b: "b \<in> set (chunks 6 bs)" "c = base64url_alphabet ! nat_of_bits b"
    by (auto simp: encode_base64url_def Let_def bs_def)
  have "6 dvd length bs" unfolding bs_def length_append length_replicate by (rule padded_length)
  from chunks_full[OF _ this b(1)] have "nat_of_bits b < 64" using nat_of_bits_bound[of b] by simp
  then show "c \<in> set base64url_alphabet" using b(2) by (simp add: alphabet_facts(2))
qed

interpretation base64_text: codec "\<lambda>_. True" encode_base64url "\<lambda>t. Some (decode_base64 t)"
  by unfold_locales (simp add: decode_encode_base64url)

section \<open>Hexadecimal\<close>

definition hex_nibble :: "char \<Rightarrow> nat option" where
  "hex_nibble c = index_of (lower_char c) ''0123456789abcdef''"

fun decode_hex :: "string \<Rightarrow> nat list" where
  "decode_hex (a # b # rest) =
     (case (hex_nibble a, hex_nibble b) of
        (Some x, Some y) \<Rightarrow> (16 * x + y) # decode_hex rest
      | _ \<Rightarrow> [])"
| "decode_hex _ = []"

definition hex_digit_of :: "nat \<Rightarrow> char" where
  "hex_digit_of n = ''0123456789abcdef'' ! n"

definition encode_hex :: "nat list \<Rightarrow> string" where
  "encode_hex bs = concat (map (\<lambda>b. [hex_digit_of (b div 16), hex_digit_of (b mod 16)]) bs)"

lemma hex_nibble_digit: "n < 16 \<Longrightarrow> hex_nibble (hex_digit_of n) = Some n"
proof -
  assume "n < 16"
  then have "n \<in> set [0..<16]" by simp
  moreover have "list_all (\<lambda>n. hex_nibble (hex_digit_of n) = Some n) [0..<16]" by code_simp
  ultimately show ?thesis by (simp only: list_all_iff)
qed

lemma decode_encode_hex: "list_all (\<lambda>b. b < 256) bs \<Longrightarrow> decode_hex (encode_hex bs @ rest) = bs @ decode_hex rest"
  by (induction bs) (auto simp: encode_hex_def hex_nibble_digit)

end
