(* ===== verification/ScheduledTasks.thy ===== *)
theory ScheduledTasks
  imports EventBus LibText Base64 "HOL-Library.Product_Lexorder"
begin

text \<open>
  The registry of scheduled tasks (\<open>services/scheduled-tasks.service.ts\<close>,
  \<open>types/scheduled-task.ts\<close>). Redis holds one record per task, four families of index sets and
  the set ordered by next fire; \<open>MULTI\<close> applies its commands together, so each write is one
  update of the record below. A stored record is the task itself: it is written by
  \<open>JSON.stringify\<close> and read back through the schema it was checked with. Index sets are lists
  without repetition. The commands given to BullMQ are logged in order; the cron resolver, the
  clock and the random part of an agent task's id are arguments.
\<close>

section \<open>Tasks\<close>

datatype schedule_when = Cron string "string option" | Fire_at int

record sched_task =
  ts_id :: string
  ts_agent :: string
  ts_name :: "string option"
  ts_when :: schedule_when
  ts_runner :: string
  ts_config :: json
  ts_payload :: "json option"
  ts_created_by :: created_by
  ts_trace :: "string option"
  ts_ttl :: "int option"
  ts_max_runs :: "int option"
  ts_run_count :: int
  ts_created_at :: int
  ts_next_fire :: "int option"

fun is_cron_when :: "schedule_when \<Rightarrow> bool" where
  "is_cron_when (Cron c tz) = True"
| "is_cron_when (Fire_at t) = False"

fun valid_when :: "schedule_when \<Rightarrow> bool" where
  "valid_when (Cron c tz) = (c \<noteq> [] \<and> tz \<noteq> Some [])"
| "valid_when (Fire_at t) = True"

text \<open>The checks of \<open>scheduledTaskSchema\<close> that the types do not make already; the runner block has
  its own schema and is taken as checked.\<close>

definition valid_task :: "sched_task \<Rightarrow> bool" where
  "valid_task t \<longleftrightarrow> ts_id t \<noteq> [] \<and> ts_agent t \<noteq> [] \<and> ts_name t \<noteq> Some [] \<and> valid_when (ts_when t) \<and>
     ts_runner t \<noteq> [] \<and> ts_trace t \<noteq> Some [] \<and>
     (case ts_ttl t of None \<Rightarrow> True | Some n \<Rightarrow> 0 \<le> n) \<and>
     (case ts_max_runs t of None \<Rightarrow> True | Some n \<Rightarrow> 0 < n) \<and>
     0 \<le> ts_run_count t \<and> 0 \<le> ts_created_at t \<and>
     (case ts_next_fire t of None \<Rightarrow> True | Some n \<Rightarrow> 0 \<le> n)"

record create_input =
  ci_id :: "string option"
  ci_agent :: string
  ci_name :: "string option"
  ci_when :: schedule_when
  ci_runner :: string
  ci_config :: json
  ci_payload :: "json option"
  ci_created_by :: created_by
  ci_trace :: "string option"
  ci_ttl :: "int option"
  ci_max_runs :: "int option"
  ci_event_trace :: "string option"
  ci_reason :: "created_reason option"

section \<open>State\<close>

record sched_redis =
  sr_records :: "(string, sched_task) jsmap"
  sr_all :: "string list"
  sr_by_creator :: "created_by \<Rightarrow> string list"
  sr_by_agent :: "string \<Rightarrow> string list"
  sr_by_trace :: "string \<Rightarrow> string list"
  sr_next :: "(int \<times> string) list"

text \<open>Commands to the queue of an agent: upsert a repeating scheduler (pattern, zone), add a
  delayed job, remove either; the second argument is the scheduler or job id.\<close>

datatype bull_command =
    Upsert_job_scheduler string string string "string option"
  | Add_delayed string string int
  | Remove_job_scheduler string string
  | Remove_job string string

record sched_state =
  ss_redis :: sched_redis
  ss_bull :: "bull_command list"
  ss_events :: "scheduled_event list"

definition sched_empty :: sched_state where
  "sched_empty = \<lparr>ss_redis = \<lparr>sr_records = [], sr_all = [], sr_by_creator = (\<lambda>_. []),
     sr_by_agent = (\<lambda>_. []), sr_by_trace = (\<lambda>_. []), sr_next = []\<rparr>, ss_bull = [], ss_events = []\<rparr>"

text \<open>The caps, when there are any, and the cron resolver (\<open>None\<close>: it threw).\<close>

record sched_env =
  se_caps :: "(int \<times> int) option"
  se_cron :: "string \<Rightarrow> string option \<Rightarrow> int \<Rightarrow> int option"

datatype sched_error = Per_trace_cap int int | Future_window_cap int int | Schema_rejected

section \<open>Redis commands\<close>

definition sadd :: "string \<Rightarrow> string list \<Rightarrow> string list" where
  "sadd x xs = (if x \<in> set xs then xs else xs @ [x])"

definition srem :: "string \<Rightarrow> string list \<Rightarrow> string list" where
  "srem x xs = filter (\<lambda>y. y \<noteq> x) xs"

definition zrem :: "string \<Rightarrow> (int \<times> string) list \<Rightarrow> (int \<times> string) list" where
  "zrem x zs = filter (\<lambda>z. snd z \<noteq> x) zs"

definition zadd :: "int \<Rightarrow> string \<Rightarrow> (int \<times> string) list \<Rightarrow> (int \<times> string) list" where
  "zadd score x zs = insort (score, x) (zrem x zs)"

lemma sadd_set [simp]: "set (sadd x xs) = insert x (set xs)"
  by (auto simp: sadd_def)

lemma srem_set [simp]: "set (srem x xs) = set xs - {x}"
  by (auto simp: srem_def)

lemma sadd_distinct [simp]: "distinct xs \<Longrightarrow> distinct (sadd x xs)"
  by (simp add: sadd_def)

lemma srem_distinct [simp]: "distinct xs \<Longrightarrow> distinct (srem x xs)"
  by (simp add: srem_def)

lemma zrem_set [simp]: "set (zrem x zs) = {z \<in> set zs. snd z \<noteq> x}"
  by (auto simp: zrem_def)

lemma zadd_set [simp]: "set (zadd n x zs) = insert (n, x) {z \<in> set zs. snd z \<noteq> x}"
  by (auto simp: zadd_def set_insort_key)

section \<open>Persistence\<close>

text \<open>\<open>if (task.createdByTraceId)\<close>: absent and empty are alike.\<close>

definition trace_tag :: "sched_task \<Rightarrow> string option" where
  "trace_tag t = (case ts_trace t of Some (c # cs) \<Rightarrow> Some (c # cs) | _ \<Rightarrow> None)"

definition persist :: "sched_task \<Rightarrow> sched_redis \<Rightarrow> sched_redis" where
  "persist t r =
     r\<lparr>sr_records := AList.update (ts_id t) t (sr_records r),
       sr_all := sadd (ts_id t) (sr_all r),
       sr_by_creator := (sr_by_creator r)(ts_created_by t := sadd (ts_id t) (sr_by_creator r (ts_created_by t))),
       sr_by_agent := (sr_by_agent r)(ts_agent t := sadd (ts_id t) (sr_by_agent r (ts_agent t))),
       sr_by_trace := (case trace_tag t of
           None \<Rightarrow> sr_by_trace r
         | Some x \<Rightarrow> (sr_by_trace r)(x := sadd (ts_id t) (sr_by_trace r x))),
       sr_next := (case ts_next_fire t of
           Some n \<Rightarrow> zadd n (ts_id t) (sr_next r)
         | None \<Rightarrow> zrem (ts_id t) (sr_next r))\<rparr>"

definition remove_from_redis :: "sched_task \<Rightarrow> sched_redis \<Rightarrow> sched_redis" where
  "remove_from_redis t r =
     r\<lparr>sr_records := AList.delete (ts_id t) (sr_records r),
       sr_all := srem (ts_id t) (sr_all r),
       sr_by_creator := (sr_by_creator r)(ts_created_by t := srem (ts_id t) (sr_by_creator r (ts_created_by t))),
       sr_by_agent := (sr_by_agent r)(ts_agent t := srem (ts_id t) (sr_by_agent r (ts_agent t))),
       sr_by_trace := (case trace_tag t of
           None \<Rightarrow> sr_by_trace r
         | Some x \<Rightarrow> (sr_by_trace r)(x := srem (ts_id t) (sr_by_trace r x))),
       sr_next := zrem (ts_id t) (sr_next r)\<rparr>"

definition get_by_id :: "sched_state \<Rightarrow> string \<Rightarrow> sched_task option" where
  "get_by_id s i = map_of (sr_records (ss_redis s)) i"

definition load_many :: "sched_redis \<Rightarrow> string list \<Rightarrow> sched_task list" where
  "load_many r ids = List.map_filter (map_of (sr_records r)) ids"

section \<open>The queue adapter\<close>

definition bullmq_id :: "sched_task \<Rightarrow> string" where
  "bullmq_id t = ''scheduled-task-'' @ ts_id t"

fun repeat_zone :: "string option \<Rightarrow> string option" where
  "repeat_zone (Some (c # cs)) = Some (c # cs)"
| "repeat_zone _ = None"

definition schedule_in_bullmq :: "int \<Rightarrow> sched_task \<Rightarrow> bull_command" where
  "schedule_in_bullmq now t =
     (case ts_when t of
        Cron pattern zone \<Rightarrow> Upsert_job_scheduler (ts_agent t) (bullmq_id t) pattern (repeat_zone zone)
      | Fire_at due \<Rightarrow> Add_delayed (ts_agent t) (bullmq_id t) (max 0 (due - now)))"

definition remove_from_bullmq :: "sched_task \<Rightarrow> bull_command" where
  "remove_from_bullmq t =
     (if is_cron_when (ts_when t) then Remove_job_scheduler (ts_agent t) (bullmq_id t)
      else Remove_job (ts_agent t) (bullmq_id t))"

section \<open>Operations\<close>

definition compute_next_fire :: "sched_env \<Rightarrow> schedule_when \<Rightarrow> int \<Rightarrow> int option" where
  "compute_next_fire env w now =
     (case w of Fire_at t \<Rightarrow> Some t | Cron c tz \<Rightarrow> se_cron env c tz now)"

definition is_id_char :: "char \<Rightarrow> bool" where
  "is_id_char c \<longleftrightarrow> is_lower (lower_char c) \<or> is_digit c \<or> c = CHR ''-''"

text \<open>\<open>random\<close> is the time in base 36, a dash and eight hexadecimal digits.\<close>

definition make_agent_task_id :: "string \<Rightarrow> string \<Rightarrow> string" where
  "make_agent_task_id agent random =
     take 32 (map (\<lambda>c. if is_id_char c then c else CHR ''-'') (agent @ ''-'' @ random))"

definition enforce_caps :: "sched_env \<Rightarrow> create_input \<Rightarrow> int \<Rightarrow> sched_redis \<Rightarrow> sched_error option" where
  "enforce_caps env input now r =
     (case se_caps env of
        None \<Rightarrow> None
      | Some (per_trace, window) \<Rightarrow>
          (let count = (case ci_trace input of Some tr \<Rightarrow> int (length (sr_by_trace r tr)) | None \<Rightarrow> 0) in
           if per_trace > 0 \<and> ci_trace input \<notin> {None, Some []} \<and> count \<ge> per_trace
           then Some (Per_trace_cap per_trace count)
           else (case ci_when input of
                   Fire_at t \<Rightarrow>
                     if window > 0 \<and> t - now > window then Some (Future_window_cap window (t - now)) else None
                 | Cron _ _ \<Rightarrow> None)))"

definition build_task :: "sched_env \<Rightarrow> create_input \<Rightarrow> string \<Rightarrow> int \<Rightarrow> sched_task option \<Rightarrow> sched_task" where
  "build_task env input i now existing =
     \<lparr>ts_id = i, ts_agent = ci_agent input, ts_name = ci_name input, ts_when = ci_when input,
      ts_runner = ci_runner input, ts_config = ci_config input, ts_payload = ci_payload input,
      ts_created_by = ci_created_by input, ts_trace = ci_trace input, ts_ttl = ci_ttl input,
      ts_max_runs = ci_max_runs input,
      ts_run_count = (case existing of Some e \<Rightarrow> ts_run_count e | None \<Rightarrow> 0),
      ts_created_at = (case existing of Some e \<Rightarrow> ts_created_at e | None \<Rightarrow> now),
      ts_next_fire = compute_next_fire env (ci_when input) now\<rparr>"

definition created_event :: "int \<Rightarrow> create_input \<Rightarrow> sched_task \<Rightarrow> scheduled_event" where
  "created_event now input t =
     Scheduled_created now
       (case ci_event_trace input of Some x \<Rightarrow> x
        | None \<Rightarrow> (case ts_trace t of Some x \<Rightarrow> x | None \<Rightarrow> ''scheduled-task-'' @ ts_id t))
       (ts_id t) (ts_agent t) (ts_runner t) (ts_created_by t)
       (case ci_reason input of Some r \<Rightarrow> r
        | None \<Rightarrow> (if ts_created_by t = By_config then Config_load else Agent_create))
       (ts_trace t) (ts_next_fire t)"

text \<open>An upsert in two parts, split where it awaits: the lookup with the caps, and the write.\<close>

definition admit :: "sched_env \<Rightarrow> create_input \<Rightarrow> string \<Rightarrow> int \<Rightarrow> sched_state \<Rightarrow>
    sched_error + sched_task option" where
  "admit env input i now s =
     (let existing = get_by_id s i in
      if ci_created_by input = By_agent \<and> existing = None then
        (case enforce_caps env input now (ss_redis s) of Some e \<Rightarrow> Inl e | None \<Rightarrow> Inr existing)
      else Inr existing)"

definition commit :: "sched_env \<Rightarrow> create_input \<Rightarrow> string \<Rightarrow> int \<Rightarrow> sched_task option \<Rightarrow> sched_state \<Rightarrow>
    (sched_error + sched_task) \<times> sched_state" where
  "commit env input i now existing s =
     (let t = build_task env input i now existing in
      if \<not> valid_task t then (Inl Schema_rejected, s)
      else (Inr t,
        \<lparr>ss_redis = persist t (ss_redis s),
         ss_bull = ss_bull s @ [schedule_in_bullmq now t],
         ss_events = ss_events s @ (if existing = None then [created_event now input t] else [])\<rparr>))"

definition task_id_of :: "create_input \<Rightarrow> string \<Rightarrow> string" where
  "task_id_of input random =
     (case ci_id input of Some i \<Rightarrow> i | None \<Rightarrow> make_agent_task_id (ci_agent input) random)"

definition upsert :: "sched_env \<Rightarrow> create_input \<Rightarrow> string \<Rightarrow> int \<Rightarrow> sched_state \<Rightarrow>
    (sched_error + sched_task) \<times> sched_state" where
  "upsert env input random now s =
     (let i = task_id_of input random in
      case admit env input i now s of
        Inl e \<Rightarrow> (Inl e, s)
      | Inr existing \<Rightarrow> commit env input i now existing s)"

definition event_trace :: "string option \<Rightarrow> string \<Rightarrow> string" where
  "event_trace tr i = (case tr of Some x \<Rightarrow> x | None \<Rightarrow> ''scheduled-task-'' @ i)"

definition drop_task :: "sched_task \<Rightarrow> scheduled_event \<Rightarrow> sched_state \<Rightarrow> sched_state" where
  "drop_task t e s =
     \<lparr>ss_redis = remove_from_redis t (ss_redis s), ss_bull = ss_bull s @ [remove_from_bullmq t],
      ss_events = ss_events s @ [e]\<rparr>"

definition delete_task :: "string \<Rightarrow> cancelled_reason \<Rightarrow> string option \<Rightarrow> int \<Rightarrow> sched_state \<Rightarrow>
    bool \<times> sched_state" where
  "delete_task i reason tr now s =
     (case get_by_id s i of
        None \<Rightarrow> (False, s)
      | Some t \<Rightarrow> (True, drop_task t
          (Scheduled_cancelled now (event_trace tr i) i (ts_agent t) (ts_runner t) reason) s))"

definition check_expired :: "sched_task \<Rightarrow> int \<Rightarrow> expired_reason option" where
  "check_expired t now =
     (if (case ts_ttl t of Some ttl \<Rightarrow> now \<ge> ttl | None \<Rightarrow> False) then Some Expired_ttl
      else if (case ts_max_runs t of Some n \<Rightarrow> ts_run_count t \<ge> n | None \<Rightarrow> False) then Some Expired_max_runs
      else None)"

definition record_fire :: "sched_env \<Rightarrow> string \<Rightarrow> string \<Rightarrow> string option \<Rightarrow> int \<Rightarrow> sched_state \<Rightarrow>
    bool \<times> sched_state" where
  "record_fire env i job_id tr now s =
     (case get_by_id s i of
        None \<Rightarrow> (False, s)
      | Some t \<Rightarrow>
          (case check_expired t now of
             Some reason \<Rightarrow>
               (False, drop_task t
                  (Scheduled_expired now (event_trace tr i) (ts_id t) (ts_agent t) (ts_runner t) reason) s)
           | None \<Rightarrow>
               (let updated = t\<lparr>ts_run_count := ts_run_count t + 1,
                      ts_next_fire := (if is_cron_when (ts_when t)
                                       then compute_next_fire env (ts_when t) now else None)\<rparr>;
                    redis = (if is_cron_when (ts_when t) then persist updated (ss_redis s)
                             else remove_from_redis t (ss_redis s))
                in (True, s\<lparr>ss_redis := redis,
                     ss_events := ss_events s @ [Scheduled_fired now (event_trace tr i) (ts_id t)
                       (ts_agent t) (ts_runner t) job_id]\<rparr>))))"

definition reconcile_config :: "string set \<Rightarrow> int \<Rightarrow> sched_state \<Rightarrow> string list \<times> sched_state" where
  "reconcile_config loaded now s =
     (let orphans = filter (\<lambda>i. i \<notin> loaded) (sr_by_creator (ss_redis s) By_config) in
      (orphans, fold (\<lambda>i s. snd (delete_task i Config_reconcile None now s)) orphans s))"

section \<open>Runs and the index invariant\<close>

datatype sched_action =
    Upsert create_input string
  | Delete string cancelled_reason "string option"
  | Fire string string "string option"
  | Reconcile "string set"

fun sched_step :: "sched_env \<Rightarrow> int \<times> sched_action \<Rightarrow> sched_state \<Rightarrow> sched_state" where
  "sched_step env (now, Upsert input random) s = snd (upsert env input random now s)"
| "sched_step env (now, Delete i reason tr) s = snd (delete_task i reason tr now s)"
| "sched_step env (now, Fire i job_id tr) s = snd (record_fire env i job_id tr now s)"
| "sched_step env (now, Reconcile loaded) s = snd (reconcile_config loaded now s)"

definition sched_run :: "sched_env \<Rightarrow> (int \<times> sched_action) list \<Rightarrow> sched_state" where
  "sched_run env ops = fold (sched_step env) ops sched_empty"

text \<open>What holds of Redis whatever is done: records sit under their own id, the list of all ids
  and the next-fire order describe exactly the records, and every record is in the index sets of
  its creator, agent and trace.\<close>

definition indexed :: "sched_redis \<Rightarrow> sched_task \<Rightarrow> bool" where
  "indexed r t \<longleftrightarrow> ts_id t \<in> set (sr_by_creator r (ts_created_by t)) \<and>
     ts_id t \<in> set (sr_by_agent r (ts_agent t)) \<and>
     (case trace_tag t of None \<Rightarrow> True | Some x \<Rightarrow> ts_id t \<in> set (sr_by_trace r x))"

definition sched_inv :: "sched_redis \<Rightarrow> bool" where
  "sched_inv r \<longleftrightarrow>
     (\<forall>i t. map_of (sr_records r) i = Some t \<longrightarrow> ts_id t = i \<and> indexed r t) \<and>
     set (sr_all r) = dom (map_of (sr_records r)) \<and> distinct (sr_all r) \<and>
     (\<forall>n i. (n, i) \<in> set (sr_next r) \<longleftrightarrow>
        (\<exists>t. map_of (sr_records r) i = Some t \<and> ts_next_fire t = Some n)) \<and>
     sorted (sr_next r) \<and> distinct (map snd (sr_next r))"

lemma zadd_sorted: "sorted zs \<Longrightarrow> sorted (zadd n x zs)"
  by (simp add: zadd_def zrem_def sorted_insort sorted_filter[of "\<lambda>x. x", simplified])

lemma zrem_sorted: "sorted zs \<Longrightarrow> sorted (zrem x zs)"
  by (simp add: zrem_def sorted_filter[of "\<lambda>x. x", simplified])

lemma zrem_distinct: "distinct (map snd zs) \<Longrightarrow> distinct (map snd (zrem x zs))"
  by (simp add: zrem_def distinct_map_filter)

lemma zadd_distinct: "distinct (map snd zs) \<Longrightarrow> distinct (map snd (zadd n x zs))"
proof -
  assume "distinct (map snd zs)"
  then have "distinct (map snd (zrem x zs))" by (rule zrem_distinct)
  then have "distinct ((n, x) # zrem x zs)" "inj_on snd (set ((n, x) # zrem x zs))"
    by (auto simp: distinct_map inj_on_def)
  then show ?thesis
    by (simp add: distinct_map zadd_def distinct_insort set_insort_key)
qed

lemma persist_fields [simp]:
  "map_of (sr_records (persist t r)) = (map_of (sr_records r))(ts_id t \<mapsto> t)"
  "sr_all (persist t r) = sadd (ts_id t) (sr_all r)"
  "set (sr_by_creator (persist t r) c) =
     (if c = ts_created_by t then insert (ts_id t) (set (sr_by_creator r c)) else set (sr_by_creator r c))"
  "set (sr_by_agent (persist t r) a) =
     (if a = ts_agent t then insert (ts_id t) (set (sr_by_agent r a)) else set (sr_by_agent r a))"
  "sr_by_trace (persist t r) x =
     (if trace_tag t = Some x then sadd (ts_id t) (sr_by_trace r x) else sr_by_trace r x)"
  "sr_next (persist t r) = (case ts_next_fire t of Some n \<Rightarrow> zadd n (ts_id t) (sr_next r)
     | None \<Rightarrow> zrem (ts_id t) (sr_next r))"
  by (auto simp: persist_def split: option.split)

lemma remove_fields [simp]:
  "map_of (sr_records (remove_from_redis t r)) = (map_of (sr_records r))(ts_id t := None)"
  "sr_all (remove_from_redis t r) = srem (ts_id t) (sr_all r)"
  "set (sr_by_creator (remove_from_redis t r) c) =
     (if c = ts_created_by t then set (sr_by_creator r c) - {ts_id t} else set (sr_by_creator r c))"
  "set (sr_by_agent (remove_from_redis t r) a) =
     (if a = ts_agent t then set (sr_by_agent r a) - {ts_id t} else set (sr_by_agent r a))"
  "sr_by_trace (remove_from_redis t r) x =
     (if trace_tag t = Some x then srem (ts_id t) (sr_by_trace r x) else sr_by_trace r x)"
  "sr_next (remove_from_redis t r) = zrem (ts_id t) (sr_next r)"
  by (auto simp: remove_from_redis_def split: option.split)

lemma sched_inv_empty: "sched_inv (ss_redis sched_empty)"
  by (simp add: sched_inv_def sched_empty_def)

lemma indexed_persist: "indexed r t' \<or> t' = t \<Longrightarrow> indexed (persist t r) t'"
  by (auto simp: indexed_def split: option.splits)

lemma indexed_remove: "indexed r t' \<Longrightarrow> ts_id t' \<noteq> ts_id t \<Longrightarrow> indexed (remove_from_redis t r) t'"
  by (auto simp: indexed_def split: option.splits)

lemma sched_invI:
  assumes "\<And>i t. map_of (sr_records r) i = Some t \<Longrightarrow> ts_id t = i \<and> indexed r t"
    and "set (sr_all r) = dom (map_of (sr_records r))" and "distinct (sr_all r)"
    and "\<And>n i. (n, i) \<in> set (sr_next r) \<longleftrightarrow>
        (\<exists>t. map_of (sr_records r) i = Some t \<and> ts_next_fire t = Some n)"
    and "sorted (sr_next r)" and "distinct (map snd (sr_next r))"
  shows "sched_inv r"
  using assms unfolding sched_inv_def by blast

lemma sched_invD:
  assumes "sched_inv r"
  shows "map_of (sr_records r) i = Some t \<Longrightarrow> ts_id t = i \<and> indexed r t"
    and "set (sr_all r) = dom (map_of (sr_records r))" and "distinct (sr_all r)"
    and "(n, i) \<in> set (sr_next r) \<longleftrightarrow>
        (\<exists>t. map_of (sr_records r) i = Some t \<and> ts_next_fire t = Some n)"
    and "sorted (sr_next r)" and "distinct (map snd (sr_next r))"
  using assms unfolding sched_inv_def by blast+

lemma sched_inv_persist:
  assumes inv: "sched_inv r"
  shows "sched_inv (persist t r)"
proof (rule sched_invI)
  show "ts_id t' = i \<and> indexed (persist t r) t'" if "map_of (sr_records (persist t r)) i = Some t'" for i t'
    using that sched_invD(1)[OF inv, of i t'] indexed_persist[of r t' t] by (auto split: if_splits)
  show "set (sr_all (persist t r)) = dom (map_of (sr_records (persist t r)))"
    using sched_invD(2)[OF inv] by simp
  show "distinct (sr_all (persist t r))" using sched_invD(3)[OF inv] by simp
  show "(n, i) \<in> set (sr_next (persist t r)) \<longleftrightarrow>
      (\<exists>t'. map_of (sr_records (persist t r)) i = Some t' \<and> ts_next_fire t' = Some n)" for n i
    using sched_invD(4)[OF inv, of n i] by (auto split: option.splits)
  show "sorted (sr_next (persist t r))" "distinct (map snd (sr_next (persist t r)))"
    using sched_invD(5,6)[OF inv]
    by (simp_all add: zadd_sorted zrem_sorted zadd_distinct zrem_distinct split: option.split)
qed

lemma sched_inv_remove:
  assumes inv: "sched_inv r"
  shows "sched_inv (remove_from_redis t r)"
proof (rule sched_invI)
  show "ts_id t' = i \<and> indexed (remove_from_redis t r) t'"
    if "map_of (sr_records (remove_from_redis t r)) i = Some t'" for i t'
    using that sched_invD(1)[OF inv, of i t'] indexed_remove[of r t' t] by (auto split: if_splits)
  show "set (sr_all (remove_from_redis t r)) = dom (map_of (sr_records (remove_from_redis t r)))"
    using sched_invD(2)[OF inv] by auto
  show "distinct (sr_all (remove_from_redis t r))" using sched_invD(3)[OF inv] by simp
  show "(n, i) \<in> set (sr_next (remove_from_redis t r)) \<longleftrightarrow>
      (\<exists>t'. map_of (sr_records (remove_from_redis t r)) i = Some t' \<and> ts_next_fire t' = Some n)" for n i
    using sched_invD(4)[OF inv, of n i] by auto
  show "sorted (sr_next (remove_from_redis t r))" "distinct (map snd (sr_next (remove_from_redis t r)))"
    using sched_invD(5,6)[OF inv] by (simp_all add: zrem_sorted zrem_distinct)
qed

lemma sched_inv_delete: "sched_inv (ss_redis s) \<Longrightarrow> sched_inv (ss_redis (snd (delete_task i reason tr now s)))"
  by (auto simp: delete_task_def drop_task_def sched_inv_remove split: option.split)

lemma sched_inv_step: "sched_inv (ss_redis s) \<Longrightarrow> sched_inv (ss_redis (sched_step env op s))"
proof (induction env op s rule: sched_step.induct)
  case (1 env now input random s)
  then show ?case
    by (auto simp: upsert_def admit_def commit_def Let_def sched_inv_persist split: sum.split option.split)
next
  case (2 env now i reason tr s)
  then show ?case by (simp add: sched_inv_delete)
next
  case (3 env now i job_id tr s)
  then show ?case
    by (auto simp: record_fire_def drop_task_def Let_def sched_inv_persist sched_inv_remove split: option.split)
next
  case (4 env now loaded s)
  have "sched_inv (ss_redis (fold (\<lambda>i s. snd (delete_task i Config_reconcile None now s)) is s))" for "is"
    using 4 by (induction "is" arbitrary: s) (simp_all add: sched_inv_delete)
  then show ?case by (simp add: reconcile_config_def Let_def)
qed

interpretation sched_machine: invariant_machine "\<lambda>s. sched_inv (ss_redis s)" "sched_step env" for env
  by unfold_locales (rule sched_inv_step)

lemma sched_run_inv: "sched_inv (ss_redis (sched_run env ops))"
  unfolding sched_run_def by (rule sched_machine.inv_run) (rule sched_inv_empty)

section \<open>Exact indexes\<close>

text \<open>What an upsert says about the owner of its id: agent, creator, trace.\<close>

definition input_owner :: "create_input \<Rightarrow> string \<times> created_by \<times> string option" where
  "input_owner input = (ci_agent input, ci_created_by input,
     (case ci_trace input of Some (c # cs) \<Rightarrow> Some (c # cs) | _ \<Rightarrow> None))"

definition task_owner :: "sched_task \<Rightarrow> string \<times> created_by \<times> string option" where
  "task_owner t = (ts_agent t, ts_created_by t, trace_tag t)"

text \<open>Operations that never give an id to another owner.\<close>

fun owned :: "(string \<Rightarrow> string \<times> created_by \<times> string option) \<Rightarrow> int \<times> sched_action \<Rightarrow> bool" where
  "owned own (now, Upsert input random) \<longleftrightarrow> own (task_id_of input random) = input_owner input"
| "owned own _ \<longleftrightarrow> True"

definition exact_inv :: "(string \<Rightarrow> string \<times> created_by \<times> string option) \<Rightarrow> sched_redis \<Rightarrow> bool" where
  "exact_inv own r \<longleftrightarrow> sched_inv r \<and>
     (\<forall>i t. map_of (sr_records r) i = Some t \<longrightarrow> task_owner t = own i) \<and>
     (\<forall>a. \<forall>i \<in> set (sr_by_agent r a). map_of (sr_records r) i \<noteq> None \<and> fst (own i) = a) \<and>
     (\<forall>c. \<forall>i \<in> set (sr_by_creator r c). map_of (sr_records r) i \<noteq> None \<and> fst (snd (own i)) = c) \<and>
     (\<forall>x. distinct (sr_by_trace r x) \<and>
        (\<forall>i \<in> set (sr_by_trace r x). map_of (sr_records r) i \<noteq> None \<and> snd (snd (own i)) = Some x))"

lemma exact_members:
  assumes "exact_inv own r"
  shows "i \<in> set (sr_by_agent r a) \<Longrightarrow> map_of (sr_records r) i \<noteq> None \<and> fst (own i) = a"
    "i \<in> set (sr_by_creator r c) \<Longrightarrow> map_of (sr_records r) i \<noteq> None \<and> fst (snd (own i)) = c"
    "i \<in> set (sr_by_trace r x) \<Longrightarrow> map_of (sr_records r) i \<noteq> None \<and> snd (snd (own i)) = Some x"
  using assms by (simp_all add: exact_inv_def)

lemma owner_build_task: "task_owner (build_task env input i now e) = input_owner input"
  by (simp add: task_owner_def build_task_def input_owner_def trace_tag_def)

lemma exact_inv_persist:
  assumes "exact_inv own r" "task_owner t = own (ts_id t)"
  shows "exact_inv own (persist t r)"
  using assms sched_inv_persist[of r t]
  by (auto simp: exact_inv_def task_owner_def prod_eq_iff)

lemma exact_inv_remove:
  assumes "exact_inv own r" "task_owner t = own (ts_id t)"
  shows "exact_inv own (remove_from_redis t r)"
  using assms sched_inv_remove[of r t]
  by (auto simp: exact_inv_def task_owner_def prod_eq_iff)

lemma exact_record:
  "exact_inv own r \<Longrightarrow> map_of (sr_records r) i = Some t \<Longrightarrow> ts_id t = i \<and> task_owner t = own (ts_id t)"
  using sched_invD(1) by (fastforce simp: exact_inv_def)

lemma exact_inv_delete:
  "exact_inv own (ss_redis s) \<Longrightarrow> exact_inv own (ss_redis (snd (delete_task i reason tr now s)))"
  using exact_record[of own "ss_redis s" i]
  by (auto simp: delete_task_def drop_task_def get_by_id_def exact_inv_remove split: option.split)

lemma exact_inv_reconcile:
  "exact_inv own (ss_redis s) \<Longrightarrow>
   exact_inv own (ss_redis (fold (\<lambda>i s. snd (delete_task i Config_reconcile None now s)) is s))"
  by (induction "is" arbitrary: s) (simp_all add: exact_inv_delete)

lemma exact_inv_step:
  "exact_inv own (ss_redis s) \<Longrightarrow> owned own op \<Longrightarrow> exact_inv own (ss_redis (sched_step env op s))"
proof (induction env op s rule: sched_step.induct)
  case (1 env now input random s)
  then have "exact_inv own (persist (build_task env input (task_id_of input random) now e) (ss_redis s))" for e
    by (intro exact_inv_persist) (simp_all add: owner_build_task, simp add: build_task_def)
  with 1 show ?case
    by (auto simp: upsert_def admit_def commit_def Let_def split: sum.split option.split)
next
  case (2 env now i reason tr s)
  then show ?case by (simp add: exact_inv_delete)
next
  case (3 env now i job_id tr s)
  show ?case
  proof (cases "get_by_id s i")
    case None
    then show ?thesis using 3 by (simp add: record_fire_def)
  next
    case (Some t)
    then have t: "ts_id t = i" "task_owner t = own (ts_id t)"
      using exact_record[OF 3(1)] by (simp_all add: get_by_id_def)
    have "exact_inv own (persist (t\<lparr>ts_run_count := n, ts_next_fire := nf\<rparr>) (ss_redis s))" for n nf
      using 3 t by (intro exact_inv_persist) (simp_all add: task_owner_def trace_tag_def)
    then show ?thesis
      using Some 3 t exact_inv_remove[of own "ss_redis s" t]
      by (simp add: record_fire_def drop_task_def Let_def split: option.split)
  qed
next
  case (4 env now loaded s)
  then show ?case by (simp add: reconcile_config_def Let_def exact_inv_reconcile)
qed

lemma exact_inv_run: "list_all (owned own) ops \<Longrightarrow> exact_inv own (ss_redis (sched_run env ops))"
proof -
  have "exact_inv own (ss_redis s) \<Longrightarrow> list_all (owned own) ops \<Longrightarrow>
      exact_inv own (ss_redis (fold (sched_step env) ops s))" for s
    by (induction ops arbitrary: s) (simp_all add: exact_inv_step)
  moreover have "exact_inv own (ss_redis sched_empty)"
    by (simp add: exact_inv_def sched_inv_empty) (simp add: sched_empty_def)
  ultimately show "list_all (owned own) ops \<Longrightarrow> exact_inv own (ss_redis (sched_run env ops))"
    by (simp add: sched_run_def)
qed

text \<open>C12: As long as no id changes its owner, the index sets say exactly which live tasks an agent,
  a creator and a trace have, after any sequence of upserts, deletions, firings and
  reconciliations.\<close>

theorem indexes_exact:
  assumes "list_all (owned own) ops" and "r = ss_redis (sched_run env ops)"
  shows "(i \<in> set (sr_by_agent r a) \<longleftrightarrow> (\<exists>t. map_of (sr_records r) i = Some t \<and> ts_agent t = a)) \<and>
    (i \<in> set (sr_by_creator r c) \<longleftrightarrow> (\<exists>t. map_of (sr_records r) i = Some t \<and> ts_created_by t = c)) \<and>
    (i \<in> set (sr_by_trace r x) \<longleftrightarrow> (\<exists>t. map_of (sr_records r) i = Some t \<and> trace_tag t = Some x))"
proof -
  have ex: "exact_inv own r" using exact_inv_run assms by simp
  then have inv: "sched_inv r" by (simp add: exact_inv_def)
  have own: "ts_agent t = fst (own i) \<and> ts_created_by t = fst (snd (own i)) \<and> trace_tag t = snd (snd (own i))
      \<and> ts_id t = i \<and> indexed r t" if "map_of (sr_records r) i = Some t" for t
  proof -
    have "own i = (ts_agent t, ts_created_by t, trace_tag t)"
      using exact_record[OF ex that] by (simp add: task_owner_def)
    then show ?thesis using sched_invD(1)[OF inv that] by simp
  qed
  note members = exact_members(1)[OF ex, of i a] exact_members(2)[OF ex, of i c] exact_members(3)[OF ex, of i x]
  have into: "i \<in> set (sr_by_agent r (ts_agent t)) \<and> i \<in> set (sr_by_creator r (ts_created_by t)) \<and>
      (trace_tag t = Some x \<longrightarrow> i \<in> set (sr_by_trace r x))" if "map_of (sr_records r) i = Some t" for t
    using own[OF that] by (auto simp: indexed_def)
  show ?thesis
  proof (cases "map_of (sr_records r) i")
    case None
    then show ?thesis using members by auto
  next
    case (Some t)
    then show ?thesis using members own[OF Some] into[OF Some] by auto
  qed
qed


definition sample_input :: "string option \<Rightarrow> string \<Rightarrow> created_by \<Rightarrow> schedule_when \<Rightarrow> create_input" where
  "sample_input i agent creator w =
     \<lparr>ci_id = i, ci_agent = agent, ci_name = None, ci_when = w, ci_runner = ''claude-cli'',
      ci_config = JNull, ci_payload = None, ci_created_by = creator, ci_trace = Some ''t1'',
      ci_ttl = None, ci_max_runs = Some 2, ci_event_trace = None, ci_reason = None\<rparr>"

definition sample_sched_env :: "int \<Rightarrow> sched_env" where
  "sample_sched_env cap = \<lparr>se_caps = Some (cap, 1000), se_cron = (\<lambda>_ _ now. Some (now + 60))\<rparr>"

theorem indexes_exact_witness:
  "(''a-1'' \<in> set (sr_by_agent (ss_redis (sched_run (sample_sched_env 3)
        [(0, Upsert (sample_input (Some ''a-1'') ''a'' By_agent (Fire_at 500)) []), (600, Fire ''a-1'' ''j'' None)])) ''a'')
     \<longleftrightarrow> (\<exists>t. map_of (sr_records (ss_redis (sched_run (sample_sched_env 3)
        [(0, Upsert (sample_input (Some ''a-1'') ''a'' By_agent (Fire_at 500)) []), (600, Fire ''a-1'' ''j'' None)]))) ''a-1''
          = Some t \<and> ts_agent t = ''a''))"
  using indexes_exact[of "\<lambda>_. (''a'', By_agent, Some ''t1'')"
      "[(0, Upsert (sample_input (Some ''a-1'') ''a'' By_agent (Fire_at 500)) []), (600, Fire ''a-1'' ''j'' None)]"
      "ss_redis (sched_run (sample_sched_env 3)
        [(0, Upsert (sample_input (Some ''a-1'') ''a'' By_agent (Fire_at 500)) []), (600, Fire ''a-1'' ''j'' None)])"
      "sample_sched_env 3" "''a-1''" "''a''"]
  by (simp add: input_owner_def sample_input_def)

text \<open>Giving an id to another agent leaves it in the index of the first one.\<close>

lemma reowned_task_stays_indexed:
  "''x'' \<in> set (sr_by_agent (ss_redis (sched_run (sample_sched_env 3)
     [(0, Upsert (sample_input (Some ''x'') ''a'' By_config (Cron ''* * * * *'' None)) []),
      (1, Upsert (sample_input (Some ''x'') ''b'' By_config (Cron ''* * * * *'' None)) []),
      (2, Delete ''x'' Api_delete None)])) ''a'')"
  by code_simp

section \<open>Caps\<close>

lemma trace_length_persist:
  "length (sr_by_trace (persist t r) x) \<le> Suc (length (sr_by_trace r x))"
  "ts_id t \<in> set (sr_by_trace r x) \<Longrightarrow> length (sr_by_trace (persist t r) x) = length (sr_by_trace r x)"
  "trace_tag t \<noteq> Some x \<Longrightarrow> sr_by_trace (persist t r) x = sr_by_trace r x"
  by (auto simp: sadd_def)

lemma trace_length_remove: "length (sr_by_trace (remove_from_redis t r) x) \<le> length (sr_by_trace r x)"
  by (simp add: srem_def)

lemma trace_length_reconcile:
  "length (sr_by_trace (ss_redis (fold (\<lambda>i s. snd (delete_task i Config_reconcile None now s)) is s)) x)
     \<le> length (sr_by_trace (ss_redis s) x)"
proof (induction "is" arbitrary: s)
  case (Cons i "is")
  have "length (sr_by_trace (ss_redis (snd (delete_task i Config_reconcile None now s))) x)
      \<le> length (sr_by_trace (ss_redis s) x)"
    by (auto simp: delete_task_def drop_task_def srem_def split: option.split)
  with Cons[of "snd (delete_task i Config_reconcile None now s)"] show ?case
    by (simp add: order.trans)
qed simp

fun agent_creates :: "string \<Rightarrow> int \<times> sched_action \<Rightarrow> bool" where
  "agent_creates x (now, Upsert input random) \<longleftrightarrow> ci_trace input \<noteq> Some x \<or> ci_created_by input = By_agent"
| "agent_creates x _ \<longleftrightarrow> True"

lemma upsert_trace_tag:
  "trace_tag (build_task env input i now e) = Some x \<longleftrightarrow> ci_trace input = Some x \<and> x \<noteq> []"
  by (auto simp: build_task_def trace_tag_def split: option.splits list.splits)

lemma trace_cap_commit:
  assumes ex: "exact_inv own (ss_redis s)" and own: "own i = input_owner input"
    and ok: "admit env input i now s = Inr e"
    and ag: "ci_trace input \<noteq> Some x \<or> ci_created_by input = By_agent"
    and caps: "se_caps env = Some (cap, w)" "0 < cap" and x: "x \<noteq> []"
    and le: "int (length (sr_by_trace (ss_redis s) x)) \<le> cap"
  shows "int (length (sr_by_trace (persist (build_task env input i now e) (ss_redis s)) x)) \<le> cap"
proof (cases "ci_trace input = Some x")
  case False
  then show ?thesis
    using le trace_length_persist(3) upsert_trace_tag by metis
next
  case True
  let ?t = "build_task env input i now e"
  show ?thesis
  proof (cases "get_by_id s i")
    case None
    then have "int (length (sr_by_trace (ss_redis s) x)) < cap"
      using ok ag True caps x
      by (auto simp: admit_def enforce_caps_def Let_def split: if_splits option.splits schedule_when.splits)
    then show ?thesis using trace_length_persist(1)[of ?t "ss_redis s" x] by linarith
  next
    case (Some e')
    have "task_owner e' = task_owner ?t"
      using exact_record[OF ex, of i e'] Some own owner_build_task[of env input i now e]
      by (simp add: get_by_id_def)
    then have "trace_tag e' = trace_tag ?t" by (simp add: task_owner_def)
    then have "trace_tag e' = Some x" using upsert_trace_tag True x by simp
    moreover have "ts_id e' = i \<and> indexed (ss_redis s) e'"
      using ex Some sched_invD(1) by (fastforce simp: exact_inv_def get_by_id_def)
    ultimately have "ts_id ?t \<in> set (sr_by_trace (ss_redis s) x)"
      by (auto simp: indexed_def build_task_def)
    then show ?thesis using trace_length_persist(2) le by metis
  qed
qed

lemma trace_cap_step:
  assumes "se_caps env = Some (cap, w)" "0 < cap" and "x \<noteq> []"
  shows "exact_inv own (ss_redis s) \<Longrightarrow> owned own op \<Longrightarrow> agent_creates x op \<Longrightarrow>
    int (length (sr_by_trace (ss_redis s) x)) \<le> cap \<Longrightarrow>
    int (length (sr_by_trace (ss_redis (sched_step env op s)) x)) \<le> cap"
  using assms
proof (induction env op s rule: sched_step.induct)
  case (1 env now input random s)
  show ?case
  proof (cases "admit env input (task_id_of input random) now s")
    case (Inl err)
    then show ?thesis using 1 by (simp add: upsert_def)
  next
    case (Inr e)
    have "int (length (sr_by_trace (persist (build_task env input (task_id_of input random) now e)
        (ss_redis s)) x)) \<le> cap"
      by (rule trace_cap_commit[OF 1(1) _ Inr _ 1(5,6,7,4)]) (use 1 in simp_all)
    then show ?thesis using Inr 1(4) by (simp add: upsert_def commit_def Let_def)
  qed
next
  case (2 env now i reason tr s)
  then show ?case by (auto simp: delete_task_def drop_task_def srem_def le_trans split: option.split
      intro: order.trans[OF of_nat_mono[OF length_filter_le]])
next
  case (3 env now i job_id tr s)
  show ?case
  proof (cases "get_by_id s i")
    case None
    then show ?thesis using 3 by (simp add: record_fire_def)
  next
    case (Some t)
    have rem: "int (length (sr_by_trace (remove_from_redis t (ss_redis s)) x)) \<le> cap"
      using 3(4) trace_length_remove[of t "ss_redis s" x] by linarith
    have "indexed (ss_redis s) t"
      using 3(1) Some sched_invD(1) by (fastforce simp: exact_inv_def get_by_id_def)
    then have "length (sr_by_trace (persist (t\<lparr>ts_run_count := n, ts_next_fire := nf\<rparr>) (ss_redis s)) x)
        = length (sr_by_trace (ss_redis s) x)" for n nf
      by (auto simp: indexed_def trace_tag_def sadd_def)
    then show ?thesis
      using Some 3(4) rem by (simp add: record_fire_def drop_task_def Let_def split: option.split)
  qed
next
  case (4 env now loaded s)
  then show ?case
    using trace_length_reconcile[of now "filter (\<lambda>i. i \<notin> loaded) (sr_by_creator (ss_redis s) By_config)" s x]
    by (simp add: reconcile_config_def Let_def)
qed




text \<open>The count and the write are separate round trips: two upserts that both count before either
  writes pass a cap of one.\<close>

lemma trace_cap_race:
  "let env = sample_sched_env 1;
       first = sample_input (Some ''p'') ''a'' By_agent (Fire_at 500);
       second = sample_input (Some ''q'') ''a'' By_agent (Fire_at 500)
   in admit env first ''p'' 0 sched_empty = Inr None \<and> admit env second ''q'' 0 sched_empty = Inr None \<and>
      length (sr_by_trace (ss_redis (snd (commit env second ''q'' 0 None
        (snd (commit env first ''p'' 0 None sched_empty))))) ''t1'') = 2"
  by code_simp

text \<open>Ids are cut at 32 characters: from an agent whose name is that long, every task gets the same
  id, whatever the random part, and overwrites the one before.\<close>

lemma long_agent_ids_collide:
  "32 \<le> length agent \<Longrightarrow> make_agent_task_id agent r = make_agent_task_id agent r'"
  by (simp add: make_agent_task_id_def)

section \<open>Firing\<close>

fun is_fired :: "string \<Rightarrow> scheduled_event \<Rightarrow> bool" where
  "is_fired i (Scheduled_fired _ _ j _ _ _) = (j = i)"
| "is_fired i _ = False"

definition fires :: "string \<Rightarrow> sched_state \<Rightarrow> nat" where
  "fires i s = length (filter (is_fired i) (ss_events s))"

text \<open>How often a task may still fire: once at a fixed time, or the rest of its runs.\<close>

definition budget :: "string \<Rightarrow> sched_state \<Rightarrow> nat" where
  "budget i s =
     (case get_by_id s i of
        None \<Rightarrow> 0
      | Some t \<Rightarrow>
          (case ts_when t of
             Fire_at _ \<Rightarrow> 1
           | Cron _ _ \<Rightarrow> (case ts_max_runs t of Some n \<Rightarrow> nat (n - ts_run_count t) | None \<Rightarrow> 0)))"

definition limited :: "string \<Rightarrow> sched_state \<Rightarrow> bool" where
  "limited i s \<longleftrightarrow> sched_inv (ss_redis s) \<and>
     (case get_by_id s i of
        None \<Rightarrow> True
      | Some t \<Rightarrow> is_cron_when (ts_when t) \<longrightarrow> ts_max_runs t \<noteq> None)"

fun creates :: "string \<Rightarrow> int \<times> sched_action \<Rightarrow> bool" where
  "creates i (now, Upsert input random) \<longleftrightarrow> task_id_of input random = i"
| "creates i _ \<longleftrightarrow> False"

definition within_budget :: "string \<Rightarrow> sched_state \<Rightarrow> sched_state \<Rightarrow> bool" where
  "within_budget i s s' \<longleftrightarrow> limited i s' \<and> fires i s' + budget i s' \<le> fires i s + budget i s"

lemma within_budgetI_same:
  assumes "limited i s" "sched_inv (ss_redis s')"
    and "get_by_id s' i = get_by_id s i \<or> get_by_id s' i = None" and "fires i s' = fires i s"
  shows "within_budget i s s'"
  using assms by (auto simp: within_budget_def limited_def budget_def split: option.splits)

lemma within_budget_delete:
  assumes "limited i s"
  shows "within_budget i s (snd (delete_task j reason tr now s))"
proof (rule within_budgetI_same[OF assms])
  have inv: "sched_inv (ss_redis s)" using assms by (simp add: limited_def)
  then show "sched_inv (ss_redis (snd (delete_task j reason tr now s)))" by (rule sched_inv_delete)
  show "get_by_id (snd (delete_task j reason tr now s)) i = get_by_id s i \<or>
      get_by_id (snd (delete_task j reason tr now s)) i = None"
    by (auto simp: delete_task_def drop_task_def get_by_id_def split: option.split)
  show "fires i (snd (delete_task j reason tr now s)) = fires i s"
    by (auto simp: delete_task_def drop_task_def fires_def split: option.split)
qed

lemma within_budget_trans: "within_budget i s s' \<Longrightarrow> within_budget i s' s'' \<Longrightarrow> within_budget i s s''"
  by (auto simp: within_budget_def)

lemma within_budget_fire:
  assumes "limited i s"
  shows "within_budget i s (snd (record_fire env j job_id tr now s))"
proof -
  have inv: "sched_inv (ss_redis s)" using assms by (simp add: limited_def)
  let ?s = "snd (record_fire env j job_id tr now s)"
  have inv': "sched_inv (ss_redis ?s)" using sched_inv_step[OF inv, of env "(now, Fire j job_id tr)"] by simp
  show ?thesis
  proof (cases "get_by_id s j")
    case None
    then show ?thesis using assms by (simp add: record_fire_def within_budget_def)
  next
    case (Some t)
    have tid: "ts_id t = j" using sched_invD(1)[OF inv] Some by (simp add: get_by_id_def)
    show ?thesis
    proof (cases "check_expired t now")
      case (Some reason)
      then show ?thesis
        using \<open>get_by_id s j = Some t\<close> inv' tid
        by (intro within_budgetI_same[OF assms])
          (auto simp: record_fire_def drop_task_def get_by_id_def fires_def)
    next
      case None
      have alive: "ts_max_runs t = Some n \<Longrightarrow> ts_run_count t < n" for n
        using None by (auto simp: check_expired_def split: if_splits option.splits)
      show ?thesis
      proof (cases "j = i")
        case False
        then show ?thesis
          using Some None inv' tid
          by (intro within_budgetI_same[OF assms])
            (auto simp: record_fire_def get_by_id_def fires_def Let_def)
      next
        case True
        have f: "fires i ?s = Suc (fires i s)"
          using Some None True tid by (simp add: record_fire_def fires_def Let_def)
        have "limited i ?s \<and> Suc (budget i ?s) = budget i s"
        proof (cases "ts_when t")
          case (Cron c tz)
          then obtain n where n: "ts_max_runs t = Some n"
            using assms Some True by (auto simp: limited_def)
          then show ?thesis
            using Some None True tid Cron inv' alive[OF n]
            by (auto simp: limited_def budget_def record_fire_def get_by_id_def Let_def)
        next
          case (Fire_at due)
          then show ?thesis
            using Some None True tid inv'
            by (simp add: limited_def budget_def record_fire_def get_by_id_def Let_def)
        qed
        with f show ?thesis by (simp add: within_budget_def)
      qed
    qed
  qed
qed

lemma within_budget_upsert:
  assumes "limited i s" "task_id_of input random \<noteq> i"
  shows "within_budget i s (snd (upsert env input random now s))"
proof (rule within_budgetI_same[OF assms(1)])
  have "sched_inv (ss_redis s)" using assms by (simp add: limited_def)
  then show "sched_inv (ss_redis (snd (upsert env input random now s)))"
    using sched_inv_step[of s env "(now, Upsert input random)"] by simp
  show "get_by_id (snd (upsert env input random now s)) i = get_by_id s i \<or>
      get_by_id (snd (upsert env input random now s)) i = None"
    using assms(2)
    by (auto simp: upsert_def commit_def Let_def get_by_id_def build_task_def split: sum.split)
  show "fires i (snd (upsert env input random now s)) = fires i s"
    by (auto simp: upsert_def commit_def Let_def fires_def created_event_def split: sum.split)
qed

lemma within_budget_step:
  "limited i s \<Longrightarrow> \<not> creates i op \<Longrightarrow> within_budget i s (sched_step env op s)"
proof (induction env op s rule: sched_step.induct)
  case (4 env now loaded s)
  have "limited i s \<Longrightarrow>
      within_budget i s (fold (\<lambda>i s. snd (delete_task i Config_reconcile None now s)) is s)" for "is" s
  proof (induction "is" arbitrary: s)
    case Nil
    then show ?case by (simp add: within_budget_def)
  next
    case (Cons j "is")
    have first: "within_budget i s (snd (delete_task j Config_reconcile None now s))"
      by (rule within_budget_delete[OF Cons.prems])
    then have "limited i (snd (delete_task j Config_reconcile None now s))" by (simp add: within_budget_def)
    from within_budget_trans[OF first Cons.IH[OF this]] show ?case by simp
  qed
  with 4 show ?case by (simp add: reconcile_config_def Let_def)
qed (simp_all add: within_budget_upsert within_budget_delete within_budget_fire)

lemma fires_mono: "fires i s \<le> fires i (sched_step env op s)"
proof (induction env op s rule: sched_step.induct)
  case (4 env now loaded s)
  have "fires i s \<le> fires i (fold (\<lambda>i s. snd (delete_task i Config_reconcile None now s)) is s)" for "is" s
  proof (induction "is" arbitrary: s)
    case (Cons j "is")
    have "fires i s \<le> fires i (snd (delete_task j Config_reconcile None now s))"
      by (simp add: delete_task_def drop_task_def fires_def split: option.split)
    then show ?case using Cons.IH order_trans by fastforce
  qed simp
  then show ?case by (simp add: reconcile_config_def Let_def)
qed (auto simp: upsert_def commit_def delete_task_def record_fire_def drop_task_def fires_def Let_def
    split: option.split sum.split)

text \<open>C9: A task never fires more often than it may: over any operations that do not create it
  anew, a one-shot task fires at most once and a recurring one at most for the runs it has left,
  whatever deletions, expiries and repeated pickups happen.\<close>

theorem fires_within_budget:
  assumes "limited i s" and "list_all (\<lambda>op. \<not> creates i op) ops"
  shows "fires i (fold (sched_step env) ops s) \<le> fires i s + budget i s"
proof -
  have "within_budget i s (fold (sched_step env) ops s)" if "limited i s" for s
    using that assms(2)
  proof (induction ops arbitrary: s)
    case Nil
    then show ?case by (simp add: within_budget_def)
  next
    case (Cons op ops)
    have first: "within_budget i s (sched_step env op s)"
      using within_budget_step Cons.prems by simp
    then have "limited i (sched_step env op s)" by (simp add: within_budget_def)
    from within_budget_trans[OF first Cons.IH[OF this]] show ?case using Cons.prems(2) by simp
  qed
  then show ?thesis using assms(1) by (simp add: within_budget_def) (meson add_leD1 order.trans)
qed


lemma sample_cron_limited:
  "limited ''x'' (sched_run (sample_sched_env 3)
     [(0, Upsert (sample_input (Some ''x'') ''a'' By_agent (Cron ''* * * * *'' None)) [])])"
  unfolding limited_def by (rule conjI, rule sched_run_inv) code_simp

theorem fires_within_budget_witness:
  "fires ''x'' (fold (sched_step (sample_sched_env 3))
      [(60, Fire ''x'' ''j1'' None), (120, Fire ''x'' ''j2'' None), (180, Fire ''x'' ''j3'' None)]
      (sched_run (sample_sched_env 3) [(0, Upsert (sample_input (Some ''x'') ''a'' By_agent (Cron ''* * * * *'' None)) [])]))
   \<le> fires ''x'' (sched_run (sample_sched_env 3) [(0, Upsert (sample_input (Some ''x'') ''a'' By_agent (Cron ''* * * * *'' None)) [])])
     + budget ''x'' (sched_run (sample_sched_env 3) [(0, Upsert (sample_input (Some ''x'') ''a'' By_agent (Cron ''* * * * *'' None)) [])])"
  by (rule fires_within_budget[OF sample_cron_limited]) simp

section \<open>Reconciliation\<close>

lemma reconcile_records:
  "get_by_id (fold (\<lambda>i s. snd (delete_task i Config_reconcile None now s)) is s) j =
     (if j \<in> set is then None else get_by_id s j)" if "sched_inv (ss_redis s)"
  using that
proof (induction "is" arbitrary: s)
  case (Cons i "is")
  have "sched_inv (ss_redis (snd (delete_task i Config_reconcile None now s)))"
    by (rule sched_inv_delete[OF Cons.prems])
  moreover have "get_by_id (snd (delete_task i Config_reconcile None now s)) j = (if j = i then None else get_by_id s j)"
    using sched_invD(1)[OF Cons.prems, of i]
    by (auto simp: delete_task_def drop_task_def get_by_id_def split: option.split)
  ultimately show ?case using Cons.IH by (cases "j = i") simp_all
qed simp

lemma reconcile_exact:
  assumes ex: "exact_inv own (ss_redis s)"
  shows "get_by_id (snd (reconcile_config loaded now s)) j =
    (case get_by_id s j of
       None \<Rightarrow> None
     | Some t \<Rightarrow> if ts_created_by t = By_config \<and> j \<notin> loaded then None else Some t)"
proof -
  have inv: "sched_inv (ss_redis s)" using ex by (simp add: exact_inv_def)
  have "j \<in> set (sr_by_creator (ss_redis s) By_config) \<longleftrightarrow>
      (\<exists>t. get_by_id s j = Some t \<and> ts_created_by t = By_config)"
  proof (cases "get_by_id s j")
    case None
    then show ?thesis using exact_members(2)[OF ex, of j By_config] by (auto simp: get_by_id_def)
  next
    case (Some t)
    then have "ts_id t = j" "indexed (ss_redis s) t" "task_owner t = own j"
      using sched_invD(1)[OF inv] exact_record[OF ex] by (simp_all add: get_by_id_def)
    then show ?thesis
      using Some exact_members(2)[OF ex, of j By_config] by (auto simp: indexed_def task_owner_def prod_eq_iff)
  qed
  then show ?thesis
    using reconcile_records[OF inv, of now _ j]
    by (auto simp: reconcile_config_def Let_def split: option.split)
qed

text \<open>Reconciling with the ids the configuration produced removes exactly the config-created
  tasks that are not among them, and touches no agent-created task.\<close>

theorem reconcile_removes_orphans:
  assumes "list_all (owned own) ops"
  shows "get_by_id (sched_step env (now, Reconcile loaded) (sched_run env ops)) j =
    (case get_by_id (sched_run env ops) j of
       None \<Rightarrow> None
     | Some t \<Rightarrow> if ts_created_by t = By_config \<and> j \<notin> loaded then None else Some t)"
  using reconcile_exact[OF exact_inv_run[OF assms]] by simp

theorem reconcile_removes_orphans_witness:
  "get_by_id (sched_step (sample_sched_env 3) (9, Reconcile {})
      (sched_run (sample_sched_env 3) [(0, Upsert (sample_input (Some ''x'') ''a'' By_config (Fire_at 500)) [])])) ''x'' =
    (case get_by_id (sched_run (sample_sched_env 3) [(0, Upsert (sample_input (Some ''x'') ''a'' By_config (Fire_at 500)) [])]) ''x'' of
       None \<Rightarrow> None
     | Some t \<Rightarrow> if ts_created_by t = By_config \<and> ''x'' \<notin> {} then None else Some t)"
  by (rule reconcile_removes_orphans[of "\<lambda>_. (''a'', By_config, Some ''t1'')"])
    (simp add: input_owner_def sample_input_def)

section \<open>Listing\<close>

record list_filters =
  lf_creator :: "created_by option"
  lf_agent :: "string option"
  lf_trace :: "string option"

definition nonempty :: "string option \<Rightarrow> string list" where
  "nonempty s = (case s of Some (c # cs) \<Rightarrow> [c # cs] | _ \<Rightarrow> [])"

definition active_filter_sets :: "list_filters \<Rightarrow> sched_redis \<Rightarrow> string list list" where
  "active_filter_sets f r =
     (case lf_creator f of Some c \<Rightarrow> [sr_by_creator r c] | None \<Rightarrow> [])
     @ map (sr_by_agent r) (nonempty (lf_agent f)) @ map (sr_by_trace r) (nonempty (lf_trace f))"

text \<open>The intersection of the active index sets; no active filter admits every id.\<close>

definition is_candidate :: "list_filters \<Rightarrow> sched_redis \<Rightarrow> string \<Rightarrow> bool" where
  "is_candidate f r i = list_all (\<lambda>ids. i \<in> set ids) (active_filter_sets f r)"

definition collect_filtered_ids :: "list_filters \<Rightarrow> sched_redis \<Rightarrow> string list" where
  "collect_filtered_ids f r =
     (let by_fire = filter (is_candidate f r) (map snd (sr_next r))
      in by_fire @ filter (\<lambda>i. i \<notin> set by_fire \<and> is_candidate f r i) (sr_all r))"

definition clamp_limit :: "int option \<Rightarrow> nat" where
  "clamp_limit limit = (case limit of None \<Rightarrow> 50 | Some n \<Rightarrow> if n \<le> 0 then 50 else nat (min n 200))"

definition encode_cursor :: "nat \<Rightarrow> string" where
  "encode_cursor offset = encode_base64url (json_stringify (JObj [(''o'', JNum (int offset))]))"

definition decode_cursor :: "string option \<Rightarrow> nat" where
  "decode_cursor cursor =
     (case cursor of
        Some (c # cs) \<Rightarrow>
          (case json_parse (decode_base64 (c # cs)) of
             Some (JObj ps) \<Rightarrow> (case map_of ps ''o'' of Some (JNum n) \<Rightarrow> if n < 0 then 0 else nat n | _ \<Rightarrow> 0)
           | _ \<Rightarrow> 0)
      | _ \<Rightarrow> 0)"

definition list_page :: "list_filters \<Rightarrow> string option \<Rightarrow> int option \<Rightarrow> sched_redis \<Rightarrow>
    sched_task list \<times> string option" where
  "list_page f cursor limit r =
     (let offset = decode_cursor cursor;
          ids = collect_filtered_ids f r;
          page = take (clamp_limit limit) (drop offset ids);
          next_offset = offset + length page
      in (load_many r page, if next_offset < length ids then Some (encode_cursor next_offset) else None))"

text \<open>A client that follows the cursors; the flag says it reached the last page.\<close>

fun walk_pages :: "nat \<Rightarrow> list_filters \<Rightarrow> string option \<Rightarrow> int option \<Rightarrow> sched_redis \<Rightarrow>
    bool \<times> sched_task list" where
  "walk_pages 0 f cursor limit r = (False, [])"
| "walk_pages (Suc n) f cursor limit r =
     (case list_page f cursor limit r of
        (tasks, None) \<Rightarrow> (True, tasks)
      | (tasks, Some c) \<Rightarrow> (case walk_pages n f (Some c) limit r of (fin, others) \<Rightarrow> (fin, tasks @ others)))"

lemma cursor_roundtrip: "decode_cursor (Some (encode_cursor n)) = n"
proof -
  have dec: "decode_base64 (encode_cursor n) = json_stringify (JObj [(''o'', JNum (int n))])"
    by (simp only: encode_cursor_def decode_encode_base64url)
  then have "encode_cursor n \<noteq> []"
    by (auto simp: decode_base64_def bytes_of_bits_def map_filter_def)
  then obtain c cs where e: "encode_cursor n = c # cs" by (cases "encode_cursor n") auto
  have "json_parse (json_stringify (JObj [(''o'', JNum (int n))])) = Some (JObj [(''o'', JNum (int n))])"
    by (rule json_parse_stringify) simp
  then show ?thesis using dec unfolding e by (simp add: decode_cursor_def)
qed

lemma clamp_limit_bounds: "0 < clamp_limit l \<and> clamp_limit l \<le> 200"
  by (auto simp: clamp_limit_def split: option.split)

lemma load_many_append: "load_many r (xs @ ys) = load_many r xs @ load_many r ys"
  by (induction xs) (auto simp: load_many_def map_filter_simps split: option.splits)

lemma walk_from:
  assumes "decode_cursor c = k" and "length (collect_filtered_ids f r) - k < n"
  shows "walk_pages n f c limit r = (True, load_many r (drop k (collect_filtered_ids f r)))"
  using assms
proof (induction n arbitrary: c k)
  case (Suc n)
  let ?ids = "collect_filtered_ids f r" and ?m = "clamp_limit limit"
  let ?next = "k + length (take ?m (drop k ?ids))"
  show ?case
  proof (cases "?next < length ?ids")
    case True
    then have next_is: "?next = k + ?m" and room: "k + ?m < length ?ids" by (simp_all add: min_def split: if_splits)
    have "walk_pages n f (Some (encode_cursor ?next)) limit r = (True, load_many r (drop ?next ?ids))"
      using Suc.prems room clamp_limit_bounds[of limit]
      by (intro Suc.IH cursor_roundtrip) (simp only: next_is, linarith)
    then show ?thesis
      using True Suc.prems(1) unfolding next_is
      by (simp add: list_page_def Let_def add.commute[of k] flip: load_many_append drop_drop)
  next
    case False
    then have "take ?m (drop k ?ids) = drop k ?ids" by (simp add: min_def split: if_splits)
    then show ?thesis using False Suc.prems(1) by (simp add: list_page_def Let_def)
  qed
qed simp

lemma collect_filtered_ids_inv:
  assumes "sched_inv r"
  shows "distinct (collect_filtered_ids f r)"
    and "set (collect_filtered_ids f r) = {i \<in> dom (map_of (sr_records r)). is_candidate f r i}"
proof -
  note inv = sched_invD[OF assms]
  have "snd ` set (sr_next r) \<subseteq> dom (map_of (sr_records r))" using inv(4) by fastforce
  then show "distinct (collect_filtered_ids f r)"
    and "set (collect_filtered_ids f r) = {i \<in> dom (map_of (sr_records r)). is_candidate f r i}"
    using inv(2,3,6) by (auto simp: collect_filtered_ids_def Let_def)
qed

lemma load_many_ids:
  "sched_inv r \<Longrightarrow> set ids \<subseteq> dom (map_of (sr_records r)) \<Longrightarrow>
   map ts_id (load_many r ids) = ids \<and> set (load_many r ids) = {t. \<exists>i \<in> set ids. map_of (sr_records r) i = Some t}"
proof (induction ids)
  case Nil
  then show ?case by (simp add: load_many_def map_filter_simps)
next
  case (Cons i ids)
  then obtain t where "map_of (sr_records r) i = Some t" by auto
  then show ?case
    using Cons sched_invD(1)[OF Cons.prems(1), of i t] by (auto simp: load_many_def map_filter_simps)
qed

text \<open>Following the cursors lists every task that passes the filters exactly once, whatever
  the page limit asked for, and the walk ends.\<close>

theorem pages_cover:
  "case walk_pages (Suc (length (collect_filtered_ids f (ss_redis (sched_run env ops))))) f None limit
      (ss_redis (sched_run env ops)) of (fin, tasks) \<Rightarrow>
     fin \<and> distinct (map ts_id tasks) \<and>
     set tasks = {t. \<exists>i. get_by_id (sched_run env ops) i = Some t \<and>
       is_candidate f (ss_redis (sched_run env ops)) i}"
proof -
  let ?r = "ss_redis (sched_run env ops)"
  note ids = collect_filtered_ids_inv[OF sched_run_inv[of env ops], of f]
  have "walk_pages (Suc (length (collect_filtered_ids f ?r))) f None limit ?r
      = (True, load_many ?r (collect_filtered_ids f ?r))"
    using walk_from[of None 0 f ?r "Suc (length (collect_filtered_ids f ?r))" limit]
    by (simp add: decode_cursor_def)
  moreover have "map ts_id (load_many ?r (collect_filtered_ids f ?r)) = collect_filtered_ids f ?r"
    "set (load_many ?r (collect_filtered_ids f ?r))
      = {t. \<exists>i \<in> set (collect_filtered_ids f ?r). map_of (sr_records ?r) i = Some t}"
    using load_many_ids[OF sched_run_inv[of env ops]] ids(2) by blast+
  ultimately show ?thesis using ids by (auto simp: get_by_id_def)
qed

section \<open>The HTTP handlers\<close>

text \<open>\<open>controllers/scheduled-tasks.controller.ts\<close>, on requests whose body has passed its schema.\<close>

definition parse_limit :: "string option \<Rightarrow> int option" where
  "parse_limit raw =
     (case raw of
        None \<Rightarrow> None
      | Some s \<Rightarrow> (case parse_int10 s of
                    None \<Rightarrow> None
                  | Some n \<Rightarrow> if n \<le> 0 then None else Some (min n 200)))"

fun cap_status :: "sched_error \<Rightarrow> nat" where
  "cap_status (Per_trace_cap limit observed) = 429"
| "cap_status (Future_window_cap limit observed) = 422"
| "cap_status Schema_rejected = 500"

definition delete_scheduled_task :: "string option \<Rightarrow> string option \<Rightarrow> int \<Rightarrow> sched_state \<Rightarrow>
    nat \<times> sched_state" where
  "delete_scheduled_task id_param caller now s =
     (case id_param of
        None \<Rightarrow> (400, s)
      | Some i \<Rightarrow>
          (case (caller, get_by_id s i) of
             (Some a, None) \<Rightarrow> (404, s)
           | (Some a, Some t) \<Rightarrow>
               if ts_agent t \<noteq> a then (403, s)
               else (case delete_task i Api_delete None now s of
                       (removed, s') \<Rightarrow> (if removed then 204 else 404, s'))
           | (None, _) \<Rightarrow>
               (case delete_task i Api_delete None now s of
                  (removed, s') \<Rightarrow> (if removed then 204 else 404, s'))))"

record prompt_request =
  pr_agent :: string
  pr_prompt :: string
  pr_use_memory :: "json option"
  pr_tools :: "json option"
  pr_context :: "(string \<times> json) list option"
  pr_name :: "string option"
  pr_when :: schedule_when
  pr_ttl :: "int option"
  pr_max_runs :: "int option"
  pr_trace :: string

text \<open>The payload literal: the context is spread last, over the members before it.\<close>

definition prompt_payload :: "prompt_request \<Rightarrow> json" where
  "prompt_payload q =
     JObj (fold (\<lambda>(k, v). AList.update k v) (case pr_context q of Some c \<Rightarrow> c | None \<Rightarrow> [])
       ([(''directPrompt'', JStr (pr_prompt q))]
        @ (case pr_use_memory q of Some m \<Rightarrow> [(''useMemory'', m)] | None \<Rightarrow> [])
        @ (case pr_tools q of Some t \<Rightarrow> [(''tools'', t)] | None \<Rightarrow> [])))"

definition schedule_prompt :: "sched_env \<Rightarrow> (string \<times> string) list \<Rightarrow> prompt_request \<Rightarrow> string \<Rightarrow> int \<Rightarrow>
    sched_state \<Rightarrow> nat \<times> sched_state" where
  "schedule_prompt env agent_dirs q random now s =
     (case map_of agent_dirs (pr_agent q) of
        None \<Rightarrow> (404, s)
      | Some dir \<Rightarrow>
          (case upsert env
              \<lparr>ci_id = None, ci_agent = pr_agent q, ci_name = pr_name q, ci_when = pr_when q,
               ci_runner = ''claude-cli'',
               ci_config = JObj [(''type'', JStr ''claude-cli''), (''workDirectory'', JStr dir)],
               ci_payload = Some (prompt_payload q), ci_created_by = By_agent,
               ci_trace = Some (pr_trace q), ci_ttl = pr_ttl q, ci_max_runs = pr_max_runs q,
               ci_event_trace = None, ci_reason = Some Api_create\<rparr> random now s of
             (Inl e, s') \<Rightarrow> (cap_status e, s')
           | (Inr t, s') \<Rightarrow> (201, s')))"

text \<open>A caller that names itself can only delete its own tasks; a refusal changes nothing and
  publishes nothing.\<close>

lemma delete_ownership:
  "fst (delete_scheduled_task (Some i) (Some a) now s) = 204 \<longleftrightarrow>
     (\<exists>t. get_by_id s i = Some t \<and> ts_agent t = a)"
  "fst (delete_scheduled_task p c now s) \<noteq> 204 \<Longrightarrow> snd (delete_scheduled_task p c now s) = s"
  by (auto simp: delete_scheduled_task_def delete_task_def split: option.splits if_splits prod.splits)

text \<open>The context may replace the prompt it comes with.\<close>

lemma context_replaces_prompt:
  "prompt_payload q = JObj [(''directPrompt'', JStr ''other'')]"
  if "pr_context q = Some [(''directPrompt'', JStr ''other'')]" "pr_use_memory q = None" "pr_tools q = None"
  using that by (simp add: prompt_payload_def)

end
