(* ===== verification/Sessions.thy ===== *)
theory Sessions
  imports EventBus SessionKey
begin

text \<open>
  The session pool (\<open>services/session-pool.service.ts\<close>): warm \<open>claude-cli\<close> subprocesses, one per
  conversation, at most \<open>maxSessions\<close> of them, least recently used evicted first; session ids
  are kept in Redis so that a later event resumes the conversation. \<open>acquire\<close> awaits Redis between
  making room and spawning, so it is two steps here, and a step sequence may put others in
  between. A subprocess is a number, the index of its record; what it prints and when it exits are
  steps of the environment.
\<close>

section \<open>State\<close>

record session =
  sn_provider :: string
  sn_key :: string
  sn_running :: bool
  sn_closing :: bool
  sn_id :: "string option"
  sn_prior :: "string option"
  sn_ready :: bool
  sn_pending :: bool
  sn_batch :: "json list"
  sn_delivered :: "json list list"
  sn_ttl :: millis

text \<open>\<open>sn_running\<close> is \<open>exitCode === null\<close>, \<open>sn_closing\<close> that its standard input was ended,
  \<open>sn_batch\<close> is \<open>turnEvents\<close> and \<open>sn_delivered\<close> the batches turns were resolved with.\<close>

record acquire_request =
  aq_provider :: string
  aq_key :: string
  aq_ttl :: millis

record pool =
  pl_active :: "(string, nat) jsmap"
  pl_sessions :: "session list"
  pl_redis :: "(string, string \<times> int) jsmap"
  pl_lookups :: "acquire_request list"
  pl_max :: nat
  pl_shut :: bool
  pl_events :: "session_event list"

definition new_pool :: "nat option \<Rightarrow> pool" where
  "new_pool max_sessions = \<lparr>pl_active = [], pl_sessions = [], pl_redis = [], pl_lookups = [],
     pl_max = (case max_sessions of Some n \<Rightarrow> n | None \<Rightarrow> 8), pl_shut = False, pl_events = []\<rparr>"

definition build_composite_key :: "string \<Rightarrow> string \<Rightarrow> string" where
  "build_composite_key provider key = provider @ '':'' @ key"

definition build_redis_key :: "string \<Rightarrow> string \<Rightarrow> string" where
  "build_redis_key provider key = ''session:'' @ provider @ '':'' @ key"

definition build_cli_args :: "string option \<Rightarrow> string option \<Rightarrow> string list" where
  "build_cli_args resume model =
     [''--print'', ''--input-format'', ''stream-json'', ''--output-format'', ''stream-json'',
      ''--verbose'', ''--dangerously-skip-permissions'']
     @ (case resume of Some i \<Rightarrow> [''--resume'', i] | None \<Rightarrow> [])
     @ (case model of Some m \<Rightarrow> [''--model'', m] | None \<Rightarrow> [])"

definition request_composite :: "acquire_request \<Rightarrow> string" where
  "request_composite q = build_composite_key (aq_provider q) (aq_key q)"

definition session_composite :: "session \<Rightarrow> string" where
  "session_composite x = build_composite_key (sn_provider x) (sn_key x)"

definition upd :: "nat \<Rightarrow> (session \<Rightarrow> session) \<Rightarrow> pool \<Rightarrow> pool" where
  "upd i f p = (if i < length (pl_sessions p)
     then p\<lparr>pl_sessions := (pl_sessions p)[i := f (pl_sessions p ! i)]\<rparr> else p)"

definition publish_session :: "session_event \<Rightarrow> pool \<Rightarrow> pool" where
  "publish_session e p = p\<lparr>pl_events := pl_events p @ [e]\<rparr>"

section \<open>Acquire\<close>

text \<open>\<open>if (session.child.exitCode !== null) return; session.child.stdin.end()\<close>.\<close>

definition gracefully_close :: "nat \<Rightarrow> pool \<Rightarrow> pool" where
  "gracefully_close i p = upd i (\<lambda>x. if sn_running x then x\<lparr>sn_closing := True\<rparr> else x) p"

definition evict_least_recently_used :: "millis \<Rightarrow> pool \<Rightarrow> pool" where
  "evict_least_recently_used now p =
     (case pl_active p of
        [] \<Rightarrow> p
      | (k, i) # others \<Rightarrow>
          gracefully_close i (publish_session
            (Session_evicted now (sn_provider (pl_sessions p ! i)) (sn_provider (pl_sessions p ! i))
               (sn_key (pl_sessions p ! i)) Lru_capacity (length others))
            (p\<lparr>pl_active := others\<rparr>)))"

lemma evict_frame [simp]:
  "pl_max (evict_least_recently_used now p) = pl_max p"
  "pl_active (evict_least_recently_used now p) = tl (pl_active p)"
  "pl_redis (evict_least_recently_used now p) = pl_redis p"
  "pl_lookups (evict_least_recently_used now p) = pl_lookups p"
  "pl_shut (evict_least_recently_used now p) = pl_shut p"
  by (auto simp: evict_least_recently_used_def gracefully_close_def upd_def publish_session_def
      split: list.split)

text \<open>The eviction loop. (With a maximum of 0 the loop of the code would not end; the setting is
  at least 1.)\<close>

function make_room :: "millis \<Rightarrow> pool \<Rightarrow> pool" where
  "make_room now p =
     (if pl_max p \<le> length (pl_active p) \<and> pl_active p \<noteq> []
      then make_room now (evict_least_recently_used now p) else p)"
  by pat_completeness auto
termination
  by (relation "measure (\<lambda>(now, p). length (pl_active p))") (auto simp: neq_Nil_conv)

declare make_room.simps [simp del]

datatype acquired = Refused | Warm nat | Looking_up | Spawned nat spawn_mode

definition acquire_begin :: "millis \<Rightarrow> acquire_request \<Rightarrow> pool \<Rightarrow> acquired \<times> pool" where
  "acquire_begin now q p =
     (if pl_shut p then (Refused, p)
      else (case map_of (pl_active p) (request_composite q) of
              Some i \<Rightarrow>
                if sn_running (pl_sessions p ! i)
                then (Warm i, p\<lparr>pl_active := AList.delete (request_composite q) (pl_active p)
                                   @ [(request_composite q, i)]\<rparr>)
                else (Looking_up, let p' = make_room now
                    (p\<lparr>pl_active := AList.delete (request_composite q) (pl_active p)\<rparr>)
                  in p'\<lparr>pl_lookups := pl_lookups p' @ [q]\<rparr>)
            | None \<Rightarrow> (Looking_up, let p' = make_room now p in p'\<lparr>pl_lookups := pl_lookups p' @ [q]\<rparr>)))"

definition spawn_session :: "acquire_request \<Rightarrow> string option \<Rightarrow> session" where
  "spawn_session q prior =
     \<lparr>sn_provider = aq_provider q, sn_key = aq_key q, sn_running = True, sn_closing = False,
      sn_id = None, sn_prior = prior, sn_ready = False, sn_pending = False, sn_batch = [],
      sn_delivered = [], sn_ttl = aq_ttl q\<rparr>"

text \<open>The rest of \<open>acquire\<close>, when the lookup number \<open>n\<close> answers.\<close>

definition acquire_end :: "nat \<Rightarrow> pool \<Rightarrow> acquired \<times> pool" where
  "acquire_end n p =
     (if n \<ge> length (pl_lookups p) then (Refused, p)
      else (let q = pl_lookups p ! n;
                prior = map_option fst (map_of (pl_redis p) (build_redis_key (aq_provider q) (aq_key q)));
                i = length (pl_sessions p)
            in (Spawned i (if prior = None then Mode_fresh else Mode_resume),
                p\<lparr>pl_lookups := take n (pl_lookups p) @ drop (Suc n) (pl_lookups p),
                  pl_sessions := pl_sessions p @ [spawn_session q prior],
                  pl_active := AList.update (request_composite q) i (pl_active p)\<rparr>)))"

text \<open>\<open>acquire\<close> with nothing in between.\<close>

definition acquire :: "millis \<Rightarrow> acquire_request \<Rightarrow> pool \<Rightarrow> acquired \<times> pool" where
  "acquire now q p =
     (case acquire_begin now q p of
        (Looking_up, p') \<Rightarrow> acquire_end (length (pl_lookups p)) p'
      | (r, p') \<Rightarrow> (r, p'))"

section \<open>What a subprocess does\<close>

definition json_string_member :: "json \<Rightarrow> string \<Rightarrow> string option" where
  "json_string_member e k =
     (case e of JObj ps \<Rightarrow> (case map_of ps k of Some (JStr s) \<Rightarrow> Some s | _ \<Rightarrow> None) | _ \<Rightarrow> None)"

definition is_init :: "json \<Rightarrow> bool" where
  "is_init e \<longleftrightarrow> json_string_member e ''type'' = Some ''init'' \<or>
     json_string_member e ''type'' = Some ''system'' \<and> json_string_member e ''subtype'' = Some ''init''"

definition is_result :: "json \<Rightarrow> bool" where
  "is_result e \<longleftrightarrow> json_string_member e ''type'' = Some ''result''"

definition init_session :: "millis \<Rightarrow> nat \<Rightarrow> string \<Rightarrow> pool \<Rightarrow> pool" where
  "init_session now i sid p =
     (let x = pl_sessions p ! i;
          provider = sn_provider x; key = sn_key x;
          stale = (case sn_prior x of
              Some prior \<Rightarrow> if sid \<noteq> prior
                then [Session_stale now provider provider key prior ''session_id mismatch on resume''] else []
            | None \<Rightarrow> []);
          opened = (if sn_prior x = None then Session_spawned now provider provider key sid Mode_fresh
                    else Session_resumed now provider provider key sid Mode_resume)
      in upd i (\<lambda>x. x\<lparr>sn_id := Some sid, sn_ready := True\<rparr>)
           (p\<lparr>pl_redis := AList.update (build_redis_key provider key) (sid, max 1 (sn_ttl x div 1000)) (pl_redis p),
              pl_events := pl_events p @ stale @ [opened]\<rparr>))"

definition turn_event :: "json \<Rightarrow> session \<Rightarrow> session" where
  "turn_event e x =
     (let batch = sn_batch x @ [e] in
      if is_result e
      then x\<lparr>sn_batch := [], sn_pending := False,
             sn_delivered := (if sn_pending x then sn_delivered x @ [batch] else sn_delivered x)\<rparr>
      else x\<lparr>sn_batch := batch\<rparr>)"

definition handle_stream_event :: "millis \<Rightarrow> nat \<Rightarrow> json \<Rightarrow> pool \<Rightarrow> pool" where
  "handle_stream_event now i e p =
     (if i \<ge> length (pl_sessions p) then p
      else if is_init e then
        (case json_string_member e ''session_id'' of
           None \<Rightarrow> p
         | Some sid \<Rightarrow> init_session now i sid p)
      else upd i (turn_event e) p)"

definition execute_turn :: "nat \<Rightarrow> pool \<Rightarrow> bool \<times> pool" where
  "execute_turn i p =
     (if i \<ge> length (pl_sessions p) \<or> sn_pending (pl_sessions p ! i) then (False, p)
      else (True, upd i (\<lambda>x. x\<lparr>sn_pending := True\<rparr>) p))"

text \<open>The \<open>close\<close> handler.\<close>

definition handle_close :: "millis \<Rightarrow> nat \<Rightarrow> string \<Rightarrow> pool \<Rightarrow> pool" where
  "handle_close now i code p =
     (if i \<ge> length (pl_sessions p) then p
      else (let x = pl_sessions p ! i; k = session_composite x in
            upd i (\<lambda>x. x\<lparr>sn_running := False, sn_pending := False\<rparr>)
              (publish_session (Session_error now (sn_provider x) (sn_provider x) (sn_key x)
                  (''subprocess exited with code '' @ code))
                (if map_of (pl_active p) k = Some i
                 then p\<lparr>pl_active := AList.delete k (pl_active p)\<rparr> else p))))"

definition reap_idle :: "millis \<Rightarrow> millis \<Rightarrow> nat \<Rightarrow> pool \<Rightarrow> pool" where
  "reap_idle now idle_for i p =
     (if i \<ge> length (pl_sessions p) \<or> sn_pending (pl_sessions p ! i) then p
      else gracefully_close i (publish_session
        (Session_reaped now (sn_provider (pl_sessions p ! i)) (sn_provider (pl_sessions p ! i))
           (sn_key (pl_sessions p ! i)) idle_for) p))"

definition shutdown :: "pool \<Rightarrow> pool" where
  "shutdown p =
     fold gracefully_close (map snd (pl_active p)) (p\<lparr>pl_shut := True, pl_active := []\<rparr>)"

definition expire_redis :: "string \<Rightarrow> pool \<Rightarrow> pool" where
  "expire_redis k p = p\<lparr>pl_redis := AList.delete k (pl_redis p)\<rparr>"

section \<open>Steps\<close>

datatype pool_action =
    Acquire millis acquire_request
  | Begin millis acquire_request
  | Answer nat
  | Printed millis nat json
  | Turn nat
  | Exited millis nat string
  | Idle millis millis nat
  | Shutdown
  | Expire string

fun pool_step :: "pool_action \<Rightarrow> pool \<Rightarrow> pool" where
  "pool_step (Acquire now q) p = snd (acquire now q p)"
| "pool_step (Begin now q) p = snd (acquire_begin now q p)"
| "pool_step (Answer n) p = snd (acquire_end n p)"
| "pool_step (Printed now i e) p = handle_stream_event now i e p"
| "pool_step (Turn i) p = snd (execute_turn i p)"
| "pool_step (Exited now i code) p = handle_close now i code p"
| "pool_step (Idle now idle_for i) p = reap_idle now idle_for i p"
| "pool_step Shutdown p = shutdown p"
| "pool_step (Expire k) p = expire_redis k p"

definition pool_run :: "pool_action list \<Rightarrow> pool \<Rightarrow> pool" where
  "pool_run steps p = fold pool_step steps p"

text \<open>The subprocesses that run and were not told to stop.\<close>

definition live :: "pool \<Rightarrow> nat set" where
  "live p = {i. i < length (pl_sessions p) \<and> sn_running (pl_sessions p ! i) \<and>
     \<not> sn_closing (pl_sessions p ! i)}"

section \<open>One subprocess per conversation\<close>

definition pool_inv :: "pool \<Rightarrow> bool" where
  "pool_inv p \<longleftrightarrow> 0 < pl_max p \<and> length (pl_active p) \<le> pl_max p \<and> distinct (map fst (pl_active p)) \<and>
     (\<forall>(k, i) \<in> set (pl_active p). i < length (pl_sessions p) \<and> session_composite (pl_sessions p ! i) = k) \<and>
     (\<forall>i \<in> live p. map_of (pl_active p) (session_composite (pl_sessions p ! i)) = Some i) \<and>
     pl_lookups p = []"

lemma pool_invD:
  assumes "pool_inv p"
  shows "0 < pl_max p" "length (pl_active p) \<le> pl_max p" "distinct (map fst (pl_active p))" "pl_lookups p = []"
    "map_of (pl_active p) k = Some i \<Longrightarrow> i < length (pl_sessions p) \<and> session_composite (pl_sessions p ! i) = k"
    "i \<in> live p \<Longrightarrow> map_of (pl_active p) (session_composite (pl_sessions p ! i)) = Some i"
  using assms by (auto simp: pool_inv_def dest!: map_of_SomeD)

lemma pool_invI:
  assumes "0 < pl_max p" "length (pl_active p) \<le> pl_max p" "distinct (map fst (pl_active p))" "pl_lookups p = []"
    and "\<And>k i. map_of (pl_active p) k = Some i \<Longrightarrow>
      i < length (pl_sessions p) \<and> session_composite (pl_sessions p ! i) = k"
    and "\<And>i. i \<in> live p \<Longrightarrow> map_of (pl_active p) (session_composite (pl_sessions p ! i)) = Some i"
  shows "pool_inv p"
proof -
  have "i < length (pl_sessions p) \<and> session_composite (pl_sessions p ! i) = k"
    if "(k, i) \<in> set (pl_active p)" for k i
    using assms(5)[OF map_of_is_SomeI[OF assms(3) that]] .
  then have "\<forall>(k, i) \<in> set (pl_active p). i < length (pl_sessions p) \<and> session_composite (pl_sessions p ! i) = k"
    by blast
  then show ?thesis unfolding pool_inv_def using assms(1-4,6) by blast
qed

text \<open>Changes of one session that keep its name and do not bring it to life.\<close>

definition quiet :: "(session \<Rightarrow> session) \<Rightarrow> bool" where
  "quiet f \<longleftrightarrow> (\<forall>x. session_composite (f x) = session_composite x \<and>
     (sn_running (f x) \<and> \<not> sn_closing (f x) \<longrightarrow> sn_running x \<and> \<not> sn_closing x))"

lemma upd_frame [simp]:
  "pl_max (upd i f p) = pl_max p" "pl_active (upd i f p) = pl_active p" "pl_lookups (upd i f p) = pl_lookups p"
  "pl_redis (upd i f p) = pl_redis p" "length (pl_sessions (upd i f p)) = length (pl_sessions p)"
  by (simp_all add: upd_def)

lemma upd_nth: "j < length (pl_sessions p) \<Longrightarrow>
  pl_sessions (upd i f p) ! j = (if j = i then f (pl_sessions p ! j) else pl_sessions p ! j)"
  by (simp add: upd_def nth_list_update)

lemma quiet_composite: "quiet f \<Longrightarrow> j < length (pl_sessions p) \<Longrightarrow>
  session_composite (pl_sessions (upd i f p) ! j) = session_composite (pl_sessions p ! j)"
  by (simp add: upd_nth quiet_def)

lemma quietD: "quiet f \<Longrightarrow> sn_running (f x) \<Longrightarrow> \<not> sn_closing (f x) \<Longrightarrow> sn_running x \<and> \<not> sn_closing x"
  unfolding quiet_def by blast

lemma quiet_live: "quiet f \<Longrightarrow> live (upd i f p) \<subseteq> live p"
proof
  fix j
  assume q: "quiet f" and j: "j \<in> live (upd i f p)"
  have "j < length (pl_sessions p)" using j by (simp add: live_def)
  moreover have "sn_running (pl_sessions (upd i f p) ! j)" "\<not> sn_closing (pl_sessions (upd i f p) ! j)"
    using j by (simp_all add: live_def)
  ultimately show "j \<in> live p"
    using quietD[OF q, of "pl_sessions p ! j"] by (cases "j = i") (simp_all add: live_def upd_nth)
qed

lemma pool_inv_upd:
  assumes "pool_inv p" "quiet f"
  shows "pool_inv (upd i f p)"
proof (rule pool_invI)
  show "0 < pl_max (upd i f p)" "length (pl_active (upd i f p)) \<le> pl_max (upd i f p)"
    "distinct (map fst (pl_active (upd i f p)))" "pl_lookups (upd i f p) = []"
    using pool_invD(1-4)[OF assms(1)] by simp_all
  show "j < length (pl_sessions (upd i f p)) \<and> session_composite (pl_sessions (upd i f p) ! j) = k"
    if "map_of (pl_active (upd i f p)) k = Some j" for k j
    using that pool_invD(5)[OF assms(1), of k j] quiet_composite[OF assms(2)] by simp
  show "map_of (pl_active (upd i f p)) (session_composite (pl_sessions (upd i f p) ! j)) = Some j"
    if "j \<in> live (upd i f p)" for j
  proof -
    have "j \<in> live p" using that quiet_live[OF assms(2)] by blast
    then show ?thesis
      using pool_invD(6)[OF assms(1)] quiet_composite[OF assms(2)] by (simp add: live_def)
  qed
qed

lemma quiet_close: "quiet (\<lambda>x. if sn_running x then x\<lparr>sn_closing := True\<rparr> else x)"
  by (simp add: quiet_def session_composite_def)

lemma pool_inv_same:
  assumes "pool_inv p" "pl_active p' = pl_active p" "pl_sessions p' = pl_sessions p"
    "pl_max p' = pl_max p" "pl_lookups p' = pl_lookups p"
  shows "pool_inv p'"
  using assms by (simp add: pool_inv_def live_def)

lemma live_close: "live (gracefully_close i p) = live p - {i}"
  by (auto simp: live_def gracefully_close_def upd_def nth_list_update)

lemma composite_close: "session_composite (pl_sessions (gracefully_close i p) ! j) = session_composite (pl_sessions p ! j)"
  by (auto simp: gracefully_close_def upd_def nth_list_update session_composite_def)

lemma close_frame [simp]:
  "pl_max (gracefully_close i p) = pl_max p" "pl_active (gracefully_close i p) = pl_active p"
  "pl_lookups (gracefully_close i p) = pl_lookups p" "pl_redis (gracefully_close i p) = pl_redis p"
  "length (pl_sessions (gracefully_close i p)) = length (pl_sessions p)"
  by (simp_all add: gracefully_close_def)

lemma evict_cons:
  assumes "pl_active p = (k, i) # others"
  shows "live (evict_least_recently_used now p) = live p - {i}"
    "session_composite (pl_sessions (evict_least_recently_used now p) ! j) = session_composite (pl_sessions p ! j)"
    "length (pl_sessions (evict_least_recently_used now p)) = length (pl_sessions p)"
  using assms
  by (auto simp: evict_least_recently_used_def live_close composite_close publish_session_def)
    (auto simp: live_def)

lemma pool_inv_evict:
  assumes inv: "pool_inv p"
  shows "pool_inv (evict_least_recently_used now p)"
proof (cases "pl_active p")
  case Nil
  then show ?thesis using inv by (simp add: evict_least_recently_used_def)
next
  case (Cons ki others)
  obtain k i where ki: "ki = (k, i)" by force
  note act = Cons[unfolded ki]
  have fresh: "k \<notin> fst ` set others" "distinct (map fst others)"
    using pool_invD(3)[OF inv] act by simp_all
  show ?thesis
  proof (rule pool_invI)
    show "0 < pl_max (evict_least_recently_used now p)"
      "length (pl_active (evict_least_recently_used now p)) \<le> pl_max (evict_least_recently_used now p)"
      "distinct (map fst (pl_active (evict_least_recently_used now p)))"
      "pl_lookups (evict_least_recently_used now p) = []"
      using pool_invD(1-4)[OF inv] act by simp_all
    show "j < length (pl_sessions (evict_least_recently_used now p)) \<and>
        session_composite (pl_sessions (evict_least_recently_used now p) ! j) = l"
      if "map_of (pl_active (evict_least_recently_used now p)) l = Some j" for l j
    proof -
      have "map_of (pl_active p) l = Some j"
        using that act fresh(1) by (auto simp: rev_image_eqI dest!: map_of_SomeD)
      then show ?thesis using pool_invD(5)[OF inv] evict_cons(2,3)[OF act] by simp
    qed
    show "map_of (pl_active (evict_least_recently_used now p))
        (session_composite (pl_sessions (evict_least_recently_used now p) ! j)) = Some j"
      if "j \<in> live (evict_least_recently_used now p)" for j
    proof -
      have "j \<in> live p" "j \<noteq> i" using that evict_cons(1)[OF act] by auto
      then have "map_of (pl_active p) (session_composite (pl_sessions p ! j)) = Some j"
        using pool_invD(6)[OF inv] by blast
      then show ?thesis
        using \<open>j \<noteq> i\<close> act evict_cons(2)[OF act] by (auto split: if_splits)
    qed
  qed
qed

lemma make_room_inv:
  "pool_inv p \<Longrightarrow> pool_inv (make_room now p) \<and> length (pl_active (make_room now p)) < pl_max (make_room now p) \<and>
     fst ` set (pl_active (make_room now p)) \<subseteq> fst ` set (pl_active p) \<and>
     pl_max (make_room now p) = pl_max p"
proof (induction now p rule: make_room.induct)
  case (1 now p)
  show ?case
  proof (cases "pl_max p \<le> length (pl_active p) \<and> pl_active p \<noteq> []")
    case True
    have sub: "fst ` set (tl (pl_active p)) \<subseteq> fst ` set (pl_active p)" by (cases "pl_active p") auto
    have eq: "make_room now p = make_room now (evict_least_recently_used now p)"
      using True by (subst make_room.simps) simp
    note IH = 1(1)[OF True pool_inv_evict[OF 1(2)], unfolded evict_frame]
    show ?thesis
      unfolding eq using IH by (intro conjI) (simp_all add: order.trans[OF _ sub])
  next
    case False
    have "make_room now p = p"
      using make_room.simps[of now p] unfolding if_not_P[OF False] .
    then show ?thesis using 1(2) pool_invD(1)[OF 1(2)] False by auto
  qed
qed

lemma delete_length: "length (AList.delete k m) \<le> length m"
  by (induction m) auto

lemma pool_inv_drop_dead:
  assumes inv: "pool_inv p" and dead: "\<forall>i. map_of (pl_active p) k = Some i \<longrightarrow> i \<notin> live p"
  shows "pool_inv (p\<lparr>pl_active := AList.delete k (pl_active p)\<rparr>)"
proof (rule pool_invI)
  let ?p = "p\<lparr>pl_active := AList.delete k (pl_active p)\<rparr>"
  show "0 < pl_max ?p" "pl_lookups ?p = []" using pool_invD[OF inv] by simp_all
  show "length (pl_active ?p) \<le> pl_max ?p"
    using pool_invD(2)[OF inv] delete_length[of k "pl_active p"] by simp
  show "distinct (map fst (pl_active ?p))" using pool_invD(3)[OF inv] by (simp add: distinct_delete)
  show "i < length (pl_sessions ?p) \<and> session_composite (pl_sessions ?p ! i) = l"
    if "map_of (pl_active ?p) l = Some i" for l i
    using that pool_invD(5)[OF inv, of l i] by (simp split: if_splits)
  show "map_of (pl_active ?p) (session_composite (pl_sessions ?p ! i)) = Some i" if "i \<in> live ?p" for i
  proof -
    have "i \<in> live p" using that by (simp add: live_def)
    then show ?thesis using pool_invD(6)[OF inv, of i] dead by auto
  qed
qed

lemma update_new_length: "k \<notin> fst ` set m \<Longrightarrow> length (AList.update k v m) = Suc (length m)"
  by (induction m) auto

lemma pool_inv_spawn:
  assumes inv: "pool_inv p" and room: "length (pl_active p) < pl_max p"
    and new: "request_composite q \<notin> fst ` set (pl_active p)"
  shows "pool_inv (p\<lparr>pl_sessions := pl_sessions p @ [spawn_session q prior],
    pl_active := AList.update (request_composite q) (length (pl_sessions p)) (pl_active p)\<rparr>)"
    (is "pool_inv ?p")
proof (rule pool_invI)
  have comp: "session_composite (spawn_session q prior) = request_composite q"
    by (simp add: session_composite_def spawn_session_def request_composite_def)
  have none: "map_of (pl_active p) (request_composite q) = None" using new by (simp add: map_of_eq_None_iff)
  show "0 < pl_max ?p" "pl_lookups ?p = []" using pool_invD[OF inv] by simp_all
  show "length (pl_active ?p) \<le> pl_max ?p" using room new by (simp add: update_new_length)
  show "distinct (map fst (pl_active ?p))" using pool_invD(3)[OF inv] by (simp add: distinct_update)
  show "i < length (pl_sessions ?p) \<and> session_composite (pl_sessions ?p ! i) = l"
    if "map_of (pl_active ?p) l = Some i" for l i
    using that pool_invD(5)[OF inv, of l i] comp by (auto simp: nth_append split: if_splits)
  show "map_of (pl_active ?p) (session_composite (pl_sessions ?p ! i)) = Some i" if "i \<in> live ?p" for i
  proof (cases "i < length (pl_sessions p)")
    case True
    then have "i \<in> live p" using that by (simp add: live_def nth_append)
    then have "map_of (pl_active p) (session_composite (pl_sessions p ! i)) = Some i"
      using pool_invD(6)[OF inv] by blast
    then show ?thesis using True none by (auto simp: nth_append)
  next
    case False
    then have "i = length (pl_sessions p)" using that by (simp add: live_def)
    then show ?thesis by (simp add: comp)
  qed
qed

lemma delete_present_length: "map_of m k = Some v \<Longrightarrow> length (AList.delete k m) < length m"
proof (induction m)
  case (Cons x m)
  then show ?case using delete_length[of k m] by (auto split: if_splits)
qed simp

lemma pool_inv_touch:
  assumes inv: "pool_inv p" and i: "map_of (pl_active p) k = Some i"
  shows "pool_inv (p\<lparr>pl_active := AList.delete k (pl_active p) @ [(k, i)]\<rparr>)" (is "pool_inv ?p")
proof -
  have m: "map_of (pl_active ?p) = map_of (pl_active p)"
    using i by (auto simp: map_add_def split: option.split)
  have "k \<notin> fst ` set (AList.delete k (pl_active p))" by (simp only: keys_alist_delete) simp
  then have "distinct (map fst (pl_active ?p))"
    using pool_invD(3)[OF inv] by (simp add: distinct_delete)
  then show ?thesis
    using pool_invD[OF inv] delete_present_length[OF i] m
    by (intro pool_invI) (simp_all add: live_def)
qed

lemma pool_inv_cold:
  assumes "pool_inv p" and "request_composite q \<notin> fst ` set (pl_active p)"
  shows "pool_inv (snd (acquire_end 0 ((make_room now p)\<lparr>pl_lookups := [q]\<rparr>)))"
proof -
  let ?r = "make_room now p"
  have r: "pool_inv ?r" "length (pl_active ?r) < pl_max ?r" "request_composite q \<notin> fst ` set (pl_active ?r)"
    using make_room_inv[OF assms(1), of now] assms(2) by auto
  from pool_inv_same[OF pool_inv_spawn[OF r]]
  show ?thesis using pool_invD(4)[OF r(1)] by (simp add: acquire_end_def Let_def)
qed

lemma pool_inv_acquire:
  assumes inv: "pool_inv p"
  shows "pool_inv (snd (acquire now q p))"
proof -
  let ?k = "request_composite q"
  have none: "pl_lookups (make_room now p') = []" if "pool_inv p'" for p'
    using pool_invD(4) make_room_inv[OF that, of now] by blast
  show ?thesis
  proof (cases "map_of (pl_active p) ?k")
    case None
    then have "?k \<notin> fst ` set (pl_active p)" by (simp add: map_of_eq_None_iff)
    from pool_inv_cold[OF inv this] show ?thesis
      using None inv none[OF inv] pool_invD(4)[OF inv]
      by (simp add: acquire_def acquire_begin_def Let_def)
  next
    case (Some i)
    let ?d = "p\<lparr>pl_active := AList.delete ?k (pl_active p)\<rparr>"
    show ?thesis
    proof (cases "sn_running (pl_sessions p ! i)")
      case True
      then show ?thesis
        using Some inv pool_inv_touch[OF inv Some] by (simp add: acquire_def acquire_begin_def)
    next
      case False
      then have "pool_inv ?d" using Some by (intro pool_inv_drop_dead[OF inv]) (simp add: live_def)
      moreover from this have "pool_inv (snd (acquire_end 0 ((make_room now ?d)\<lparr>pl_lookups := [q]\<rparr>)))"
        by (rule pool_inv_cold) (simp add: keys_alist_delete del: set_map)
      ultimately show ?thesis
        using Some False inv none[of ?d] pool_invD(4)[OF inv]
        by (simp add: acquire_def acquire_begin_def Let_def)
    qed
  qed
qed

fun interleaved :: "pool_action \<Rightarrow> bool" where
  "interleaved (Begin now q) = True"
| "interleaved (Answer n) = True"
| "interleaved _ = False"

text \<open>A step in which an acquire runs from its start to its end.\<close>

definition atomic_step :: "pool_action \<Rightarrow> pool \<Rightarrow> pool" where
  "atomic_step a p = (if interleaved a then p else pool_step a p)"

lemma quiet_simps:
  "quiet (\<lambda>x. x\<lparr>sn_id := i, sn_ready := r\<rparr>)" "quiet (turn_event e)" "quiet (\<lambda>x. x\<lparr>sn_pending := b\<rparr>)"
  "quiet (\<lambda>x. x\<lparr>sn_running := False, sn_pending := b\<rparr>)"
  by (auto simp: quiet_def session_composite_def turn_event_def Let_def)

lemma pool_inv_close: "pool_inv p \<Longrightarrow> pool_inv (gracefully_close i p)"
  unfolding gracefully_close_def by (rule pool_inv_upd[OF _ quiet_close])

lemma live_active:
  assumes inv: "pool_inv p" shows "live p \<subseteq> snd ` set (pl_active p)"
proof
  fix i assume "i \<in> live p"
  from map_of_SomeD[OF pool_invD(6)[OF inv this]] show "i \<in> snd ` set (pl_active p)" by (rule rev_image_eqI) simp
qed

lemma pool_inv_shutdown:
  assumes inv: "pool_inv p" shows "pool_inv (shutdown p)"
proof -
  let ?f = "fold gracefully_close"
  have frame: "pl_max (?f is p) = pl_max p \<and> pl_active (?f is p) = pl_active p \<and>
      pl_lookups (?f is p) = pl_lookups p \<and> live (?f is p) = live p - set is" for "is" p
    by (induction "is" arbitrary: p) (auto simp: live_close)
  have "live p \<subseteq> set (map snd (pl_active p))" using live_active[OF inv] by simp
  moreover have "live (p\<lparr>pl_shut := True, pl_active := []\<rparr>) = live p" by (simp add: live_def)
  ultimately have none: "live (shutdown p) = {}" unfolding shutdown_def using frame by blast
  have "pl_max (shutdown p) = pl_max p" "pl_active (shutdown p) = []" "pl_lookups (shutdown p) = []"
    using pool_invD(4)[OF inv] frame[of "map snd (pl_active p)" "p\<lparr>pl_shut := True, pl_active := []\<rparr>"]
    by (simp_all add: shutdown_def)
  then show ?thesis
    using pool_invD(1)[OF inv] none by (intro pool_invI) simp_all
qed

lemma pool_inv_exit:
  assumes inv: "pool_inv p" shows "pool_inv (handle_close now i code p)"
proof (cases "i < length (pl_sessions p)")
  case False
  then show ?thesis using inv by (simp add: handle_close_def)
next
  case True
  let ?k = "session_composite (pl_sessions p ! i)"
  let ?dead = "upd i (\<lambda>x. x\<lparr>sn_running := False, sn_pending := False\<rparr>) p"
  have dead: "pool_inv ?dead" by (rule pool_inv_upd[OF inv quiet_simps(4)])
  have gone: "i \<notin> live ?dead" using True by (simp add: live_def upd_nth)
  have "pool_inv (?dead\<lparr>pl_active := AList.delete ?k (pl_active ?dead)\<rparr>)"
    if "map_of (pl_active p) ?k = Some i"
    using that gone by (intro pool_inv_drop_dead[OF dead]) simp
  then show ?thesis
    using True
    by (cases "map_of (pl_active p) ?k = Some i")
      (auto simp: handle_close_def Let_def publish_session_def upd_def intro: pool_inv_same[OF dead] elim: pool_inv_same)
qed

lemma pool_inv_step: "pool_inv p \<Longrightarrow> pool_inv (atomic_step a p)"
proof (cases a)
  case (Printed now i e)
  assume inv: "pool_inv p"
  have "pool_inv (init_session now i sid p)" for sid
    unfolding init_session_def Let_def
    by (rule pool_inv_upd[OF pool_inv_same[OF inv] quiet_simps(1)]) simp_all
  then show ?thesis
    using inv pool_inv_upd[OF inv quiet_simps(2)]
    by (simp add: Printed atomic_step_def handle_stream_event_def split: option.split)
next
  case (Idle now idle_for i)
  assume inv: "pool_inv p"
  have "pool_inv (publish_session e p)" for e
    by (rule pool_inv_same[OF inv]) (simp_all add: publish_session_def)
  then show ?thesis using inv by (simp add: Idle atomic_step_def reap_idle_def pool_inv_close)
next
  case (Expire k)
  assume inv: "pool_inv p"
  show ?thesis using pool_inv_same[OF inv, of "expire_redis k p"] by (simp add: Expire atomic_step_def expire_redis_def)
qed (simp_all add: atomic_step_def pool_inv_acquire pool_inv_shutdown pool_inv_exit execute_turn_def
      pool_inv_upd quiet_simps)

interpretation pool_machine: invariant_machine pool_inv atomic_step
  by unfold_locales (rule pool_inv_step)

text \<open>C13: With acquires that are not interleaved, the pool never holds more sessions than its
  maximum, and a conversation never has two subprocesses that run and were not told to stop,
  whatever is evicted, reaped, printed or exits in between.\<close>

theorem pool_bounded_and_exclusive:
  assumes "0 < n" and "p = fold atomic_step steps (new_pool (Some n))"
  shows "length (pl_active p) \<le> n \<and>
    inj_on (\<lambda>i. session_composite (pl_sessions p ! i)) (live p) \<and> card (live p) \<le> n"
proof -
  have "pool_inv (new_pool (Some n))"
    using assms(1) by (intro pool_invI) (simp_all add: new_pool_def live_def)
  then have inv: "pool_inv p" unfolding assms(2) by (rule pool_machine.inv_run)
  have max: "pl_max (atomic_step a p) = pl_max p" for a p
  proof -
    have room: "pl_max (make_room now p) = pl_max p" for now p
      by (induction now p rule: make_room.induct) (subst make_room.simps, simp)
    have fold: "pl_max (fold gracefully_close is p) = pl_max p" for "is" p
      by (induction "is" arbitrary: p) simp_all
    show ?thesis
      by (cases a) (auto simp: atomic_step_def acquire_def acquire_begin_def acquire_end_def Let_def room fold
          handle_stream_event_def init_session_def execute_turn_def handle_close_def publish_session_def
          reap_idle_def shutdown_def expire_redis_def split: option.split)
  qed
  have "pl_max p = n"
    unfolding assms(2) by (induction steps rule: rev_induct) (simp_all add: max new_pool_def)
  then have size: "length (pl_active p) \<le> n" using pool_invD(2)[OF inv] by simp
  have inj: "inj_on (\<lambda>i. session_composite (pl_sessions p ! i)) (live p)"
  proof (rule inj_onI)
    fix i j
    assume i: "i \<in> live p" and j: "j \<in> live p"
      and eq: "session_composite (pl_sessions p ! i) = session_composite (pl_sessions p ! j)"
    have "Some i = Some j"
      using pool_invD(6)[OF inv i, unfolded eq] pool_invD(6)[OF inv j] by (rule trans[OF sym])
    then show "i = j" by (rule option.inject[THEN iffD1])
  qed
  have "live p \<subseteq> snd ` set (pl_active p)" by (rule live_active[OF inv])
  then have "card (live p) \<le> card (set (map snd (pl_active p)))" by (intro card_mono) simp_all
  also have "\<dots> \<le> length (map snd (pl_active p))" by (rule card_length)
  finally have "card (live p) \<le> length (pl_active p)" by simp
  then show ?thesis using size inj by simp
qed

definition sample_acquire :: "string \<Rightarrow> acquire_request" where
  "sample_acquire k = \<lparr>aq_provider = ''slack'', aq_key = k, aq_ttl = 60000\<rparr>"

theorem pool_bounded_and_exclusive_witness:
  "length (pl_active (fold atomic_step [Acquire 0 (sample_acquire ''a''), Acquire 1 (sample_acquire ''b'')]
     (new_pool (Some 1)))) \<le> 1"
  using pool_bounded_and_exclusive[of 1 _ "[Acquire 0 (sample_acquire ''a''), Acquire 1 (sample_acquire ''b'')]", OF _ refl]
  by simp


text \<open>The await between making room and spawning breaks both guarantees. From a pool of one, two
  acquires for the same conversation whose Redis lookups overlap leave two running subprocesses,
  one of which no map entry reaches any more; for two conversations they leave the pool over its
  maximum; and an acquire that overlaps a shutdown spawns after it.\<close>

theorem overlapping_acquires:
  "let a = sample_acquire ''a''; b = sample_acquire ''b''; start = new_pool (Some 1);
       same = pool_run [Begin 0 a, Begin 1 a, Answer 0, Answer 0] start;
       different = pool_run [Begin 0 a, Begin 1 b, Answer 0, Answer 0] start;
       late = pool_run [Begin 0 a, Shutdown, Answer 0] start
   in live same = {0, 1} \<and> pl_active same = [(request_composite a, 1)] \<and>
      length (pl_active different) = 2 \<and> pl_max different = 1 \<and>
      pl_shut late \<and> live late = {0}"
proof -
  have room: "make_room now p = p" if "pl_active p = []" for now p
    using that by (subst make_room.simps) simp
  have two: "{i. i < Suc (Suc 0) \<and> P i} = (if P 0 then {0} else {}) \<union> (if P (Suc 0) then {Suc 0} else {})" for P
    by (rule set_eqI, rename_tac x, case_tac x) (auto simp: less_Suc_eq)
  have one: "{i. i = 0 \<and> P i} = (if P 0 then {0} else {})" for P :: "nat \<Rightarrow> bool"
    by auto
  show ?thesis
    by (simp add: pool_run_def acquire_begin_def acquire_end_def Let_def room new_pool_def
        request_composite_def sample_acquire_def build_composite_key_def live_def two one spawn_session_def shutdown_def insert_commute)
qed

text \<open>A session being reaped stays in the map until its process closes: an acquire that comes before
  gets it as a warm one, although its input has been ended.\<close>

lemma reaped_session_reused:
  "let a = sample_acquire ''a'';
       p = pool_run [Begin 0 a, Answer 0, Idle 60 60 0] (new_pool (Some 1))
   in fst (acquire_begin 61 a p) = Warm 0 \<and> sn_closing (pl_sessions p ! 0)"
proof -
  have room: "make_room now p = p" if "pl_active p = []" for now p
    using that by (subst make_room.simps) simp
  show ?thesis
    by (simp add: pool_run_def acquire_begin_def acquire_end_def Let_def room new_pool_def
        request_composite_def sample_acquire_def build_composite_key_def spawn_session_def reap_idle_def
        gracefully_close_def upd_def publish_session_def)
qed

text \<open>Nothing in the pool forgets a session id: after a resumed process dies, the next acquire resumes
  the same id again.\<close>

lemma exit_keeps_session_id: "pl_redis (handle_close now i code p) = pl_redis p"
  by (simp add: handle_close_def Let_def publish_session_def)

section \<open>Turns\<close>

text \<open>What a subprocess prints is neither lost nor mixed between turns: once a turn is waiting,
  events that end with a result, and hold no earlier one, are delivered to that turn as one
  batch, after what was already gathered, and the session is ready for the next.\<close>

theorem turn_gets_its_events:
  assumes "sn_pending x" and "list_all (\<lambda>e. \<not> is_result e) es" and "is_result r"
  shows "fold turn_event (es @ [r]) x =
    x\<lparr>sn_batch := [], sn_pending := False, sn_delivered := sn_delivered x @ [sn_batch x @ es @ [r]]\<rparr>"
proof -
  have "fold turn_event es x = x\<lparr>sn_batch := sn_batch x @ es\<rparr>"
    using assms(2) by (induction es arbitrary: x) (simp_all add: turn_event_def)
  then show ?thesis using assms(1,3) by (simp add: turn_event_def)
qed

definition sample_result :: json where
  "sample_result = JObj [(''type'', JStr ''result'')]"

theorem turn_gets_its_events_witness:
  "fold turn_event ([JNull] @ [sample_result]) ((spawn_session (sample_acquire ''a'') None)\<lparr>sn_pending := True\<rparr>) =
    ((spawn_session (sample_acquire ''a'') None)\<lparr>sn_pending := True\<rparr>)
      \<lparr>sn_batch := [], sn_pending := False, sn_delivered := [] @ [[] @ [JNull] @ [sample_result]]\<rparr>"
  using turn_gets_its_events[of "(spawn_session (sample_acquire ''a'') None)\<lparr>sn_pending := True\<rparr>" "[JNull]" sample_result]
  by (simp add: spawn_session_def is_result_def json_string_member_def sample_result_def)

end
