(* ===== verification/Entities.thy ===== *)
theory Entities
  imports Routing
begin

text \<open>
  The entity store (\<open>services/entities/entity-store.service.ts\<close>): entities, relations and an audit log
  in three SQLite tables. A table is the list of its rows in rowid order; JSON columns hold text.
  A transaction that throws leaves the tables as they were. \<open>better-sqlite3\<close> is synchronous, so an
  operation is one step. The matchers of SQLite (\<open>LIKE\<close>, full-text search) are parameters of \<open>find\<close>.
\<close>

section \<open>Tables\<close>

record entity_row =
  er_id :: string
  er_kind :: string
  er_name :: string
  er_properties :: string
  er_created :: millis
  er_updated :: millis

record relation_row =
  rl_from :: string
  rl_type :: string
  rl_to :: string
  rl_properties :: "string option"
  rl_created :: millis

record audit_row =
  au_id :: nat
  au_ts :: millis
  au_trace :: "string option"
  au_actor :: "string option"
  au_entity :: string
  au_op :: string
  au_diff :: string

record entity_db =
  db_entities :: "entity_row list"
  db_relations :: "relation_row list"
  db_audit :: "audit_row list"
  db_next_audit :: nat

definition empty_db :: entity_db where
  "empty_db = \<lparr>db_entities = [], db_relations = [], db_audit = [], db_next_audit = 1\<rparr>"

record entity =
  en_id :: string
  en_kind :: string
  en_name :: string
  en_properties :: props
  en_created :: millis
  en_updated :: millis

record validation_failure =
  vf_property :: string
  vf_message :: string
  vf_keyword :: "string option"

text \<open>The codes of \<open>EntityStoreError\<close>, and the errors of the language and the database.\<close>

datatype store_error =
    Kind_required
  | Schema_validation_failed "validation_failure list"
  | Entity_not_found string
  | Relation_target_missing string string
  | Purge_reason_required
  | Unique_violation string
  | Bad_json string
  | Not_iterable

record natural_key_spec =
  nk_fields :: "string list"
  nk_normalize :: "jsval \<Rightarrow> string option"

record store_options =
  so_natural_keys :: "(string, natural_key_spec) jsmap"
  so_id_prefixes :: "(string, string) jsmap"
  so_validator :: "(string \<Rightarrow> props \<Rightarrow> bool \<times> validation_failure list) option"

definition default_id_prefixes :: "(string, string) jsmap" where
  "default_id_prefixes = [(''client'', ''c_''), (''contact'', ''p_''), (''memory'', ''m_''), (''interaction'', ''i_'')]"

definition store_options_of ::
  "(string, natural_key_spec) jsmap option \<Rightarrow> (string, string) jsmap \<Rightarrow>
   (string \<Rightarrow> props \<Rightarrow> bool \<times> validation_failure list) option \<Rightarrow> store_options" where
  "store_options_of keys own_prefixes validator =
     \<lparr>so_natural_keys = (case keys of Some m \<Rightarrow> m | None \<Rightarrow> []),
      so_id_prefixes = foldl (\<lambda>m (k, v). AList.update k v m) default_id_prefixes own_prefixes,
      so_validator = validator\<rparr>"

record writer =
  wr_trace :: "string option"
  wr_actor :: "string option"

section \<open>JSON columns\<close>

definition props_text :: "props \<Rightarrow> string" where
  "props_text ps = json_stringify (JObj ps)"

definition parse_json_object :: "string \<Rightarrow> store_error + props" where
  "parse_json_object s = (case json_parse s of Some (JObj ps) \<Rightarrow> Inr ps | _ \<Rightarrow> Inl (Bad_json s))"

definition parse_json_or_null :: "string option \<Rightarrow> store_error + props option" where
  "parse_json_or_null s =
     (case s of None \<Rightarrow> Inr None | Some w \<Rightarrow> and_then (parse_json_object w) (\<lambda>ps. Inr (Some ps)))"

definition read_row :: "entity_row \<Rightarrow> store_error + entity" where
  "read_row r = and_then (parse_json_object (er_properties r)) (\<lambda>ps.
     Inr \<lparr>en_id = er_id r, en_kind = er_kind r, en_name = er_name r, en_properties = ps,
          en_created = er_created r, en_updated = er_updated r\<rparr>)"

definition find_row :: "entity_db \<Rightarrow> string \<Rightarrow> entity_row option" where
  "find_row db i = find (\<lambda>r. er_id r = i) (db_entities db)"

definition get_raw :: "entity_db \<Rightarrow> string \<Rightarrow> store_error + entity option" where
  "get_raw db i =
     (case find_row db i of
        None \<Rightarrow> Inr None
      | Some r \<Rightarrow> and_then (read_row r) (\<lambda>e. Inr (Some e)))"

section \<open>Natural keys\<close>

fun key_parts :: "(jsval \<Rightarrow> string option) \<Rightarrow> props \<Rightarrow> string list \<Rightarrow> string list option" where
  "key_parts norm ps [] = Some []"
| "key_parts norm ps (f # fs) =
     (if is_nullish (object_read ps f) then None
      else (case norm (object_read ps f) of
              None \<Rightarrow> None
            | Some w \<Rightarrow> map_option (Cons w) (key_parts norm ps fs)))"

text \<open>\<open>naturalKeys[kind]\<close> also finds the members every object inherits; those have no \<open>fields\<close>, and
  iterating over \<open>undefined\<close> throws.\<close>

definition compute_natural_key :: "store_options \<Rightarrow> string \<Rightarrow> props \<Rightarrow> store_error + string option" where
  "compute_natural_key opts kind ps =
     (case map_of (so_natural_keys opts) kind of
        None \<Rightarrow> if object_inherited kind = Undef then Inr None else Inl Not_iterable
      | Some spec \<Rightarrow> Inr (map_option (join ''|'') (key_parts (nk_normalize spec) ps (nk_fields spec))))"

fun first_with_key :: "store_options \<Rightarrow> string \<Rightarrow> string \<Rightarrow> entity_row list \<Rightarrow> store_error + string option" where
  "first_with_key opts kind key [] = Inr None"
| "first_with_key opts kind key (r # rs) =
     and_then (parse_json_object (er_properties r)) (\<lambda>ps.
     and_then (compute_natural_key opts kind ps) (\<lambda>k.
       if k = Some key then Inr (Some (er_id r)) else first_with_key opts kind key rs))"

definition find_by_natural_key :: "store_options \<Rightarrow> entity_db \<Rightarrow> string \<Rightarrow> string \<Rightarrow> store_error + string option" where
  "find_by_natural_key opts db kind key =
     (case map_of (so_natural_keys opts) kind of
        None \<Rightarrow> Inr None
      | Some _ \<Rightarrow> first_with_key opts kind key (filter (\<lambda>r. er_kind r = kind) (db_entities db)))"

section \<open>Writes\<close>

definition write_audit ::
  "millis \<Rightarrow> writer \<Rightarrow> string \<Rightarrow> string \<Rightarrow> props \<Rightarrow> entity_db \<Rightarrow> entity_db" where
  "write_audit now w i op diff db =
     db\<lparr>db_audit := db_audit db @ [\<lparr>au_id = db_next_audit db, au_ts = now, au_trace = wr_trace w,
          au_actor = wr_actor w, au_entity = i, au_op = op, au_diff = props_text diff\<rparr>],
        db_next_audit := Suc (db_next_audit db)\<rparr>"

definition entity_json :: "entity \<Rightarrow> json" where
  "entity_json e = JObj [(''id'', JStr (en_id e)), (''kind'', JStr (en_kind e)), (''name'', JStr (en_name e)),
     (''properties'', JObj (en_properties e)), (''created_at'', JNum (en_created e)),
     (''updated_at'', JNum (en_updated e))]"

definition after_json :: "string \<Rightarrow> string \<Rightarrow> props \<Rightarrow> json" where
  "after_json kind name ps = JObj [(''kind'', JStr kind), (''name'', JStr name), (''properties'', JObj ps)]"

definition generate_id :: "store_options \<Rightarrow> string \<Rightarrow> string \<Rightarrow> string" where
  "generate_id opts uuid kind =
     (case map_of (so_id_prefixes opts) kind of Some p \<Rightarrow> p @ uuid | None \<Rightarrow> uuid)"

definition insert_entity :: "millis \<Rightarrow> string \<Rightarrow> string \<Rightarrow> string \<Rightarrow> props \<Rightarrow> entity_db \<Rightarrow> store_error + entity_db" where
  "insert_entity now i kind name ps db =
     (if i \<in> er_id ` set (db_entities db) then Inl (Unique_violation i)
      else Inr (db\<lparr>db_entities := db_entities db @ [\<lparr>er_id = i, er_kind = kind, er_name = name,
             er_properties = props_text ps, er_created = now, er_updated = now\<rparr>]\<rparr>))"

definition update_entity :: "millis \<Rightarrow> string \<Rightarrow> string \<Rightarrow> string \<Rightarrow> props \<Rightarrow> entity_db \<Rightarrow> entity_db" where
  "update_entity now i kind name ps db =
     db\<lparr>db_entities := map (\<lambda>r. if er_id r = i
        then r\<lparr>er_kind := kind, er_name := name, er_properties := props_text ps, er_updated := now\<rparr> else r)
        (db_entities db)\<rparr>"

definition check_input :: "store_options \<Rightarrow> string \<Rightarrow> props \<Rightarrow> store_error + unit" where
  "check_input opts kind ps =
     (if kind = [] then Inl Kind_required
      else (case so_validator opts of
              Some v \<Rightarrow> if fst (v kind ps) then Inr () else Inl (Schema_validation_failed (snd (v kind ps)))
            | None \<Rightarrow> Inr ()))"

text \<open>Which entity \<open>upsert\<close> will update, if any.\<close>

definition upsert_target ::
  "store_options \<Rightarrow> string \<Rightarrow> props \<Rightarrow> string option \<Rightarrow> entity_db \<Rightarrow> store_error + string option" where
  "upsert_target opts kind ps supplied db =
     and_then (compute_natural_key opts kind ps) (\<lambda>key.
       (case supplied of
          Some i \<Rightarrow> and_then (get_raw db i) (\<lambda>e. Inr (if e = None then None else Some i))
        | None \<Rightarrow> (case key of
                     Some k \<Rightarrow> find_by_natural_key opts db kind k
                   | None \<Rightarrow> Inr None)))"

text \<open>The transaction.\<close>

definition upsert_commit ::
  "store_options \<Rightarrow> millis \<Rightarrow> string \<Rightarrow> string \<Rightarrow> string \<Rightarrow> props \<Rightarrow> string option \<Rightarrow> string option \<Rightarrow> writer \<Rightarrow>
   entity_db \<Rightarrow> store_error + string \<times> entity_db" where
  "upsert_commit opts now uuid kind name ps supplied existing w db =
     (case existing of
        Some i \<Rightarrow>
          and_then (get_raw db i) (\<lambda>found.
            (case found of
               None \<Rightarrow> Inl (Entity_not_found i)
             | Some before \<Rightarrow>
                 Inr (i, write_audit now w i ''update''
                   [(''before'', entity_json before), (''after'', after_json kind name ps)]
                   (update_entity now i kind name ps db))))
      | None \<Rightarrow>
          (let i = (case supplied of Some i \<Rightarrow> i | None \<Rightarrow> generate_id opts uuid kind) in
           and_then (insert_entity now i kind name ps db) (\<lambda>db'.
             Inr (i, write_audit now w i ''create''
               [(''before'', JNull), (''after'', after_json kind name ps)] db'))))"

definition upsert_entity ::
  "store_options \<Rightarrow> millis \<Rightarrow> string \<Rightarrow> string \<Rightarrow> string \<Rightarrow> props \<Rightarrow> string option \<Rightarrow> writer \<Rightarrow>
   entity_db \<Rightarrow> (store_error + entity) \<times> entity_db" where
  "upsert_entity opts now uuid kind name ps supplied w db =
     (case and_then (check_input opts kind ps) (\<lambda>_.
             and_then (upsert_target opts kind ps supplied db) (\<lambda>existing.
               upsert_commit opts now uuid kind name ps supplied existing w db)) of
        Inl e \<Rightarrow> (Inl e, db)
      | Inr (i, db') \<Rightarrow>
          (and_then (get_raw db' i) (\<lambda>found.
             case found of None \<Rightarrow> Inl (Entity_not_found i) | Some e \<Rightarrow> Inr e), db'))"

definition rl_key :: "relation_row \<Rightarrow> string \<times> string \<times> string" where
  "rl_key r = (rl_from r, rl_type r, rl_to r)"

definition props_json :: "props option \<Rightarrow> json" where
  "props_json ps = (case ps of None \<Rightarrow> JNull | Some p \<Rightarrow> JObj p)"

text \<open>\<open>INSERT OR IGNORE\<close>: a present key keeps its row.\<close>

definition insert_relation :: "millis \<Rightarrow> string \<Rightarrow> string \<Rightarrow> string \<Rightarrow> props option \<Rightarrow> entity_db \<Rightarrow> entity_db" where
  "insert_relation now f t g ps db =
     (if (f, t, g) \<in> rl_key ` set (db_relations db) then db
      else db\<lparr>db_relations := db_relations db @ [\<lparr>rl_from = f, rl_type = t, rl_to = g,
             rl_properties = map_option props_text ps, rl_created = now\<rparr>]\<rparr>)"

definition relate ::
  "millis \<Rightarrow> string \<Rightarrow> string \<Rightarrow> string \<Rightarrow> props option \<Rightarrow> writer \<Rightarrow> entity_db \<Rightarrow>
   (store_error + unit) \<times> entity_db" where
  "relate now f t g ps w db =
     (case and_then (get_raw db f) (\<lambda>a. and_then (get_raw db g) (\<lambda>b.
             if a = None \<or> b = None then Inl (Relation_target_missing f g) else Inr ())) of
        Inl e \<Rightarrow> (Inl e, db)
      | Inr _ \<Rightarrow> (Inr (), write_audit now w f ''relate''
                    [(''type'', JStr t), (''to_id'', JStr g), (''properties'', props_json ps)]
                    (insert_relation now f t g ps db)))"

definition unrelate ::
  "millis \<Rightarrow> string \<Rightarrow> string \<Rightarrow> string \<Rightarrow> writer \<Rightarrow> entity_db \<Rightarrow> entity_db" where
  "unrelate now f t g w db =
     (if (f, t, g) \<in> rl_key ` set (db_relations db)
      then write_audit now w f ''unrelate'' [(''type'', JStr t), (''to_id'', JStr g)]
             (db\<lparr>db_relations := filter (\<lambda>r. rl_key r \<noteq> (f, t, g)) (db_relations db)\<rparr>)
      else db)"

definition text_json :: "string option \<Rightarrow> json" where
  "text_json s = (case s of None \<Rightarrow> JNull | Some w \<Rightarrow> JStr w)"

definition out_json :: "relation_row \<Rightarrow> json" where
  "out_json r = JObj [(''type'', JStr (rl_type r)), (''to_id'', JStr (rl_to r)), (''properties'', text_json (rl_properties r))]"

definition in_json :: "relation_row \<Rightarrow> json" where
  "in_json r = JObj [(''type'', JStr (rl_type r)), (''from_id'', JStr (rl_from r)), (''properties'', text_json (rl_properties r))]"

definition outgoing :: "entity_db \<Rightarrow> string \<Rightarrow> relation_row list" where
  "outgoing db i = filter (\<lambda>r. rl_from r = i) (db_relations db)"

definition incoming :: "entity_db \<Rightarrow> string \<Rightarrow> relation_row list" where
  "incoming db i = filter (\<lambda>r. rl_to r = i) (db_relations db)"

definition purge ::
  "millis \<Rightarrow> string \<Rightarrow> string \<Rightarrow> writer \<Rightarrow> entity_db \<Rightarrow> (store_error + unit) \<times> entity_db" where
  "purge now i reason w db =
     (if trim reason = [] then (Inl Purge_reason_required, db)
      else (case get_raw db i of
              Inl e \<Rightarrow> (Inl e, db)
            | Inr None \<Rightarrow> (Inl (Entity_not_found i), db)
            | Inr (Some e) \<Rightarrow>
                (Inr (), write_audit now w i ''purge''
                   [(''reason'', JStr reason), (''purged_entity'', entity_json e),
                    (''deleted_outgoing'', JArr (map out_json (outgoing db i))),
                    (''severed_incoming'', JArr (map in_json (incoming db i)))]
                   (db\<lparr>db_relations := filter (\<lambda>r. rl_from r \<noteq> i \<and> rl_to r \<noteq> i) (db_relations db),
                      db_entities := filter (\<lambda>r. er_id r \<noteq> i) (db_entities db)\<rparr>))))"

section \<open>Reads\<close>

record relation_view =
  rv_type :: string
  rv_other :: string
  rv_properties :: "props option"

record expanded =
  ex_entity :: entity
  ex_relations :: "(relation_view list \<times> relation_view list) option"

fun read_relations :: "(relation_row \<Rightarrow> string) \<Rightarrow> relation_row list \<Rightarrow> store_error + relation_view list" where
  "read_relations other [] = Inr []"
| "read_relations other (r # rs) =
     and_then (parse_json_or_null (rl_properties r)) (\<lambda>ps.
     and_then (read_relations other rs) (\<lambda>vs.
       Inr (\<lparr>rv_type = rl_type r, rv_other = other r, rv_properties = ps\<rparr> # vs)))"

definition get_entity :: "entity_db \<Rightarrow> string \<Rightarrow> bool \<Rightarrow> store_error + expanded option" where
  "get_entity db i expand =
     and_then (get_raw db i) (\<lambda>found.
       (case found of
          None \<Rightarrow> Inr None
        | Some e \<Rightarrow>
            if \<not> expand then Inr (Some \<lparr>ex_entity = e, ex_relations = None\<rparr>)
            else and_then (read_relations rl_to (outgoing db i)) (\<lambda>outs.
                 and_then (read_relations rl_from (incoming db i)) (\<lambda>ins.
                   Inr (Some \<lparr>ex_entity = e, ex_relations = Some (outs, ins)\<rparr>)))))"

datatype order_field = By_created | By_updated | By_name
datatype order_dir = Asc | Desc

record find_query =
  fq_kinds :: "string list"
  fq_q :: "string option"
  fq_related_to :: "string option"
  fq_relation_type :: "string option"
  fq_text_match :: "string option"
  fq_status :: "string option"
  fq_order :: "(order_field \<times> order_dir) option"
  fq_limit :: "nat option"

definition any_entity :: find_query where
  "any_entity = \<lparr>fq_kinds = [], fq_q = None, fq_related_to = None, fq_relation_type = None,
     fq_text_match = None, fq_status = None, fq_order = None, fq_limit = None\<rparr>"

text \<open>What SQLite matches: \<open>LIKE\<close> on the name or an alias, and the full-text index over the
  \<open>properties\<close> column, which triggers keep equal to the column.\<close>

record matchers =
  mt_like :: "string \<Rightarrow> entity_row \<Rightarrow> bool"
  mt_fts :: "string \<Rightarrow> entity_row \<Rightarrow> bool"

text \<open>\<open>json_extract(properties, '$.status')\<close> as the text it is compared as.\<close>

definition status_text :: "string \<Rightarrow> string option" where
  "status_text w =
     (case json_parse w of
        Some (JObj ps) \<Rightarrow>
          (case map_of ps ''status'' of
             Some (JStr s) \<Rightarrow> Some s
           | Some (JArr vs) \<Rightarrow> Some (json_stringify (JArr vs))
           | Some (JObj qs) \<Rightarrow> Some (json_stringify (JObj qs))
           | _ \<Rightarrow> None)
      | _ \<Rightarrow> None)"

fun given :: "string option \<Rightarrow> (string \<Rightarrow> bool) \<Rightarrow> bool" where
  "given None p = True"
| "given (Some s) p = p s"

definition row_matches :: "matchers \<Rightarrow> find_query \<Rightarrow> entity_db \<Rightarrow> entity_row \<Rightarrow> bool" where
  "row_matches m q db r =
     ((fq_kinds q \<noteq> [] \<longrightarrow> er_kind r \<in> set (fq_kinds q)) \<and>
      given (fq_q q) (\<lambda>s. s \<noteq> [] \<longrightarrow> mt_like m s r) \<and>
      given (fq_status q) (\<lambda>s. status_text (er_properties r) = Some s) \<and>
      given (fq_related_to q) (\<lambda>i. list_ex (\<lambda>x. rl_from x = er_id r \<and> rl_to x = i \<and>
         given (fq_relation_type q) (\<lambda>t. rl_type x = t)) (db_relations db)) \<and>
      given (fq_text_match q) (\<lambda>s. s \<noteq> [] \<longrightarrow> mt_fts m s r))"

fun order_rows :: "order_field \<Rightarrow> entity_row list \<Rightarrow> entity_row list" where
  "order_rows By_created rs = sort_key er_created rs"
| "order_rows By_updated rs = sort_key er_updated rs"
| "order_rows By_name rs = sort_key er_name rs"

text \<open>Ties are broken by rowid in the same direction, so a descending order is the ascending one
  reversed.\<close>

definition query_rows :: "matchers \<Rightarrow> find_query \<Rightarrow> entity_db \<Rightarrow> entity_row list" where
  "query_rows m q db =
     (let (field, dir) = (case fq_order q of Some x \<Rightarrow> x | None \<Rightarrow> (By_created, Desc));
          rows = order_rows field (filter (row_matches m q db) (db_entities db))
      in take (case fq_limit q of Some n \<Rightarrow> n | None \<Rightarrow> 50) (if dir = Asc then rows else rev rows))"

fun read_rows :: "entity_row list \<Rightarrow> store_error + entity list" where
  "read_rows [] = Inr []"
| "read_rows (r # rs) = and_then (read_row r) (\<lambda>e. and_then (read_rows rs) (\<lambda>es. Inr (e # es)))"

definition find_entities :: "matchers \<Rightarrow> find_query \<Rightarrow> entity_db \<Rightarrow> store_error + entity list" where
  "find_entities m q db = read_rows (query_rows m q db)"

record audit_record =
  ad_id :: nat
  ad_ts :: millis
  ad_trace :: "string option"
  ad_actor :: "string option"
  ad_entity :: string
  ad_op :: string
  ad_diff :: props

definition parse_audit_op :: "string \<Rightarrow> store_error + string" where
  "parse_audit_op s = (if s \<in> set [''create'', ''update'', ''relate'', ''unrelate'', ''purge'']
     then Inr s else Inl (Bad_json s))"

fun read_audits :: "audit_row list \<Rightarrow> store_error + audit_record list" where
  "read_audits [] = Inr []"
| "read_audits (r # rs) =
     and_then (parse_audit_op (au_op r)) (\<lambda>op.
     and_then (parse_json_object (au_diff r)) (\<lambda>d.
     and_then (read_audits rs) (\<lambda>vs.
       Inr (\<lparr>ad_id = au_id r, ad_ts = au_ts r, ad_trace = au_trace r, ad_actor = au_actor r,
             ad_entity = au_entity r, ad_op = op, ad_diff = d\<rparr> # vs))))"

text \<open>\<open>ORDER BY ts DESC, id DESC\<close>.\<close>

definition audit_for :: "entity_db \<Rightarrow> string \<Rightarrow> millis option \<Rightarrow> store_error + audit_record list" where
  "audit_for db i since =
     read_audits (rev (sort_key au_ts
       (filter (\<lambda>r. au_entity r = i \<and> (case since of None \<Rightarrow> True | Some t \<Rightarrow> t \<le> au_ts r)) (db_audit db))))"

section \<open>Runs\<close>

datatype store_op =
    Upsert millis string string string props "string option" writer
  | Relate millis string string string "props option" writer
  | Unrelate millis string string string writer
  | Purge millis string string writer

fun store_step :: "store_options \<Rightarrow> store_op \<Rightarrow> entity_db \<Rightarrow> entity_db" where
  "store_step opts (Upsert now uuid kind name ps supplied w) db = snd (upsert_entity opts now uuid kind name ps supplied w db)"
| "store_step opts (Relate now f t g ps w) db = snd (relate now f t g ps w db)"
| "store_step opts (Unrelate now f t g w) db = unrelate now f t g w db"
| "store_step opts (Purge now i reason w) db = snd (purge now i reason w db)"

text \<open>Properties come from a JSON request body or a record literal: no repeated key.\<close>

fun wf_op :: "store_op \<Rightarrow> bool" where
  "wf_op (Upsert now uuid kind name ps supplied w) = wf_json (JObj ps)"
| "wf_op (Relate now f t g ps w) = (case ps of None \<Rightarrow> True | Some p \<Rightarrow> wf_json (JObj p))"
| "wf_op _ = True"

definition store_run :: "store_options \<Rightarrow> store_op list \<Rightarrow> entity_db" where
  "store_run opts ops = fold (store_step opts) ops empty_db"

section \<open>What the tables hold\<close>

definition text_ok :: "string \<Rightarrow> bool" where
  "text_ok s \<longleftrightarrow> (\<exists>ps. s = props_text ps \<and> wf_json (JObj ps))"

definition text_props :: "string \<Rightarrow> props" where
  "text_props s = (case json_parse s of Some (JObj ps) \<Rightarrow> ps | _ \<Rightarrow> [])"

definition row_entity :: "entity_row \<Rightarrow> entity" where
  "row_entity r = \<lparr>en_id = er_id r, en_kind = er_kind r, en_name = er_name r,
     en_properties = text_props (er_properties r), en_created = er_created r, en_updated = er_updated r\<rparr>"

definition store_inv :: "entity_db \<Rightarrow> bool" where
  "store_inv db \<longleftrightarrow> distinct (map er_id (db_entities db)) \<and> list_all (\<lambda>r. text_ok (er_properties r)) (db_entities db) \<and>
     distinct (map rl_key (db_relations db)) \<and>
     list_all (\<lambda>x. {rl_from x, rl_to x} \<subseteq> er_id ` set (db_entities db) \<and> pred_option text_ok (rl_properties x)) (db_relations db)"

lemma store_invD:
  assumes "store_inv db"
  shows "distinct (map er_id (db_entities db))" "r \<in> set (db_entities db) \<Longrightarrow> text_ok (er_properties r)"
    "distinct (map rl_key (db_relations db))"
    "x \<in> set (db_relations db) \<Longrightarrow> rl_from x \<in> er_id ` set (db_entities db)"
    "x \<in> set (db_relations db) \<Longrightarrow> rl_to x \<in> er_id ` set (db_entities db)"
    "x \<in> set (db_relations db) \<Longrightarrow> pred_option text_ok (rl_properties x)"
  using assms by (auto simp: store_inv_def list_all_iff)

lemma parse_props_text [simp]: "wf_json (JObj ps) \<Longrightarrow> json_parse (props_text ps) = Some (JObj ps)"
  unfolding props_text_def by (rule json_parse_stringify)

lemma text_okD:
  assumes "text_ok s" shows "parse_json_object s = Inr (text_props s)" "props_text (text_props s) = s" "wf_json (JObj (text_props s))"
  using assms by (auto simp: text_ok_def parse_json_object_def text_props_def)

lemma text_ok_props [simp]: "wf_json (JObj ps) \<Longrightarrow> text_ok (props_text ps)"
  "wf_json (JObj ps) \<Longrightarrow> text_props (props_text ps) = ps"
  by (auto simp: text_ok_def text_props_def)

lemma find_rowD: "find_row db i = Some r \<Longrightarrow> r \<in> set (db_entities db) \<and> er_id r = i"
  by (auto simp: find_row_def find_Some_iff)

lemma find_row_None: "find_row db i = None \<longleftrightarrow> i \<notin> er_id ` set (db_entities db)"
  by (auto simp: find_row_def find_None_iff)

lemma get_raw_inv: "store_inv db \<Longrightarrow> get_raw db i = Inr (map_option row_entity (find_row db i))"
  by (auto simp: get_raw_def read_row_def row_entity_def text_okD(1) store_invD dest!: find_rowD split: option.split)

lemma write_audit_frame [simp]:
  "db_entities (write_audit now w i op d db) = db_entities db"
  "db_relations (write_audit now w i op d db) = db_relations db"
  by (simp_all add: write_audit_def)

lemma frame_invariant:
  "db_entities db' = db_entities db \<Longrightarrow> db_relations db' = db_relations db \<Longrightarrow> store_inv db' \<longleftrightarrow> store_inv db"
  by (simp add: store_inv_def)

lemma find_row_frame: "db_entities db' = db_entities db \<Longrightarrow> find_row db' i = find_row db i"
  by (simp add: find_row_def)

text \<open>What an upsert does to the tables: nothing, an update of a present entity, or an insertion.\<close>

lemma upsert_effect:
  assumes inv: "store_inv db"
  obtains (rejected) "snd (upsert_entity opts now uuid kind name ps supplied w db) = db"
  | (updated) i r where "find_row db i = Some r" "check_input opts kind ps = Inr ()"
      "upsert_target opts kind ps supplied db = Inr (Some i)"
      "snd (upsert_entity opts now uuid kind name ps supplied w db) =
         write_audit now w i ''update'' [(''before'', entity_json (row_entity r)), (''after'', after_json kind name ps)]
           (update_entity now i kind name ps db)"
  | (created) i db' where "insert_entity now i kind name ps db = Inr db'" "check_input opts kind ps = Inr ()"
      "upsert_target opts kind ps supplied db = Inr None"
      "snd (upsert_entity opts now uuid kind name ps supplied w db) =
         write_audit now w i ''create'' [(''before'', JNull), (''after'', after_json kind name ps)] db'"
proof (cases "and_then (check_input opts kind ps) (\<lambda>_.
    and_then (upsert_target opts kind ps supplied db) (\<lambda>existing.
      upsert_commit opts now uuid kind name ps supplied existing w db))")
  case (Inl e)
  then show ?thesis using rejected by (simp add: upsert_entity_def)
next
  case (Inr c)
  obtain i dbn where c: "c = (i, dbn)" by (cases c)
  have result: "snd (upsert_entity opts now uuid kind name ps supplied w db) = dbn"
    using Inr c by (simp add: upsert_entity_def)
  from Inr obtain existing where ok: "check_input opts kind ps = Inr ()"
      and target: "upsert_target opts kind ps supplied db = Inr existing"
      and commit: "upsert_commit opts now uuid kind name ps supplied existing w db = Inr (i, dbn)"
    by (auto simp: and_then_Inr c)
  show ?thesis
  proof (cases existing)
    case None
    then obtain db' where "insert_entity now i kind name ps db = Inr db'"
        "dbn = write_audit now w i ''create'' [(''before'', JNull), (''after'', after_json kind name ps)] db'"
      using commit by (auto simp: upsert_commit_def Let_def and_then_Inr)
    then show ?thesis using created ok target None result by blast
  next
    case (Some j)
    then obtain r where "find_row db j = Some r" "i = j"
        "dbn = write_audit now w i ''update'' [(''before'', entity_json (row_entity r)), (''after'', after_json kind name ps)]
           (update_entity now i kind name ps db)"
      using commit by (auto simp: upsert_commit_def get_raw_inv[OF inv] split: option.splits)
    then show ?thesis using updated ok target Some result by blast
  qed
qed

lemma update_frame [simp]:
  "map er_id (db_entities (update_entity now i kind name ps db)) = map er_id (db_entities db)"
  "db_relations (update_entity now i kind name ps db) = db_relations db"
  "db_audit (update_entity now i kind name ps db) = db_audit db"
  by (auto simp: update_entity_def)

lemma update_ids [simp]:
  "er_id ` set (db_entities (update_entity now i kind name ps db)) = er_id ` set (db_entities db)"
  by (metis set_map update_frame(1))

lemma insert_entity_Inr:
  "insert_entity now i kind name ps db = Inr db' \<longleftrightarrow> i \<notin> er_id ` set (db_entities db) \<and>
     db' = db\<lparr>db_entities := db_entities db @ [\<lparr>er_id = i, er_kind = kind, er_name = name,
             er_properties = props_text ps, er_created = now, er_updated = now\<rparr>]\<rparr>"
  by (auto simp: insert_entity_def)

lemma update_texts:
  "wf_json (JObj ps) \<Longrightarrow> list_all (\<lambda>r. text_ok (er_properties r)) (db_entities db) \<Longrightarrow>
   list_all (\<lambda>r. text_ok (er_properties r)) (db_entities (update_entity now i kind name ps db))"
  by (auto simp: update_entity_def list_all_iff)

lemma update_inv: "store_inv db \<Longrightarrow> wf_json (JObj ps) \<Longrightarrow> store_inv (update_entity now i kind name ps db)"
  unfolding store_inv_def update_frame update_ids by (simp add: update_texts)

lemma insert_inv:
  "store_inv db \<Longrightarrow> wf_json (JObj ps) \<Longrightarrow> insert_entity now i kind name ps db = Inr db' \<Longrightarrow> store_inv db'"
  by (auto simp: insert_entity_Inr store_inv_def list_all_iff)

lemma relate_effect:
  assumes inv: "store_inv db"
  obtains "snd (relate now f t g ps w db) = db"
  | "{f, g} \<subseteq> er_id ` set (db_entities db)"
    "snd (relate now f t g ps w db) = write_audit now w f ''relate''
       [(''type'', JStr t), (''to_id'', JStr g), (''properties'', props_json ps)] (insert_relation now f t g ps db)"
  by (cases "find_row db f"; cases "find_row db g")
    (auto simp: relate_def get_raw_inv[OF inv] dest!: find_rowD intro: that)

lemma insert_relation_frame [simp]:
  "db_entities (insert_relation now f t g ps db) = db_entities db"
  "db_audit (insert_relation now f t g ps db) = db_audit db"
  "rl_key ` set (db_relations (insert_relation now f t g ps db)) = insert (f, t, g) (rl_key ` set (db_relations db))"
  by (auto simp: insert_relation_def rl_key_def)

lemma insert_relation_inv:
  assumes "store_inv db" "{f, g} \<subseteq> er_id ` set (db_entities db)" "pred_option (\<lambda>p. wf_json (JObj p)) ps"
  shows "store_inv (insert_relation now f t g ps db)"
  using assms by (cases ps) (auto simp: insert_relation_def store_inv_def list_all_iff rl_key_def)

lemma unrelate_inv: "store_inv db \<Longrightarrow> store_inv (unrelate now f t g w db)"
  by (auto simp: unrelate_def frame_invariant[OF write_audit_frame] store_inv_def list_all_iff distinct_map inj_on_def)

lemma purge_effect:
  assumes inv: "store_inv db"
  obtains "snd (purge now i reason w db) = db"
  | r where "find_row db i = Some r"
    "snd (purge now i reason w db) = write_audit now w i ''purge''
       [(''reason'', JStr reason), (''purged_entity'', entity_json (row_entity r)),
        (''deleted_outgoing'', JArr (map out_json (outgoing db i))),
        (''severed_incoming'', JArr (map in_json (incoming db i)))]
       (db\<lparr>db_relations := filter (\<lambda>r. rl_from r \<noteq> i \<and> rl_to r \<noteq> i) (db_relations db),
          db_entities := filter (\<lambda>r. er_id r \<noteq> i) (db_entities db)\<rparr>)"
proof (cases "find_row db i")
  case None
  then have "snd (purge now i reason w db) = db" by (simp add: purge_def get_raw_inv[OF inv])
  then show ?thesis by (rule that(1))
next
  case (Some r)
  show ?thesis
  proof (cases "trim reason = []")
    case True
    then have "snd (purge now i reason w db) = db" by (simp add: purge_def)
    then show ?thesis by (rule that(1))
  next
    case False
    show ?thesis by (rule that(2)[OF Some]) (simp add: purge_def get_raw_inv[OF inv] False Some)
  qed
qed

lemma drop_entity_inv:
  "store_inv db \<Longrightarrow> store_inv (db\<lparr>db_relations := filter (\<lambda>r. rl_from r \<noteq> i \<and> rl_to r \<noteq> i) (db_relations db),
     db_entities := filter (\<lambda>r. er_id r \<noteq> i) (db_entities db)\<rparr>)"
  by (auto simp: store_inv_def list_all_iff distinct_map inj_on_def)

lemma purge_inv: "store_inv db \<Longrightarrow> store_inv (snd (purge now i reason w db))"
  by (rule purge_effect[of db now i reason w])
    (simp_all only: frame_invariant[OF write_audit_frame] drop_entity_inv)

lemma store_inv_step:
  assumes inv: "store_inv db" and wf: "wf_op op" shows "store_inv (store_step opts op db)"
proof (cases op)
  case (Upsert now uuid kind name ps supplied w)
  have ps: "wf_json (JObj ps)" using wf Upsert by simp
  show ?thesis
    unfolding Upsert store_step.simps
    by (rule upsert_effect[OF inv, of opts now uuid kind name ps supplied w])
      (simp_all only: frame_invariant[OF write_audit_frame] update_inv[OF inv ps] insert_inv[OF inv ps] inv)
next
  case (Relate now f t g ps w)
  have "pred_option (\<lambda>p. wf_json (JObj p)) ps" using wf Relate by (cases ps) simp_all
  then show ?thesis
    unfolding Relate store_step.simps
    by (rule_tac relate_effect[OF inv, of now f t g ps w])
      (simp_all only: frame_invariant[OF write_audit_frame] insert_relation_inv[OF inv] inv)
qed (simp_all add: unrelate_inv purge_inv inv)

section \<open>The audit log accounts for the store\<close>

text \<open>The knowledge base a reader rebuilds from the audit log alone.\<close>

record knowledge =
  kn_entities :: "string \<Rightarrow> (string \<times> string \<times> props) option"
  kn_relations :: "(string \<times> string \<times> string) set"

definition str_at :: "props \<Rightarrow> string \<Rightarrow> string" where
  "str_at d k = (case map_of d k of Some (JStr s) \<Rightarrow> s | _ \<Rightarrow> [])"

definition obj_at :: "props \<Rightarrow> string \<Rightarrow> props" where
  "obj_at d k = (case map_of d k of Some (JObj ps) \<Rightarrow> ps | _ \<Rightarrow> [])"

definition after_of :: "props \<Rightarrow> string \<times> string \<times> props" where
  "after_of d = (let a = obj_at d ''after'' in (str_at a ''kind'', str_at a ''name'', obj_at a ''properties''))"

definition replay_diff :: "string \<Rightarrow> string \<Rightarrow> props \<Rightarrow> knowledge \<Rightarrow> knowledge" where
  "replay_diff i op d kn =
     (if op = ''create'' \<or> op = ''update'' then kn\<lparr>kn_entities := (kn_entities kn)(i \<mapsto> after_of d)\<rparr>
      else if op = ''relate'' then kn\<lparr>kn_relations := insert (i, str_at d ''type'', str_at d ''to_id'') (kn_relations kn)\<rparr>
      else if op = ''unrelate'' then kn\<lparr>kn_relations := kn_relations kn - {(i, str_at d ''type'', str_at d ''to_id'')}\<rparr>
      else kn\<lparr>kn_entities := (kn_entities kn)(i := None),
              kn_relations := {(f, t, g) \<in> kn_relations kn. f \<noteq> i \<and> g \<noteq> i}\<rparr>)"

definition replay_audit :: "audit_row list \<Rightarrow> knowledge" where
  "replay_audit rs = fold (\<lambda>r. replay_diff (au_entity r) (au_op r) (text_props (au_diff r))) rs
     \<lparr>kn_entities = \<lambda>_. None, kn_relations = {}\<rparr>"

definition store_knowledge :: "entity_db \<Rightarrow> knowledge" where
  "store_knowledge db =
     \<lparr>kn_entities = (\<lambda>i. map_option (\<lambda>r. (er_kind r, er_name r, text_props (er_properties r))) (find_row db i)),
      kn_relations = rl_key ` set (db_relations db)\<rparr>"

lemma replay_write:
  "wf_json (JObj d) \<Longrightarrow>
   replay_audit (db_audit (write_audit now w i op d db)) = replay_diff i op d (replay_audit (db_audit db))"
  by (simp add: replay_audit_def write_audit_def)

lemma knowledge_frame [simp]: "store_knowledge (write_audit now w i op d db) = store_knowledge db"
  by (simp add: store_knowledge_def find_row_def)

lemma wf_entity_json: "store_inv db \<Longrightarrow> find_row db i = Some r \<Longrightarrow> wf_json (entity_json (row_entity r))"
  using text_okD(3)[of "er_properties r"] by (auto simp: entity_json_def row_entity_def dest!: find_rowD store_invD(2))

lemma knowledge_update:
  assumes "find_row db i = Some r" and "wf_json (JObj ps)"
  shows "store_knowledge (update_entity now i kind name ps db) =
    (store_knowledge db)\<lparr>kn_entities := (kn_entities (store_knowledge db))(i \<mapsto> (kind, name, ps))\<rparr>"
proof -
  have map: "find (\<lambda>r. er_id r = j) (map (\<lambda>r. if er_id r = i then g r else r) rs) =
      (if j = i then map_option g (find (\<lambda>r. er_id r = j) rs) else find (\<lambda>r. er_id r = j) rs)"
    if "\<And>r. er_id (g r) = er_id r" for j rs and g :: "entity_row \<Rightarrow> entity_row"
    using that by (induction rs) auto
  have "find_row (update_entity now i kind name ps db) j =
      (if j = i then Some (r\<lparr>er_kind := kind, er_name := name, er_properties := props_text ps, er_updated := now\<rparr>)
       else find_row db j)" for j
    using assms(1) by (simp add: find_row_def update_entity_def map)
  then show ?thesis using assms(2) by (auto simp: store_knowledge_def fun_eq_iff)
qed

lemma knowledge_insert:
  assumes "insert_entity now i kind name ps db = Inr db'" and "wf_json (JObj ps)"
  shows "store_knowledge db' =
    (store_knowledge db)\<lparr>kn_entities := (kn_entities (store_knowledge db))(i \<mapsto> (kind, name, ps))\<rparr>"
proof -
  have "find P (xs @ [x]) = (case find P xs of None \<Rightarrow> if P x then Some x else None | y \<Rightarrow> y)"
    for P :: "entity_row \<Rightarrow> bool" and x xs by (induction xs) auto
  moreover have "find_row db i = None" using assms(1) by (simp add: find_row_None insert_entity_Inr)
  ultimately show ?thesis
    using assms by (auto simp: insert_entity_Inr store_knowledge_def fun_eq_iff find_row_def split: option.split)
qed

lemma knowledge_drop:
  "store_knowledge (db\<lparr>db_relations := filter (\<lambda>r. rl_from r \<noteq> i \<and> rl_to r \<noteq> i) (db_relations db),
     db_entities := filter (\<lambda>r. er_id r \<noteq> i) (db_entities db)\<rparr>) =
   (store_knowledge db)\<lparr>kn_entities := (kn_entities (store_knowledge db))(i := None),
      kn_relations := {(f, t, g) \<in> kn_relations (store_knowledge db). f \<noteq> i \<and> g \<noteq> i}\<rparr>"
proof -
  have "find (\<lambda>r. er_id r = j) (filter (\<lambda>r. er_id r \<noteq> i) rs) = (if j = i then None else find (\<lambda>r. er_id r = j) rs)"
    for j and rs :: "entity_row list" by (induction rs) auto
  then show ?thesis by (auto simp: store_knowledge_def find_row_def rl_key_def fun_eq_iff)
qed

definition accounted :: "entity_db \<Rightarrow> bool" where
  "accounted db \<longleftrightarrow> replay_audit (db_audit db) = store_knowledge db"

lemma after_of_created [simp]: "after_of [(''before'', b), (''after'', after_json kind name ps)] = (kind, name, ps)"
  by (simp add: after_of_def after_json_def obj_at_def str_at_def)

lemma accounted_write:
  assumes "wf_json (JObj d)" and "db_audit db' = db_audit db"
    and "store_knowledge db' = replay_diff i op d (store_knowledge db)" and "accounted db"
  shows "accounted (write_audit now w i op d db')"
  using assms by (simp add: accounted_def replay_write del: wf_json.simps)

lemma wf_after: "wf_json (JObj ps) \<Longrightarrow> wf_json (after_json kind name ps)"
  by (simp add: after_json_def)

lemma accounted_upsert:
  assumes inv: "store_inv db" and acc: "accounted db" and ps: "wf_json (JObj ps)"
  shows "accounted (snd (upsert_entity opts now uuid kind name ps supplied w db))"
proof (rule upsert_effect[OF inv, of opts now uuid kind name ps supplied w])
  fix i r
  assume row: "find_row db i = Some r"
    and eq: "snd (upsert_entity opts now uuid kind name ps supplied w db) =
      write_audit now w i ''update'' [(''before'', entity_json (row_entity r)), (''after'', after_json kind name ps)]
        (update_entity now i kind name ps db)"
  show ?thesis
    unfolding eq
    by (rule accounted_write[OF _ _ _ acc])
      (simp_all add: wf_entity_json[OF inv row] wf_after[OF ps] knowledge_update[OF row ps] replay_diff_def)
next
  fix i db'
  assume ins: "insert_entity now i kind name ps db = Inr db'"
    and eq: "snd (upsert_entity opts now uuid kind name ps supplied w db) =
      write_audit now w i ''create'' [(''before'', JNull), (''after'', after_json kind name ps)] db'"
  have "db_audit db' = db_audit db" using ins by (simp add: insert_entity_Inr)
  then show ?thesis
    unfolding eq
    by (intro accounted_write[OF _ _ _ acc])
      (simp_all add: wf_after[OF ps] knowledge_insert[OF ins ps] replay_diff_def)
qed (simp_all only: acc)

lemma accounted_relate:
  assumes inv: "store_inv db" and acc: "accounted db" and ps: "pred_option (\<lambda>p. wf_json (JObj p)) ps"
  shows "accounted (snd (relate now f t g ps w db))"
proof (rule relate_effect[OF inv, of now f t g ps w])
  assume eq: "snd (relate now f t g ps w db) = write_audit now w f ''relate''
       [(''type'', JStr t), (''to_id'', JStr g), (''properties'', props_json ps)] (insert_relation now f t g ps db)"
  have wf: "wf_json (props_json ps)" using ps by (cases ps) (simp_all add: props_json_def)
  have "store_knowledge (insert_relation now f t g ps db) =
      replay_diff f ''relate'' [(''type'', JStr t), (''to_id'', JStr g), (''properties'', props_json ps)] (store_knowledge db)"
    by (simp add: store_knowledge_def replay_diff_def str_at_def find_row_def)
  then show ?thesis
    unfolding eq by (intro accounted_write[OF _ _ _ acc]) (simp_all add: wf)
qed (simp_all only: acc)

lemma accounted_unrelate:
  assumes acc: "accounted db" shows "accounted (unrelate now f t g w db)"
proof (cases "(f, t, g) \<in> rl_key ` set (db_relations db)")
  case True
  show ?thesis
    unfolding unrelate_def if_P[OF True]
    by (rule accounted_write[OF _ _ _ acc])
      (auto simp: store_knowledge_def replay_diff_def str_at_def find_row_def)
qed (simp add: unrelate_def acc)

lemma accounted_purge:
  assumes inv: "store_inv db" and acc: "accounted db"
  shows "accounted (snd (purge now i reason w db))"
proof (rule purge_effect[OF inv, of now i reason w])
  fix r
  assume row: "find_row db i = Some r"
    and eq: "snd (purge now i reason w db) = write_audit now w i ''purge''
       [(''reason'', JStr reason), (''purged_entity'', entity_json (row_entity r)),
        (''deleted_outgoing'', JArr (map out_json (outgoing db i))),
        (''severed_incoming'', JArr (map in_json (incoming db i)))]
       (db\<lparr>db_relations := filter (\<lambda>r. rl_from r \<noteq> i \<and> rl_to r \<noteq> i) (db_relations db),
          db_entities := filter (\<lambda>r. er_id r \<noteq> i) (db_entities db)\<rparr>)"
  have "wf_json (out_json x)" "wf_json (in_json x)" for x
    by (simp_all add: out_json_def in_json_def text_json_def split: option.split)
  then show ?thesis
    unfolding eq
    by (intro accounted_write[OF _ _ _ acc])
      (simp_all add: wf_entity_json[OF inv row] list_all_iff knowledge_drop replay_diff_def)
qed (simp_all only: acc)

lemma accounted_step:
  assumes "store_inv db" "accounted db" "wf_op op" shows "accounted (store_step opts op db)"
proof (cases op)
  case (Relate now f t g ps w)
  then have "pred_option (\<lambda>p. wf_json (JObj p)) ps" using assms(3) by (cases ps) simp_all
  then show ?thesis using assms by (simp add: Relate accounted_relate)
qed (use assms in \<open>simp_all add: accounted_upsert accounted_unrelate accounted_purge\<close>)

definition step_if_wf :: "store_options \<Rightarrow> store_op \<Rightarrow> entity_db \<Rightarrow> entity_db" where
  "step_if_wf opts op db = (if wf_op op then store_step opts op db else db)"

interpretation store_machine: invariant_machine "\<lambda>db. store_inv db \<and> accounted db" "step_if_wf opts"
  by unfold_locales (simp add: step_if_wf_def store_inv_step accounted_step)

lemma store_run_inv:
  assumes "list_all wf_op ops" shows "store_inv (store_run opts ops) \<and> accounted (store_run opts ops)"
proof -
  have "fold (store_step opts) ops db = fold (step_if_wf opts) ops db" for db
    using assms by (induction ops arbitrary: db) (simp_all add: step_if_wf_def)
  moreover have "store_inv empty_db \<and> accounted empty_db"
    by (simp add: empty_db_def store_inv_def accounted_def replay_audit_def store_knowledge_def find_row_def)
  ultimately show ?thesis unfolding store_run_def by (simp add: store_machine.inv_run)
qed

text \<open>Under the invariant no read fails.\<close>

lemma read_rows_inv: "store_inv db \<Longrightarrow> set rs \<subseteq> set (db_entities db) \<Longrightarrow> read_rows rs = Inr (map row_entity rs)"
  by (induction rs) (auto simp: read_row_def row_entity_def text_okD(1) store_invD(2))

lemma order_rows_set [simp]: "set (order_rows f rs) = set rs"
  by (cases f) simp_all

lemma query_rows_subset: "set (query_rows m q db) \<subseteq> set (db_entities db)"
  unfolding query_rows_def Let_def by (auto split: prod.splits if_splits dest!: in_set_takeD)

lemma find_entities_inv: "store_inv db \<Longrightarrow> find_entities m q db = Inr (map row_entity (query_rows m q db))"
  unfolding find_entities_def by (rule read_rows_inv[OF _ query_rows_subset])

lemma read_relations_inv:
  assumes inv: "store_inv db" and "set rs \<subseteq> set (db_relations db)" shows "\<exists>vs. read_relations other rs = Inr vs"
  using assms(2)
proof (induction rs)
  case (Cons r rs)
  then have "pred_option text_ok (rl_properties r)" using store_invD(6)[OF inv] by simp
  then have "\<exists>ps. parse_json_or_null (rl_properties r) = Inr ps"
    by (cases "rl_properties r") (simp_all add: parse_json_or_null_def text_okD(1))
  then show ?case using Cons by auto
qed simp

lemma get_entity_inv:
  assumes inv: "store_inv db" shows "\<exists>x. get_entity db i e = Inr x"
proof -
  have "set (outgoing db i) \<subseteq> set (db_relations db)" "set (incoming db i) \<subseteq> set (db_relations db)"
    by (auto simp: outgoing_def incoming_def)
  from read_relations_inv[OF inv this(1), of rl_to] read_relations_inv[OF inv this(2), of rl_from] show ?thesis
    by (auto simp: get_entity_def get_raw_inv[OF inv] split: option.split)
qed

definition sample_writer :: writer where
  "sample_writer = \<lparr>wr_trace = None, wr_actor = None\<rparr>"

definition sample_ops :: "store_op list" where
  "sample_ops = [Upsert 1 ''u1'' ''client'' ''Ada'' [(''email'', JStr ''a@x'')] None sample_writer,
     Upsert 2 ''u2'' ''client'' ''Ada L.'' [(''email'', JStr ''a@x''), (''vip'', JBool True)] None sample_writer,
     Upsert 3 ''u3'' ''memory'' ''note'' [] (Some ''m'') sample_writer,
     Relate 4 ''m'' ''about'' ''c_u1'' None sample_writer,
     Purge 5 ''c_u1'' ''asked'' sample_writer]"

definition sample_store :: store_options where
  "sample_store = store_options_of
     (Some [(''client'', \<lparr>nk_fields = [''email''], nk_normalize = read_string\<rparr>)]) []
     (Some (\<lambda>kind ps. (kind \<noteq> ''client'' \<or> (\<exists>v \<in> set ps. fst v = ''email''), [])))"

lemma wf_sample_ops: "list_all wf_op sample_ops"
  by (simp add: sample_ops_def)

text \<open>C14: The audit log accounts for the whole store: after any sequence of upserts, relates,
  unrelates and purges, accepted or refused, replaying the log from nothing rebuilds kind, name
  and properties of every entity and the set of relations. The replay reads the JSON the log
  holds.\<close>

theorem audit_accounts:
  assumes "list_all wf_op ops"
  shows "replay_audit (db_audit (store_run opts ops)) = store_knowledge (store_run opts ops)"
  using store_run_inv[OF assms, of opts] by (simp add: accounted_def)

theorem audit_accounts_witness:
  "replay_audit (db_audit (store_run sample_store sample_ops)) = store_knowledge (store_run sample_store sample_ops)"
  by (rule audit_accounts[OF wf_sample_ops])



section \<open>Stored entities have their type\<close>

definition entity_typed :: "store_options \<Rightarrow> entity_row \<Rightarrow> bool" where
  "entity_typed opts r \<longleftrightarrow> check_input opts (er_kind r) (text_props (er_properties r)) = Inr ()"

lemma typed_step:
  assumes inv: "store_inv db" and ty: "list_all (entity_typed opts) (db_entities db)" and wf: "wf_op op"
  shows "list_all (entity_typed opts) (db_entities (store_step opts op db))"
proof (cases op)
  case (Upsert now uuid kind name ps supplied w)
  have ps: "wf_json (JObj ps)" using wf Upsert by simp
  have sub: "list_all (entity_typed opts) (db_entities (update_entity now i kind name ps db))"
    if "check_input opts kind ps = Inr ()" for i
    using ty that ps by (auto simp: update_entity_def list_all_iff entity_typed_def)
  have ins: "list_all (entity_typed opts) (db_entities db')"
    if "check_input opts kind ps = Inr ()" "insert_entity now i kind name ps db = Inr db'" for i db'
    using ty that ps by (auto simp: insert_entity_Inr list_all_iff entity_typed_def)
  show ?thesis
    unfolding Upsert store_step.simps
    by (rule upsert_effect[OF inv, of opts now uuid kind name ps supplied w])
      (simp_all only: write_audit_frame sub ins ty)
next
  case (Relate now f t g ps w)
  show ?thesis
    unfolding Relate store_step.simps
    by (rule relate_effect[OF inv, of now f t g ps w])
      (simp_all only: write_audit_frame insert_relation_frame ty)
next
  case (Unrelate now f t g w)
  then show ?thesis using ty by (simp add: unrelate_def)
next
  case (Purge now i reason w)
  have "list_all (entity_typed opts) (filter (\<lambda>r. er_id r \<noteq> i) (db_entities db))"
    using ty by (simp add: list_all_iff)
  then show ?thesis
    unfolding Purge store_step.simps
    by (rule_tac purge_effect[OF inv, of now i reason w]) (simp_all add: ty)
qed

text \<open>C16: Type preservation: whatever is written, by create, by an update found through a natural key
  or through a supplied id, every entity read from the store has a kind and properties that the
  schema of that kind accepts.\<close>

theorem entities_typed:
  assumes "list_all wf_op ops" and "get_raw (store_run opts ops) i = Inr (Some e)"
  shows "en_kind e \<noteq> [] \<and>
    (case so_validator opts of None \<Rightarrow> True | Some v \<Rightarrow> fst (v (en_kind e) (en_properties e)))"
proof -
  have "list_all (entity_typed opts) (db_entities (store_run opts ops))"
    using assms(1)
  proof (induction ops rule: rev_induct)
    case Nil
    show ?case by (simp add: store_run_def empty_db_def)
  next
    case (snoc op ops)
    then show ?case
      using typed_step[of "store_run opts ops" opts op] store_run_inv[of ops opts]
      by (simp add: store_run_def)
  qed
  moreover obtain r where "r \<in> set (db_entities (store_run opts ops))" "e = row_entity r"
    using assms(2) store_run_inv[OF assms(1), of opts] by (auto simp: get_raw_inv dest!: find_rowD)
  ultimately have "check_input opts (en_kind e) (en_properties e) = Inr ()"
    by (auto simp: list_all_iff entity_typed_def row_entity_def)
  then show ?thesis by (auto simp: check_input_def split: if_splits option.splits)
qed

lemma sample_client:
  "get_raw (store_run sample_store (take 2 sample_ops)) ''c_u1'' =
     Inr (Some \<lparr>en_id = ''c_u1'', en_kind = ''client'', en_name = ''Ada L.'',
       en_properties = [(''email'', JStr ''a@x''), (''vip'', JBool True)], en_created = 1, en_updated = 2\<rparr>)"
  by code_simp

theorem entities_typed_witness:
  "case so_validator sample_store of None \<Rightarrow> True
   | Some v \<Rightarrow> fst (v ''client'' [(''email'', JStr ''a@x''), (''vip'', JBool True)])"
proof -
  have "list_all wf_op (take 2 sample_ops)" by (simp add: sample_ops_def)
  from entities_typed[OF this sample_client] show ?thesis by (simp split: option.splits)
qed

section \<open>Natural keys\<close>

definition row_key :: "store_options \<Rightarrow> entity_row \<Rightarrow> store_error + string option" where
  "row_key opts r = compute_natural_key opts (er_kind r) (text_props (er_properties r))"

definition keys_unique :: "store_options \<Rightarrow> entity_row list \<Rightarrow> bool" where
  "keys_unique opts rs \<longleftrightarrow> (\<forall>r \<in> set rs. \<forall>x \<in> set rs. \<forall>k.
     er_kind r = er_kind x \<and> row_key opts r = Inr (Some k) \<and> row_key opts x = Inr (Some k) \<longrightarrow> er_id r = er_id x)"

lemma keys_uniqueD:
  "keys_unique opts rs \<Longrightarrow> r \<in> set rs \<Longrightarrow> x \<in> set rs \<Longrightarrow> er_kind r = er_kind x \<Longrightarrow>
   row_key opts r = Inr (Some k) \<Longrightarrow> row_key opts x = Inr (Some k) \<Longrightarrow> er_id r = er_id x"
  unfolding keys_unique_def by blast

lemma keys_unique_subset: "keys_unique opts rs \<Longrightarrow> set xs \<subseteq> set rs \<Longrightarrow> keys_unique opts xs"
  unfolding keys_unique_def by blast

lemma first_with_key_Inr:
  assumes "list_all (\<lambda>r. text_ok (er_properties r) \<and> er_kind r = kind) rs"
    and "first_with_key opts kind key rs = Inr found"
  shows "case found of
      None \<Rightarrow> \<forall>r \<in> set rs. row_key opts r \<noteq> Inr (Some key)
    | Some i \<Rightarrow> \<exists>r \<in> set rs. er_id r = i \<and> row_key opts r = Inr (Some key)"
  using assms
proof (induction rs)
  case (Cons r rs)
  then show ?case
    by (auto simp: text_okD(1) and_then_Inr row_key_def split: if_splits option.splits)
qed simp

lemma target_by_key:
  assumes inv: "store_inv db" and target: "upsert_target opts kind ps None db = Inr found"
    and key: "compute_natural_key opts kind ps = Inr (Some key)"
  shows "case found of
      None \<Rightarrow> \<forall>r \<in> set (db_entities db). er_kind r = kind \<longrightarrow> row_key opts r \<noteq> Inr (Some key)
    | Some i \<Rightarrow> \<exists>r \<in> set (db_entities db). er_id r = i \<and> er_kind r = kind \<and> row_key opts r = Inr (Some key)"
proof -
  let ?rs = "filter (\<lambda>r. er_kind r = kind) (db_entities db)"
  have "map_of (so_natural_keys opts) kind \<noteq> None"
    using key by (cases "map_of (so_natural_keys opts) kind") (auto simp: compute_natural_key_def split: if_splits)
  then have "first_with_key opts kind key ?rs = Inr found"
    using target key by (auto simp: upsert_target_def find_by_natural_key_def)
  from first_with_key_Inr[OF _ this] show ?thesis
    using store_invD(2)[OF inv] by (auto simp: list_all_iff split: option.splits)
qed

lemma target_without_key:
  assumes "upsert_target opts kind ps None db = Inr (Some i)"
  shows "\<exists>key. compute_natural_key opts kind ps = Inr (Some key)"
  using assms by (auto simp: upsert_target_def and_then_Inr split: option.splits)

text \<open>A row that is put in the place of others keeps the keys unique if nothing else has its key.\<close>

lemma keys_unique_insert:
  assumes uniq: "keys_unique opts rs" and sub: "set xs \<subseteq> insert new {r \<in> set rs. er_id r \<noteq> er_id new}"
    and other: "\<And>r k. r \<in> set rs \<Longrightarrow> er_id r \<noteq> er_id new \<Longrightarrow> er_kind r = er_kind new \<Longrightarrow>
      row_key opts new = Inr (Some k) \<Longrightarrow> row_key opts r \<noteq> Inr (Some k)"
  shows "keys_unique opts xs"
  unfolding keys_unique_def
proof (intro ballI allI impI, elim conjE)
  fix r x k
  assume "r \<in> set xs" "x \<in> set xs" and kind: "er_kind r = er_kind x"
    and keys: "row_key opts r = Inr (Some k)" "row_key opts x = Inr (Some k)"
  then consider "r = new" "x = new" | "r = new" "x \<in> set rs" "er_id x \<noteq> er_id new"
    | "x = new" "r \<in> set rs" "er_id r \<noteq> er_id new" | "r \<in> set rs" "x \<in> set rs"
    using sub by blast
  then show "er_id r = er_id x"
  proof cases
    case 2
    then show ?thesis using other[of x k] kind keys by simp
  next
    case 3
    then show ?thesis using other[of r k] kind keys by simp
  next
    case 4
    then show ?thesis using keys_uniqueD[OF uniq _ _ kind keys] by blast
  qed simp
qed

fun own_id :: "store_op \<Rightarrow> bool" where
  "own_id (Upsert now uuid kind name ps supplied w) = (supplied \<noteq> None)"
| "own_id _ = False"

lemma row_key_text [simp]:
  "wf_json (JObj ps) \<Longrightarrow> er_properties r = props_text ps \<Longrightarrow> row_key opts r = compute_natural_key opts (er_kind r) ps"
  by (simp add: row_key_def)

lemma keys_unique_step:
  assumes inv: "store_inv db" and uniq: "keys_unique opts (db_entities db)" and wf: "wf_op op" and gen: "\<not> own_id op"
  shows "keys_unique opts (db_entities (store_step opts op db))"
proof (cases op)
  case (Upsert now uuid kind name ps supplied w)
  have ps: "wf_json (JObj ps)" and none: "supplied = None" using wf gen Upsert by simp_all
  show ?thesis
    unfolding Upsert store_step.simps
  proof (rule upsert_effect[OF inv, of opts now uuid kind name ps supplied w])
    fix i r
    assume row: "find_row db i = Some r" and target: "upsert_target opts kind ps supplied db = Inr (Some i)"
      and eq: "snd (upsert_entity opts now uuid kind name ps supplied w db) = write_audit now w i ''update''
        [(''before'', entity_json (row_entity r)), (''after'', after_json kind name ps)] (update_entity now i kind name ps db)"
    obtain key where key: "compute_natural_key opts kind ps = Inr (Some key)"
      using target_without_key target none by blast
    obtain x where x: "x \<in> set (db_entities db)" "er_id x = i" "er_kind x = kind" "row_key opts x = Inr (Some key)"
      using target_by_key[OF inv target[unfolded none] key] by auto
    let ?new = "r\<lparr>er_kind := kind, er_name := name, er_properties := props_text ps, er_updated := now\<rparr>"
    have id: "er_id r = i" "r \<in> set (db_entities db)" using find_rowD[OF row] by simp_all
    have only: "y = r" if "y \<in> set (db_entities db)" "er_id y = i" for y
      using store_invD(1)[OF inv] that id by (auto simp: distinct_map inj_on_def)
    have "keys_unique opts (db_entities (update_entity now i kind name ps db))"
    proof (rule keys_unique_insert[OF uniq, where new = ?new])
      show "set (db_entities (update_entity now i kind name ps db)) \<subseteq> insert ?new {y \<in> set (db_entities db). er_id y \<noteq> er_id ?new}"
      proof
        fix z
        assume "z \<in> set (db_entities (update_entity now i kind name ps db))"
        then obtain y where y: "y \<in> set (db_entities db)" and z: "z = (if er_id y = i
            then y\<lparr>er_kind := kind, er_name := name, er_properties := props_text ps, er_updated := now\<rparr> else y)"
          unfolding update_entity_def by auto
        show "z \<in> insert ?new {y \<in> set (db_entities db). er_id y \<noteq> er_id ?new}"
        proof (cases "er_id y = i")
          case True
          then show ?thesis using only[OF y True] by (simp add: z)
        qed (simp add: z y id)
      qed
      fix y k
      assume y: "y \<in> set (db_entities db)" "er_id y \<noteq> er_id ?new" "er_kind y = er_kind ?new"
        and k: "row_key opts ?new = Inr (Some k)"
      have "k = key" using k key ps by simp
      have "er_kind y = er_kind x" using y(3) x(3) by simp
      from keys_uniqueD[OF uniq y(1) x(1) this _ x(4)] have "row_key opts y = Inr (Some key) \<Longrightarrow> er_id y = i"
        using x(2) by simp
      then show "row_key opts y \<noteq> Inr (Some k)" using y(2) id(1) \<open>k = key\<close> by auto
    qed
    then show "keys_unique opts (db_entities (snd (upsert_entity opts now uuid kind name ps supplied w db)))"
      unfolding eq by simp
  next
    fix i db'
    assume ins: "insert_entity now i kind name ps db = Inr db'"
      and target: "upsert_target opts kind ps supplied db = Inr None"
      and eq: "snd (upsert_entity opts now uuid kind name ps supplied w db) = write_audit now w i ''create''
        [(''before'', JNull), (''after'', after_json kind name ps)] db'"
    let ?new = "\<lparr>er_id = i, er_kind = kind, er_name = name, er_properties = props_text ps,
      er_created = now, er_updated = now\<rparr>"
    have "keys_unique opts (db_entities db')"
    proof (rule keys_unique_insert[OF uniq, where new = ?new])
      show "set (db_entities db') \<subseteq> insert ?new {y \<in> set (db_entities db). er_id y \<noteq> er_id ?new}"
        using ins by (auto simp: insert_entity_Inr)
      fix y k
      assume y: "y \<in> set (db_entities db)" "er_kind y = er_kind ?new" and k: "row_key opts ?new = Inr (Some k)"
      have "compute_natural_key opts kind ps = Inr (Some k)" using k ps by simp
      from target_by_key[OF inv target[unfolded none] this] show "row_key opts y \<noteq> Inr (Some k)"
        using y by simp
    qed
    then show "keys_unique opts (db_entities (snd (upsert_entity opts now uuid kind name ps supplied w db)))"
      unfolding eq by simp
  qed (simp_all only: uniq)
next
  case (Relate now f t g ps w)
  show ?thesis
    unfolding Relate store_step.simps
    by (rule relate_effect[OF inv, of now f t g ps w])
      (simp_all only: write_audit_frame insert_relation_frame uniq)
next
  case (Unrelate now f t g w)
  then show ?thesis using uniq by (simp add: unrelate_def)
next
  case (Purge now i reason w)
  have "keys_unique opts (filter (\<lambda>r. er_id r \<noteq> i) (db_entities db))"
    by (rule keys_unique_subset[OF uniq]) auto
  then show ?thesis
    unfolding Purge store_step.simps
    by (rule_tac purge_effect[OF inv, of now i reason w]) (simp_all add: uniq)
qed

text \<open>While callers leave ids to the store, two entities of a kind never have the same natural key:
  the second upsert of a key updates the entity of the first.\<close>

theorem natural_keys_unique:
  assumes "list_all (\<lambda>op. wf_op op \<and> \<not> own_id op) ops"
  shows "keys_unique opts (db_entities (store_run opts ops))"
  using assms
proof (induction ops rule: rev_induct)
  case Nil
  show ?case by (simp add: store_run_def empty_db_def keys_unique_def)
next
  case (snoc op ops)
  then have "list_all wf_op ops" by (simp add: list_all_iff)
  then show ?case
    using snoc keys_unique_step[of "store_run opts ops" opts op] store_run_inv[of ops opts]
    by (simp add: store_run_def)
qed

theorem natural_keys_unique_witness:
  "keys_unique sample_store (db_entities (store_run sample_store (take 2 sample_ops)))"
  by (rule natural_keys_unique) (simp add: sample_ops_def)

text \<open>A caller that supplies an id can create a second entity with a present key; the code declares an
  error for it (\<open>NATURAL_KEY_AMBIGUOUS\<close>) and never throws it: a later upsert updates whichever
  comes first.\<close>

lemma supplied_id_duplicates_key:
  "map er_id (db_entities (store_run sample_store
     [Upsert 1 ''u1'' ''client'' ''Ada'' [(''email'', JStr ''a@x'')] None sample_writer,
      Upsert 2 ''u2'' ''client'' ''Eve'' [(''email'', JStr ''a@x'')] (Some ''own'') sample_writer])) = [''c_u1'', ''own'']"
  by code_simp

text \<open>The parts of a natural key are joined without escaping: two records that differ in both fields
  have one key, and the second overwrites the first.\<close>

lemma natural_keys_collide:
  "let opts = sample_store\<lparr>so_natural_keys := [(''client'', \<lparr>nk_fields = [''a'', ''b''], nk_normalize = read_string\<rparr>)],
         so_validator := None\<rparr>
   in map er_name (db_entities (store_run opts
     [Upsert 1 ''u1'' ''client'' ''Ada'' [(''a'', JStr ''x|y''), (''b'', JStr ''z'')] None sample_writer,
      Upsert 2 ''u2'' ''client'' ''Eve'' [(''a'', JStr ''x''), (''b'', JStr ''y|z'')] None sample_writer])) = [''Eve'']"
  by code_simp

text \<open>Relating a related pair again with other properties changes nothing, but the log records the new
  properties as if they were stored.\<close>

lemma relate_again_logs_unstored:
  "let db = store_run sample_store
     [Upsert 1 ''u1'' ''memory'' ''a'' [] None sample_writer, Upsert 2 ''u2'' ''memory'' ''b'' [] None sample_writer,
      Relate 3 ''m_u1'' ''about'' ''m_u2'' (Some [(''role'', JStr ''old'')]) sample_writer,
      Relate 4 ''m_u1'' ''about'' ''m_u2'' (Some [(''role'', JStr ''new'')]) sample_writer]
   in map rl_properties (db_relations db) = [Some (props_text [(''role'', JStr ''old'')])] \<and>
      obj_at (text_props (au_diff (last (db_audit db)))) ''properties'' = [(''role'', JStr ''new'')]"
  by code_simp

end
