(* ===== verification/EntityIdentity.thy ===== *)
theory EntityIdentity
  imports Entities
begin

text \<open>
  What the worker does with entities (\<open>services/entities/\<close>): the tables derived from the kind schemas
  (\<open>entity-schema.service.ts\<close>), identity hints and the resolver that finds the actor of an event
  (\<open>identity-hint-extractor.service.ts\<close>, \<open>entity-resolver.service.ts\<close>, \<open>strategies/\<close>), the mention
  extractor, the interaction log (\<open>entity-worker-integration.service.ts\<close>), the hook around a turn
  (\<open>worker-entities-hook.service.ts\<close>) and the prompt handbook (\<open>entity-model-renderer.service.ts\<close>).
  A JavaScript object is its association list in property order.
\<close>

section \<open>Kind schemas\<close>

datatype type_spec = One_type string | Types "string list"

record schema_property =
  sp_type :: "type_spec option"
  sp_format :: "string option"
  sp_description :: "string option"
  sp_enum :: "json list option"
  sp_items_type :: "type_spec option"

record kind_schema =
  ks_description :: "string option"
  ks_required :: "string list option"
  ks_properties :: "(string, schema_property) jsmap"
  ks_natural_keys :: "string list option"
  ks_natural_key_fields :: "string list option"
  ks_vectorizable :: "json option"

type_synonym kind_schemas = "(string, kind_schema) jsmap"

record relation_declaration =
  rd_from :: string
  rd_to :: string
  rd_description :: "string option"
  rd_properties :: "(string, schema_property) jsmap option"

datatype schema_error = Invalid_schema string | Push_not_function

definition lower :: "string \<Rightarrow> string" where
  "lower s = map lower_char s"

definition normalize_key :: "jsval \<Rightarrow> string option" where
  "normalize_key v =
     (case v of
        Val (JStr s) \<Rightarrow> if trim s = [] then None else Some (lower (trim s))
      | _ \<Rightarrow> None)"

definition natural_key_fields :: "kind_schema \<Rightarrow> string list option" where
  "natural_key_fields s =
     (case ks_natural_keys s of Some fs \<Rightarrow> Some fs | None \<Rightarrow> ks_natural_key_fields s)"

definition build_natural_key_config :: "kind_schemas \<Rightarrow> (string, natural_key_spec) jsmap" where
  "build_natural_key_config schemas = foldl (\<lambda>m (kind, s).
     (case natural_key_fields s of
        None \<Rightarrow> m
      | Some fs \<Rightarrow> if fs = [] then m
                   else AList.update kind \<lparr>nk_fields = fs, nk_normalize = normalize_key\<rparr> m)) [] schemas"

text \<open>\<open>property in schema.properties\<close> also holds for inherited members.\<close>

definition declares :: "kind_schema \<Rightarrow> string \<Rightarrow> bool" where
  "declares s k \<longleftrightarrow> k \<in> fst ` set (ks_properties s) \<or> object_inherited k \<noteq> Undef"

fun build_vectorizable_config :: "kind_schemas \<Rightarrow> schema_error + (string \<times> string) list" where
  "build_vectorizable_config [] = Inr []"
| "build_vectorizable_config ((kind, s) # rest) =
     (case ks_vectorizable s of
        None \<Rightarrow> build_vectorizable_config rest
      | Some (JStr p) \<Rightarrow>
          if trim p = [] \<or> \<not> declares s p then Inl (Invalid_schema kind)
          else and_then (build_vectorizable_config rest) (\<lambda>vs. Inr ((kind, p) # vs))
      | Some _ \<Rightarrow> Inl (Invalid_schema kind))"

record identity_index =
  ix_format :: "(string, (string \<times> string) list) jsmap"
  ix_name :: "(string, (string \<times> string) list) jsmap"

definition identity_property_names :: "string list" where
  "identity_property_names = [''slack_user_id'', ''oidc_subject'']"

text \<open>\<open>list = map[k] ?? []; list.push(x); map[k] = list\<close>; an inherited member is not an array.\<close>

definition push_at ::
  "string \<Rightarrow> 'a \<Rightarrow> (string, 'a list) jsmap \<Rightarrow> schema_error + (string, 'a list) jsmap" where
  "push_at k x m =
     (case map_of m k of
        Some xs \<Rightarrow> Inr (AList.update k (xs @ [x]) m)
      | None \<Rightarrow> if object_inherited k = Undef then Inr (AList.update k [x] m) else Inl Push_not_function)"

definition index_property :: "string \<Rightarrow> string \<times> schema_property \<Rightarrow> identity_index \<Rightarrow> schema_error + identity_index" where
  "index_property kind p ix =
     and_then (case sp_format (snd p) of
                 None \<Rightarrow> Inr (ix_format ix)
               | Some f \<Rightarrow> push_at f (kind, fst p) (ix_format ix)) (\<lambda>fm.
     and_then (if fst p \<in> set identity_property_names then push_at (fst p) (kind, fst p) (ix_name ix)
               else Inr (ix_name ix)) (\<lambda>nm.
       Inr \<lparr>ix_format = fm, ix_name = nm\<rparr>))"

definition build_identity_property_index :: "kind_schemas \<Rightarrow> schema_error + identity_index" where
  "build_identity_property_index schemas =
     fold (\<lambda>(kind, p) acc. and_then acc (index_property kind p))
       (concat (map (\<lambda>(kind, s). map (Pair kind) (ks_properties s)) schemas))
       (Inr \<lparr>ix_format = [], ix_name = []\<rparr>)"

text \<open>\<open>SchemaValidator\<close>: the compiled validators are Ajv's; a kind without one is accepted.\<close>

record ajv_error =
  aj_path :: string
  aj_missing :: "string option"
  aj_message :: "string option"
  aj_keyword :: string

type_synonym ajv = "kind_schema \<Rightarrow> props \<Rightarrow> bool \<times> ajv_error list"

definition validation_error :: "ajv_error \<Rightarrow> validation_failure" where
  "validation_error e =
     \<lparr>vf_property = (if aj_path e = [] then (case aj_missing e of Some p \<Rightarrow> p | None \<Rightarrow> ''<root>'') else aj_path e),
      vf_message = (case aj_message e of Some m \<Rightarrow> m | None \<Rightarrow> ''validation failed''),
      vf_keyword = Some (aj_keyword e)\<rparr>"

definition validate_kind :: "ajv \<Rightarrow> kind_schemas \<Rightarrow> string \<Rightarrow> props \<Rightarrow> bool \<times> validation_failure list" where
  "validate_kind ajv schemas kind ps =
     (case map_of schemas kind of
        None \<Rightarrow> (True, [])
      | Some s \<Rightarrow> if fst (ajv s ps) then (True, []) else (False, map validation_error (snd (ajv s ps))))"

section \<open>Identity hints\<close>

record identity_hints =
  ih_email :: "string option"
  ih_slack_user_id :: "string option"
  ih_oidc_email :: "string option"

definition no_hints :: identity_hints where
  "no_hints = \<lparr>ih_email = None, ih_slack_user_id = None, ih_oidc_email = None\<rparr>"

datatype surface = Slack | Gmail | Http

fun surface_text :: "surface \<Rightarrow> string" where
  "surface_text Slack = ''slack''"
| "surface_text Gmail = ''gmail''"
| "surface_text Http = ''http''"

definition read_string_field :: "jsval \<Rightarrow> string \<Rightarrow> string option" where
  "read_string_field v k = (case read_indexed v k of Val (JStr s) \<Rightarrow> Some s | _ \<Rightarrow> None)"

text \<open>The first match of \<open>/<([^>]+)>/\<close>.\<close>

fun angle_text :: "string \<Rightarrow> string option" where
  "angle_text [] = None"
| "angle_text (c # cs) =
     (if c = CHR ''<'' \<and> takeWhile (\<lambda>x. x \<noteq> CHR ''>'') cs \<noteq> [] \<and> CHR ''>'' \<in> set cs
      then Some (takeWhile (\<lambda>x. x \<noteq> CHR ''>'') cs) else angle_text cs)"

definition read_email_like_field :: "jsval \<Rightarrow> string \<Rightarrow> string option" where
  "read_email_like_field v k =
     (case read_string_field v k of
        None \<Rightarrow> None
      | Some raw \<Rightarrow>
          (case angle_text raw of
             Some w \<Rightarrow> Some w
           | None \<Rightarrow> if CHR ''@'' \<in> set raw then Some (trim raw) else None))"

fun first_some :: "'a option list \<Rightarrow> 'a option" where
  "first_some [] = None"
| "first_some (x # xs) = (case x of Some v \<Rightarrow> Some v | None \<Rightarrow> first_some xs)"

definition extract_slack_hints :: "jsval \<Rightarrow> identity_hints" where
  "extract_slack_hints payload =
     (let event = read_indexed payload ''event'';
          nested = (if is_plain_object event then read_string_field event ''user'' else None)
      in no_hints\<lparr>ih_slack_user_id := first_some [nested, read_string_field payload ''user'']\<rparr>)"

definition extract_gmail_hints :: "jsval \<Rightarrow> identity_hints" where
  "extract_gmail_hints payload =
     no_hints\<lparr>ih_email := first_some (map (read_email_like_field payload) [''from'', ''fromEmail'', ''sender''])\<rparr>"

definition extract_http_hints :: "jsval \<Rightarrow> identity_hints" where
  "extract_http_hints payload =
     no_hints\<lparr>ih_email := read_string_field payload ''dispatching_actor_email'',
       ih_oidc_email := read_string_field payload ''oidc_email''\<rparr>"

definition extract_identity_hints :: "surface \<Rightarrow> jsval \<Rightarrow> identity_hints" where
  "extract_identity_hints s payload =
     (if \<not> is_plain_object payload then no_hints
      else (case s of Slack \<Rightarrow> extract_slack_hints payload | Gmail \<Rightarrow> extract_gmail_hints payload
            | Http \<Rightarrow> extract_http_hints payload))"

definition resolve_surface :: "string \<Rightarrow> surface" where
  "resolve_surface provider =
     (if provider \<in> {''slack-winston'', ''slack-socket'', ''slack''} then Slack
      else if provider \<in> {''gmail-pubsub'', ''gmail''} then Gmail
      else if sublist ''slack'' provider then Slack
      else if sublist ''gmail'' provider \<or> sublist ''email'' provider then Gmail
      else Http)"

section \<open>The resolver\<close>

record resolver_strategy =
  rs_format :: "string option"
  rs_property :: "string option"
  rs_priority :: nat
  rs_hint :: "identity_hints \<Rightarrow> string option"
  rs_normalize :: "string \<Rightarrow> string"

definition email_strategy :: resolver_strategy where
  "email_strategy = \<lparr>rs_format = Some ''email'', rs_property = None, rs_priority = 20,
     rs_hint = (\<lambda>h. first_some [ih_email h, ih_oidc_email h]), rs_normalize = (\<lambda>s. lower (trim s))\<rparr>"

definition slack_user_id_strategy :: resolver_strategy where
  "slack_user_id_strategy = \<lparr>rs_format = None, rs_property = Some ''slack_user_id'', rs_priority = 10,
     rs_hint = ih_slack_user_id, rs_normalize = trim\<rparr>"

definition get_targets_for :: "resolver_strategy \<Rightarrow> identity_index \<Rightarrow> (string \<times> string) list" where
  "get_targets_for s ix =
     (case rs_format s of
        Some f \<Rightarrow> (case map_of (ix_format ix) f of Some ts \<Rightarrow> ts | None \<Rightarrow> [])
      | None \<Rightarrow> (case rs_property s of
                   Some p \<Rightarrow> (case map_of (ix_name ix) p of Some ts \<Rightarrow> ts | None \<Rightarrow> [])
                 | None \<Rightarrow> []))"

text \<open>\<open>json_extract(properties, '$.' || name)\<close> as text, for a name without path characters.\<close>

fun sql_text :: "json \<Rightarrow> string option" where
  "sql_text JNull = None"
| "sql_text (JStr s) = Some s"
| "sql_text (JBool b) = Some (if b then ''1'' else ''0'')"
| "sql_text v = Some (json_stringify v)"

definition property_text :: "entity_row \<Rightarrow> string \<Rightarrow> string option" where
  "property_text r name =
     (case map_of (text_props (er_properties r)) name of Some v \<Rightarrow> sql_text v | None \<Rightarrow> None)"

definition find_by_property :: "entity_db \<Rightarrow> string \<Rightarrow> string \<Rightarrow> string \<Rightarrow> entity_row option" where
  "find_by_property db kind name v =
     find (\<lambda>r. er_kind r = kind \<and> map_option lower (property_text r name) = Some (lower v)) (db_entities db)"

text \<open>An actor is an object; the properties are spread after kind, id and name. An \<open>id\<close> property that
  is not a string is outside the model.\<close>

type_synonym actor = props

definition entity_to_actor :: "entity_row \<Rightarrow> actor" where
  "entity_to_actor r = js_object ([(''kind'', JStr (er_kind r)), (''id'', JStr (er_id r)), (''name'', JStr (er_name r))]
     @ text_props (er_properties r))"

definition stranger :: "string option \<Rightarrow> actor" where
  "stranger email = [(''kind'', JStr ''stranger''), (''id'', JNull), (''email'', text_json email)]"

fun first_target :: "entity_db \<Rightarrow> string \<Rightarrow> (string \<times> string) list \<Rightarrow> entity_row option" where
  "first_target db v [] = None"
| "first_target db v ((kind, name) # ts) =
     (case find_by_property db kind name v of Some r \<Rightarrow> Some r | None \<Rightarrow> first_target db v ts)"

fun try_strategies :: "entity_db \<Rightarrow> identity_index \<Rightarrow> identity_hints \<Rightarrow> resolver_strategy list \<Rightarrow> entity_row option" where
  "try_strategies db ix h [] = None"
| "try_strategies db ix h (s # rest) =
     (case rs_hint s h of
        None \<Rightarrow> try_strategies db ix h rest
      | Some raw \<Rightarrow>
          if raw = [] then try_strategies db ix h rest
          else (case first_target db (rs_normalize s raw) (get_targets_for s ix) of
                  Some r \<Rightarrow> Some r
                | None \<Rightarrow> try_strategies db ix h rest))"

definition ordered_strategies :: "resolver_strategy list option \<Rightarrow> resolver_strategy list" where
  "ordered_strategies given_list = sort_key rs_priority
     (case given_list of Some ss \<Rightarrow> ss | None \<Rightarrow> [slack_user_id_strategy, email_strategy])"

definition resolve_actor :: "resolver_strategy list \<Rightarrow> identity_index \<Rightarrow> entity_db \<Rightarrow> identity_hints \<Rightarrow> actor" where
  "resolve_actor ss ix db h =
     (case try_strategies db ix h ss of
        Some r \<Rightarrow> entity_to_actor r
      | None \<Rightarrow> stranger (first_some [ih_email h, ih_oidc_email h]))"

section \<open>Mentions\<close>

text \<open>The maximal runs of non-space characters: \<open>split(/\s+/)\<close> without its empty ends.\<close>

fun words_of :: "string \<Rightarrow> string list" where
  "words_of [] = []"
| "words_of (c # cs) =
     (if is_space c then words_of cs
      else (case cs of
              [] \<Rightarrow> [[c]]
            | d # _ \<Rightarrow> if is_space d then [c] # words_of cs
                       else (case words_of cs of [] \<Rightarrow> [[c]] | w # ws \<Rightarrow> (c # w) # ws)))"

definition alias_terms :: "json option \<Rightarrow> string list" where
  "alias_terms v = (case v of
     Some (JArr vs) \<Rightarrow> concat (map (\<lambda>x. case x of JStr s \<Rightarrow> [s] | _ \<Rightarrow> []) vs) | _ \<Rightarrow> [])"

definition collect_terms :: "entity \<Rightarrow> string list" where
  "collect_terms e =
     [en_name e] @ filter (\<lambda>w. w \<noteq> en_name e) (words_of (en_name e))
     @ (case map_of (en_properties e) ''nickname'' of Some (JStr s) \<Rightarrow> if s \<noteq> [] then [s] else [] | _ \<Rightarrow> [])
     @ alias_terms (map_of (en_properties e) ''aliases'')"

definition is_word_char :: "char \<Rightarrow> bool" where
  "is_word_char c \<longleftrightarrow> is_lower (lower_char c) \<or> is_digit c \<or> c = CHR ''_''"

text \<open>Some occurrence of the term has no word character before or after it.\<close>

fun bounded_in :: "char \<Rightarrow> string \<Rightarrow> string \<Rightarrow> bool" where
  "bounded_in before term text =
     (prefix term text \<and> \<not> is_word_char before \<and>
        \<not> is_word_char (case drop (length term) text of [] \<Rightarrow> CHR '' '' | c # _ \<Rightarrow> c) \<or>
      (case text of [] \<Rightarrow> False | c # cs \<Rightarrow> bounded_in c term cs))"

declare bounded_in.simps [simp del]

definition has_word_boundary :: "string \<Rightarrow> string \<Rightarrow> bool" where
  "has_word_boundary text term = bounded_in CHR '' '' term text"

definition index_term :: "nat \<Rightarrow> string \<Rightarrow> string \<Rightarrow> (string, string list) jsmap \<Rightarrow> (string, string list) jsmap" where
  "index_term min_length i raw ix =
     (let term = lower raw; ids = (case map_of ix term of Some xs \<Rightarrow> xs | None \<Rightarrow> []) in
      if length term < min_length then ix
      else AList.update term (if i \<in> set ids then ids else ids @ [i]) ix)"

definition term_index :: "nat \<Rightarrow> entity list \<Rightarrow> (string, string list) jsmap" where
  "term_index min_length es =
     fold (\<lambda>e. fold (index_term min_length (en_id e)) (collect_terms e)) es []"

record mentions =
  mn_matched :: "(string \<times> string) list"
  mn_ambiguous :: "(string \<times> nat) list"

definition match_term :: "string \<Rightarrow> string \<times> string list \<Rightarrow> mentions \<Rightarrow> mentions" where
  "match_term text entry m =
     (let (term, ids) = entry in
      if \<not> has_word_boundary text term then m
      else if 1 < length ids then m\<lparr>mn_ambiguous := mn_ambiguous m @ [(term, length ids)]\<rparr>
      else if hd ids \<in> fst ` set (mn_matched m) then m
      else m\<lparr>mn_matched := mn_matched m @ [(hd ids, term)]\<rparr>)"

definition extract_mentions :: "matchers \<Rightarrow> string list \<Rightarrow> nat \<Rightarrow> string \<Rightarrow> entity_db \<Rightarrow> store_error + mentions" where
  "extract_mentions mt kinds min_length text db =
     and_then (find_entities mt (any_entity\<lparr>fq_kinds := kinds, fq_limit := Some 5000\<rparr>) db) (\<lambda>es.
       Inr (fold (match_term (lower text)) (term_index min_length es) \<lparr>mn_matched = [], mn_ambiguous = []\<rparr>))"

section \<open>Recording and recalling interactions\<close>

record agent_entities =
  ag_options :: store_options
  ag_schemas :: kind_schemas
  ag_index :: identity_index
  ag_matchers :: matchers

record interaction =
  ir_inbound :: string
  ir_outbound :: string
  ir_surface :: string
  ir_route :: string
  ir_trace :: string

definition truncate_text :: "string \<Rightarrow> nat \<Rightarrow> string" where
  "truncate_text s n = (if length s \<le> n then s else take n s @ ''...'')"

definition has_interaction_schema :: "agent_entities \<Rightarrow> bool" where
  "has_interaction_schema ag \<longleftrightarrow> ''interaction'' \<in> fst ` set (ag_schemas ag)"

definition actor_kind :: "actor \<Rightarrow> string option" where
  "actor_kind a = (case map_of a ''kind'' of Some (JStr s) \<Rightarrow> Some s | _ \<Rightarrow> None)"

definition actor_id :: "actor \<Rightarrow> string option" where
  "actor_id a = (case map_of a ''id'' of Some (JStr s) \<Rightarrow> Some s | _ \<Rightarrow> None)"

definition known_actor :: "actor \<Rightarrow> string option" where
  "known_actor a = (if actor_kind a = Some ''stranger'' then None else actor_id a)"

definition interaction_properties :: "actor \<Rightarrow> interaction \<Rightarrow> props" where
  "interaction_properties a ir =
     [(''inbound_text'', JStr (ir_inbound ir)), (''outbound_summary'', JStr (truncate_text (ir_outbound ir) 500)),
      (''surface'', JStr (ir_surface ir)), (''route'', JStr (ir_route ir)), (''trace_id'', JStr (ir_trace ir))]
     @ (if actor_kind a = Some ''stranger''
        then (case map_of a ''email'' of None \<Rightarrow> [] | Some JNull \<Rightarrow> [] | Some v \<Rightarrow> [(''actor_email'', v)]) else [])"

record recorded =
  rc_interaction :: "string option"
  rc_tagged :: "string list"
  rc_ambiguous :: "string list"

definition framework_writer :: "interaction \<Rightarrow> writer" where
  "framework_writer ir = \<lparr>wr_trace = Some (ir_trace ir), wr_actor = Some ''framework:worker''\<rparr>"

text \<open>The loop over the matched mentions; a throw leaves the relations written before it.\<close>

fun tag_mentions ::
  "millis \<Rightarrow> writer \<Rightarrow> actor \<Rightarrow> string \<Rightarrow> (string \<times> string) list \<Rightarrow> entity_db \<Rightarrow>
   (store_error + string list) \<times> entity_db" where
  "tag_mentions now w a i [] db = (Inr [], db)"
| "tag_mentions now w a i ((j, term) # rest) db =
     (if known_actor a = Some j then tag_mentions now w a i rest db
      else (case relate now i ''about'' j None w db of
              (Inl e, db') \<Rightarrow> (Inl e, db')
            | (Inr _, db') \<Rightarrow>
                (case tag_mentions now w a i rest db' of
                   (r, db'') \<Rightarrow> (and_then r (\<lambda>js. Inr (j # js)), db''))))"

definition record_interaction ::
  "agent_entities option \<Rightarrow> millis \<Rightarrow> string \<Rightarrow> string \<Rightarrow> actor \<Rightarrow> interaction \<Rightarrow> entity_db \<Rightarrow>
   (store_error + recorded) \<times> entity_db" where
  "record_interaction context now stamp uuid a ir db =
     (case context of
        None \<Rightarrow> (Inr \<lparr>rc_interaction = None, rc_tagged = [], rc_ambiguous = []\<rparr>, db)
      | Some ag \<Rightarrow>
          if \<not> has_interaction_schema ag
          then (Inr \<lparr>rc_interaction = None, rc_tagged = [], rc_ambiguous = []\<rparr>, db)
          else
            (let w = framework_writer ir in
             case upsert_entity (ag_options ag) now uuid ''interaction'' (ir_surface ir @ '':'' @ ir_route ir @ ''@'' @ stamp)
                    (interaction_properties a ir) None w db of
               (Inl e, db1) \<Rightarrow> (Inl e, db1)
             | (Inr x, db1) \<Rightarrow>
                 (case (case known_actor a of
                          None \<Rightarrow> (Inr (), db1)
                        | Some i \<Rightarrow> relate now (en_id x) ''from'' i None w db1) of
                    (Inl e, db2) \<Rightarrow> (Inl e, db2)
                  | (Inr _, db2) \<Rightarrow>
                      (case extract_mentions (ag_matchers ag) [] 3
                              (ir_inbound ir @ newline @ truncate_text (ir_outbound ir) 500) db2 of
                         Inl e \<Rightarrow> (Inl e, db2)
                       | Inr m \<Rightarrow>
                           (case tag_mentions now w a (en_id x) (mn_matched m) db2 of
                              (r, db3) \<Rightarrow> (and_then r (\<lambda>js. Inr \<lparr>rc_interaction = Some (en_id x),
                                 rc_tagged = js, rc_ambiguous = map fst (mn_ambiguous m)\<rparr>), db3))))))"

definition put_all :: "entity list \<Rightarrow> (string, entity) jsmap \<Rightarrow> (string, entity) jsmap" where
  "put_all es m = fold (\<lambda>e. AList.update (en_id e) e) es m"

definition interactions_with :: "string \<Rightarrow> string \<Rightarrow> nat \<Rightarrow> find_query" where
  "interactions_with i t n = any_entity\<lparr>fq_kinds := [''interaction''], fq_related_to := Some i,
     fq_relation_type := Some t, fq_order := Some (By_created, Desc), fq_limit := Some n\<rparr>"

definition related_entity_ids :: "entity_db \<Rightarrow> string \<Rightarrow> store_error + string list" where
  "related_entity_ids db i =
     and_then (get_entity db i True) (\<lambda>found.
       (case found of
          None \<Rightarrow> Inr []
        | Some x \<Rightarrow>
            (case ex_relations x of
               None \<Rightarrow> Inr []
             | Some (outs, ins) \<Rightarrow>
                 Inr (rev (remdups (rev (
                   map rv_other (filter (\<lambda>v. rv_type v \<in> {''has_contact'', ''is_contact_for''}) outs)
                   @ map rv_other (filter (\<lambda>v. rv_type v = ''has_contact'' \<and> prefix ''p_'' i) ins))))))))"

fun gather :: "matchers \<Rightarrow> entity_db \<Rightarrow> nat \<Rightarrow> string list \<Rightarrow> (string, entity) jsmap \<Rightarrow> store_error + (string, entity) jsmap" where
  "gather mt db n [] m = Inr m"
| "gather mt db n (c # cs) m =
     and_then (find_entities mt (interactions_with c ''about'' n) db) (\<lambda>es. gather mt db n cs (put_all es m))"

definition fetch_recent ::
  "agent_entities option \<Rightarrow> actor \<Rightarrow> nat \<Rightarrow> bool \<Rightarrow> entity_db \<Rightarrow> store_error + entity list" where
  "fetch_recent context a n related db =
     (case context of
        None \<Rightarrow> Inr []
      | Some ag \<Rightarrow>
          if \<not> has_interaction_schema ag then Inr []
          else and_then
            (case known_actor a of
               None \<Rightarrow> Inr []
             | Some i \<Rightarrow>
                 and_then (find_entities (ag_matchers ag) (interactions_with i ''from'' n) db) (\<lambda>es.
                   if \<not> related then Inr (put_all es [])
                   else and_then (related_entity_ids db i) (\<lambda>cs. gather (ag_matchers ag) db n cs (put_all es []))))
            (\<lambda>m. Inr (take n (sort_key (\<lambda>e. - en_created e) (map snd m)))))"

section \<open>The hook around a turn\<close>

definition prepare_entities ::
  "agent_entities option \<Rightarrow> string list option \<Rightarrow> string \<Rightarrow> jsval \<Rightarrow> entity_db \<Rightarrow> actor option" where
  "prepare_entities context kinds provider payload db =
     (case (context, kinds) of
        (Some ag, Some _) \<Rightarrow>
          Some (resolve_actor (ordered_strategies None) (ag_index ag) db
            (extract_identity_hints (resolve_surface provider) payload))
      | _ \<Rightarrow> None)"

definition record_turn ::
  "agent_entities option \<Rightarrow> string list option \<Rightarrow> string \<Rightarrow> string \<Rightarrow> string \<Rightarrow> millis \<Rightarrow> string \<Rightarrow> string \<Rightarrow>
   actor option \<Rightarrow> string \<Rightarrow> string \<Rightarrow> entity_db \<Rightarrow> (store_error + unit) \<times> entity_db" where
  "record_turn context kinds provider rule trace now stamp uuid a inbound outbound db =
     (case (a, kinds) of
        (Some who, Some _) \<Rightarrow>
          (case record_interaction context now stamp uuid who
                  \<lparr>ir_inbound = inbound, ir_outbound = outbound, ir_surface = surface_text (resolve_surface provider),
                   ir_route = provider @ ''.'' @ rule, ir_trace = trace\<rparr> db of
             (r, db') \<Rightarrow> (and_then r (\<lambda>_. Inr ()), db'))
      | _ \<Rightarrow> (Inr (), db))"

section \<open>What was recorded is recalled\<close>

lemma insort_key_snoc: "f y \<le> f x \<Longrightarrow> insort_key f y (ys @ [x]) = insort_key f y ys @ [x]"
  by (induction ys) auto

lemma sort_key_snoc: "(\<And>y. y \<in> set xs \<Longrightarrow> f y \<le> f x) \<Longrightarrow> sort_key f (xs @ [x]) = sort_key f xs @ [x]"
  by (induction xs) (simp_all add: insort_key_snoc)

lemma sort_key_hd: "(\<And>y. y \<in> set xs \<Longrightarrow> f x \<le> f y) \<Longrightarrow> sort_key f (x # xs) = x # sort_key f xs"
  by (simp add: insort_is_Cons)

lemma interaction_upsert:
  assumes inv: "store_inv db" and key: "map_of (so_natural_keys opts) ''interaction'' = None"
    and ps: "wf_json (JObj ps)"
    and up: "upsert_entity opts now uuid ''interaction'' name ps None w db = (Inr x, db1)"
  shows "\<exists>r. db_entities db1 = db_entities db @ [r] \<and> x = row_entity r \<and> er_kind r = ''interaction'' \<and>
    er_created r = now \<and> er_properties r = props_text ps \<and> store_inv db1"
proof -
  have target: "upsert_target opts ''interaction'' ps None db = Inr None"
    using key by (simp add: upsert_target_def compute_natural_key_def object_inherited_def object_members_def)
  have changed: "snd (upsert_entity opts now uuid ''interaction'' name ps None w db) = db1" using up by simp
  from up obtain i db' where ins: "insert_entity now i ''interaction'' name ps db = Inr db'"
      and db1: "db1 = write_audit now w i ''create'' [(''before'', JNull), (''after'', after_json ''interaction'' name ps)] db'"
      and x: "get_raw db1 i = Inr (Some x)"
    by (auto simp: upsert_entity_def target upsert_commit_def Let_def and_then_Inr split: sum.splits option.splits)
  have inv1: "store_inv db1"
    unfolding db1 by (simp only: frame_invariant[OF write_audit_frame] insert_inv[OF inv ps ins])
  obtain r where r: "find_row db1 i = Some r" "x = row_entity r"
    using x get_raw_inv[OF inv1, of i] by auto
  let ?r = "\<lparr>er_id = i, er_kind = ''interaction'', er_name = name, er_properties = props_text ps,
    er_created = now, er_updated = now\<rparr>"
  have rows: "db_entities db1 = db_entities db @ [?r]" using ins by (simp add: db1 insert_entity_Inr)
  have "r = ?r"
    using find_rowD[OF r(1)] ins by (auto simp: rows insert_entity_Inr)
  then show ?thesis using rows r(2) inv1 by auto
qed

lemma relate_frame:
  assumes inv: "store_inv db"
  shows "db_entities (snd (relate now f t g None w db)) = db_entities db \<and>
    set (db_relations db) \<subseteq> set (db_relations (snd (relate now f t g None w db))) \<and>
    store_inv (snd (relate now f t g None w db))"
proof (rule relate_effect[OF inv, of now f t g None w])
  assume "{f, g} \<subseteq> er_id ` set (db_entities db)"
    and eq: "snd (relate now f t g None w db) = write_audit now w f ''relate''
       [(''type'', JStr t), (''to_id'', JStr g), (''properties'', props_json None)] (insert_relation now f t g None db)"
  then have "store_inv (insert_relation now f t g None db)" by (intro insert_relation_inv[OF inv]) simp_all
  moreover have "set (db_relations db) \<subseteq> set (db_relations (insert_relation now f t g None db))"
    by (auto simp: insert_relation_def)
  ultimately show ?thesis unfolding eq by (simp add: frame_invariant[OF write_audit_frame])
qed (simp_all add: inv)

lemma relate_adds:
  assumes "relate now f t g None w db = (Inr u, db')" shows "(f, t, g) \<in> rl_key ` set (db_relations db')"
proof -
  have "snd (relate now f t g None w db) = write_audit now w f ''relate''
      [(''type'', JStr t), (''to_id'', JStr g), (''properties'', props_json None)] (insert_relation now f t g None db)"
    using assms unfolding relate_def by (simp split: sum.split_asm)
  then have "db' = write_audit now w f ''relate''
      [(''type'', JStr t), (''to_id'', JStr g), (''properties'', props_json None)] (insert_relation now f t g None db)"
    using assms by simp
  then show ?thesis by (simp only: write_audit_frame insert_relation_frame insertI1)
qed

lemma tag_mentions_frame:
  assumes "store_inv db" "tag_mentions now w a i ms db = (res, db')"
  shows "db_entities db' = db_entities db \<and> set (db_relations db) \<subseteq> set (db_relations db') \<and> store_inv db'"
  using assms
proof (induction ms arbitrary: db res db')
  case (Cons m ms)
  obtain j tm where m: "m = (j, tm)" by (cases m)
  show ?case
  proof (cases "known_actor a = Some j")
    case True
    then have "tag_mentions now w a i ms db = (res, db')" using Cons.prems(2) by (simp add: m)
    then show ?thesis by (rule Cons.IH[OF Cons.prems(1)])
  next
    case False
    obtain r1 db1 where rel: "relate now i ''about'' j None w db = (r1, db1)" by (cases "relate now i ''about'' j None w db")
    have step: "db_entities db1 = db_entities db \<and> set (db_relations db) \<subseteq> set (db_relations db1) \<and> store_inv db1"
      using relate_frame[OF Cons.prems(1), of now i "''about''" j w] by (simp add: rel)
    obtain r2 db2 where rest: "tag_mentions now w a i ms db1 = (r2, db2)" by (cases "tag_mentions now w a i ms db1")
    have "db' = db1 \<or> db' = db2"
      using Cons.prems(2) False by (auto simp: m rel rest split: sum.splits)
    then show ?thesis using step Cons.IH[OF _ rest] by (elim disjE) auto
  qed
qed simp

lemma first_found:
  assumes inv: "store_inv db" and rows: "db_entities db = old @ [r]" and new: "\<And>x. x \<in> set old \<Longrightarrow> er_created x \<le> er_created r"
    and kind: "er_kind r = ''interaction''" and rel: "(er_id r, t, i) \<in> rl_key ` set (db_relations db)" and n: "0 < n"
  shows "\<exists>rs. query_rows mt (interactions_with i t n) db = r # rs"
proof -
  let ?q = "interactions_with i t n"
  obtain x where x: "x \<in> set (db_relations db)" "rl_from x = er_id r" "rl_type x = t" "rl_to x = i"
    using rel by (auto simp: rl_key_def)
  then have "row_matches mt ?q db r"
    using kind by (auto simp: row_matches_def interactions_with_def any_entity_def list_ex_iff)
  then have "filter (row_matches mt ?q db) (db_entities db) = filter (row_matches mt ?q db) old @ [r]"
    by (simp add: rows)
  moreover have "sort_key er_created (filter (row_matches mt ?q db) old @ [r]) =
      sort_key er_created (filter (row_matches mt ?q db) old) @ [r]"
    using new by (intro sort_key_snoc) simp
  ultimately have "order_rows By_created (filter (row_matches mt ?q db) (db_entities db)) =
      sort_key er_created (filter (row_matches mt ?q db) old) @ [r]"
    by (simp only: order_rows.simps)
  then show ?thesis
    using n by (auto simp: query_rows_def interactions_with_def gr0_conv_Suc)
qed

text \<open>Maps that start with the newest entity.\<close>

definition newest_first :: "entity \<Rightarrow> (string, entity) jsmap \<Rightarrow> bool" where
  "newest_first e m \<longleftrightarrow> (\<exists>rest. m = (en_id e, e) # rest) \<and> (\<forall>v \<in> snd ` set m. en_created v \<le> en_created e)"

lemma update_values: "snd ` set (AList.update k v m) \<subseteq> insert v (snd ` set m)"
  by (induction m) auto

lemma newest_first_put:
  assumes "newest_first e m" and "\<And>x. x \<in> set es \<Longrightarrow> en_created x \<le> en_created e \<and> (en_id x = en_id e \<longrightarrow> x = e)"
  shows "newest_first e (put_all es m)"
  using assms
proof (induction es arbitrary: m)
  case (Cons x es)
  have "newest_first e (AList.update (en_id x) x m)"
  proof -
    obtain rest where "m = (en_id e, e) # rest" and "\<forall>v \<in> snd ` set m. en_created v \<le> en_created e"
      using Cons.prems(1) by (auto simp: newest_first_def)
    moreover have "\<forall>v \<in> snd ` set (AList.update (en_id x) x m). en_created v \<le> en_created e"
    proof -
      have "en_created x \<le> en_created e" using Cons.prems(2)[of x] by simp
      then show ?thesis using calculation(2) update_values[of "en_id x" x m] by blast
    qed
    ultimately show ?thesis using Cons.prems(2)[of x] unfolding newest_first_def by auto
  qed
  then show ?case using Cons by (simp add: put_all_def)
qed (simp add: put_all_def)

lemma gather_newest:
  assumes inv: "store_inv db" and "newest_first e m"
    and rows: "\<And>r. r \<in> set (db_entities db) \<Longrightarrow> er_created r \<le> en_created e \<and> (er_id r = en_id e \<longrightarrow> row_entity r = e)"
  shows "\<exists>m'. gather mt db n cs m = Inr m' \<and> newest_first e m'"
  using assms(2)
proof (induction cs arbitrary: m)
  case (Cons c cs)
  have "newest_first e (put_all (map row_entity (query_rows mt (interactions_with c ''about'' n) db)) m)"
    using rows query_rows_subset[of mt "interactions_with c ''about'' n" db]
    by (intro newest_first_put[OF Cons.prems]) (auto simp: row_entity_def)
  then show ?case using Cons.IH by (simp add: find_entities_inv[OF inv])
qed simp

lemma newest_first_sorted:
  assumes "newest_first e m" and "0 < n"
  shows "\<exists>es. take n (sort_key (\<lambda>e. - en_created e) (map snd m)) = e # es"
proof -
  obtain rest where m: "m = (en_id e, e) # rest" and "\<forall>v \<in> snd ` set m. en_created v \<le> en_created e"
    using assms(1) by (auto simp: newest_first_def)
  then have "sort_key (\<lambda>e. - en_created e) (e # map snd rest) = e # sort_key (\<lambda>e. - en_created e) (map snd rest)"
    by (intro sort_key_hd) auto
  then show ?thesis using assms(2) by (auto simp: m gr0_conv_Suc)
qed

text \<open>The steps of a recording that returns.\<close>

lemma record_steps:
  assumes "record_interaction (Some ag) now stamp uuid a ir db = (Inr rc, db')" and "rc_interaction rc = Some j"
    and "known_actor a = Some i"
  obtains x db1 db2 u ms res where
    "has_interaction_schema ag"
    "upsert_entity (ag_options ag) now uuid ''interaction'' (ir_surface ir @ '':'' @ ir_route ir @ ''@'' @ stamp)
       (interaction_properties a ir) None (framework_writer ir) db = (Inr x, db1)"
    "relate now (en_id x) ''from'' i None (framework_writer ir) db1 = (Inr u, db2)"
    "tag_mentions now (framework_writer ir) a (en_id x) ms db2 = (res, db')"
    "j = en_id x"
proof -
  let ?w = "framework_writer ir"
  have schema: "has_interaction_schema ag"
    using assms(1,2) by (cases "has_interaction_schema ag") (auto simp: record_interaction_def)
  obtain r1 db1 where up: "upsert_entity (ag_options ag) now uuid ''interaction'' (ir_surface ir @ '':'' @ ir_route ir @ ''@'' @ stamp)
       (interaction_properties a ir) None ?w db = (r1, db1)" by fastforce
  obtain x where x: "r1 = Inr x"
    using assms(1) schema up by (cases r1) (auto simp: record_interaction_def Let_def)
  obtain r2 db2 where rel: "relate now (en_id x) ''from'' i None ?w db1 = (r2, db2)" by fastforce
  obtain u where u: "r2 = Inr u"
    using assms(1,3) schema up x rel by (cases r2) (auto simp: record_interaction_def Let_def)
  obtain m where m: "extract_mentions (ag_matchers ag) [] 3
      (ir_inbound ir @ newline @ truncate_text (ir_outbound ir) 500) db2 = Inr m"
    using assms(1,3) schema up x rel u
    by (cases "extract_mentions (ag_matchers ag) [] 3 (ir_inbound ir @ newline @ truncate_text (ir_outbound ir) 500) db2")
      (auto simp: record_interaction_def Let_def)
  obtain res db3 where tag: "tag_mentions now ?w a (en_id x) (mn_matched m) db2 = (res, db3)" by fastforce
  have "db3 = db'" "j = en_id x"
    using assms schema up x rel u m tag by (auto simp: record_interaction_def Let_def and_then_Inr)
  then show ?thesis using that schema up x rel u tag by blast
qed

text \<open>The tables after a recording: one more entity, related to the actor.\<close>

lemma recorded_tables:
  assumes inv: "store_inv db" and "map_of (so_natural_keys (ag_options ag)) ''interaction'' = None"
    and "known_actor a = Some i"
    and "record_interaction (Some ag) now stamp uuid a ir db = (Inr rc, db')" and "rc_interaction rc = Some j"
  obtains r where "has_interaction_schema ag" "db_entities db' = db_entities db @ [r]" "store_inv db'"
    "er_id r = j" "er_kind r = ''interaction''" "er_created r = now"
    "er_properties r = props_text (interaction_properties a ir)" "wf_json (JObj (interaction_properties a ir))"
    "(j, ''from'', i) \<in> rl_key ` set (db_relations db')"
proof -
  obtain x db1 db2 u ms res where schema: "has_interaction_schema ag"
    and up: "upsert_entity (ag_options ag) now uuid ''interaction'' (ir_surface ir @ '':'' @ ir_route ir @ ''@'' @ stamp)
       (interaction_properties a ir) None (framework_writer ir) db = (Inr x, db1)"
    and rel: "relate now (en_id x) ''from'' i None (framework_writer ir) db1 = (Inr u, db2)"
    and tag: "tag_mentions now (framework_writer ir) a (en_id x) ms db2 = (res, db')" and j: "j = en_id x"
    by (rule record_steps[OF assms(4,5,3)])
  have ps: "wf_json (JObj (interaction_properties a ir))"
    using assms(3) by (cases "actor_kind a = Some ''stranger''") (simp_all add: interaction_properties_def known_actor_def)
  obtain r where r: "db_entities db1 = db_entities db @ [r]" "x = row_entity r" "er_kind r = ''interaction''"
      "er_created r = now" "er_properties r = props_text (interaction_properties a ir)" and inv1: "store_inv db1"
    using interaction_upsert[OF inv assms(2) ps up] by blast
  have db2: "db_entities db2 = db_entities db1 \<and> store_inv db2"
    using relate_frame[OF inv1, of now "en_id x" "''from''" i "framework_writer ir"] by (simp add: rel)
  have db': "db_entities db' = db_entities db2 \<and> set (db_relations db2) \<subseteq> set (db_relations db') \<and> store_inv db'"
    using tag_mentions_frame[OF _ tag] db2 by blast
  have "er_id r = j" unfolding j r(2) row_entity_def by simp
  moreover have "(j, ''from'', i) \<in> rl_key ` set (db_relations db')"
    using relate_adds[OF rel] db' unfolding j by blast
  moreover have "db_entities db' = db_entities db @ [r]" using db' db2 r(1) by simp
  ultimately show ?thesis using that schema db' r(3-5) ps by blast
qed

lemma related_ids_inv:
  assumes "store_inv db" shows "\<exists>cs. related_entity_ids db i = Inr cs"
proof -
  obtain x where "get_entity db i True = Inr x" using get_entity_inv[OF assms] by blast
  then show ?thesis by (simp add: related_entity_ids_def split: option.split prod.split)
qed

text \<open>A newest interaction related to the actor is fetched first.\<close>

lemma fetch_newest:
  assumes inv: "store_inv db" and rows: "db_entities db = old @ [r]" and old: "\<And>y. y \<in> set old \<Longrightarrow> er_created y \<le> er_created r"
    and kind: "er_kind r = ''interaction''" and rel: "(er_id r, ''from'', i) \<in> rl_key ` set (db_relations db)"
    and n: "0 < n" and schema: "has_interaction_schema ag" and actor: "known_actor a = Some i"
  shows "\<exists>es. fetch_recent (Some ag) a n related db = Inr (row_entity r # es)"
proof -
  let ?x = "row_entity r"
  obtain rs where found: "query_rows (ag_matchers ag) (interactions_with i ''from'' n) db = r # rs"
    using first_found[OF inv rows old kind rel n, of "ag_matchers ag"] by auto
  have all: "er_created y \<le> en_created ?x \<and> (er_id y = en_id ?x \<longrightarrow> row_entity y = ?x)" if y: "y \<in> set (db_entities db)" for y
  proof -
    have "inj_on er_id (set (db_entities db))" using store_invD(1)[OF inv] by (simp add: distinct_map)
    moreover have "r \<in> set (db_entities db)" by (simp add: rows)
    ultimately have "er_id y = er_id r \<Longrightarrow> y = r" using y by (rule_tac inj_onD)
    moreover have "er_created y \<le> er_created r" using y old by (auto simp: rows)
    ultimately show ?thesis unfolding row_entity_def by auto
  qed
  have "set rs \<subseteq> set (db_entities db)"
    using query_rows_subset[of "ag_matchers ag" "interactions_with i ''from'' n" db] by (simp add: found)
  then have "newest_first ?x (put_all (map row_entity rs) [(en_id ?x, ?x)])"
    using all by (intro newest_first_put) (auto simp: newest_first_def row_entity_def)
  then have first: "newest_first ?x (put_all (map row_entity (r # rs)) [])" by (simp add: put_all_def)
  obtain cs m where cs: "related_entity_ids db i = Inr cs"
    and m: "gather (ag_matchers ag) db n cs (put_all (map row_entity (r # rs)) []) = Inr m" "newest_first ?x m"
    using related_ids_inv[OF inv] gather_newest[OF inv first all] by blast
  have "\<exists>m. newest_first ?x m \<and> fetch_recent (Some ag) a n related db =
      Inr (take n (sort_key (\<lambda>e. - en_created e) (map snd m)))"
    using first m by (cases related) (auto simp: fetch_recent_def schema actor find_entities_inv[OF inv] found cs)
  then show ?thesis using newest_first_sorted[OF _ n] by force
qed

text \<open>What was recorded is recalled: after a turn of a known actor is recorded at a time no earlier
  than anything stored, asking for the recent interactions of that actor returns that turn first,
  with its texts, whatever was mentioned in it, and also when interactions about related entities
  are included.\<close>

theorem interaction_recalled:
  assumes "list_all wf_op ops" and "db = store_run (ag_options ag) ops"
    and "list_all (\<lambda>r. er_created r \<le> now) (db_entities db)"
    and "map_of (so_natural_keys (ag_options ag)) ''interaction'' = None"
    and "known_actor a = Some i" and "0 < n"
    and "record_interaction (Some ag) now stamp uuid a ir db = (Inr rc, db')" and "rc_interaction rc = Some j"
  shows "\<exists>e es. fetch_recent (Some ag) a n related db' = Inr (e # es) \<and> en_id e = j \<and>
    en_created e = now \<and> en_properties e = interaction_properties a ir"
proof -
  have inv: "store_inv db" unfolding assms(2) using store_run_inv[OF assms(1)] by blast
  obtain r where schema: "has_interaction_schema ag" and rows: "db_entities db' = db_entities db @ [r]"
    and inv': "store_inv db'" and r: "er_id r = j" "er_kind r = ''interaction''" "er_created r = now"
      "er_properties r = props_text (interaction_properties a ir)" and ps: "wf_json (JObj (interaction_properties a ir))"
    and rel: "(j, ''from'', i) \<in> rl_key ` set (db_relations db')"
    by (rule recorded_tables[OF inv assms(4,5,7,8)])
  have "er_created y \<le> er_created r" if "y \<in> set (db_entities db)" for y
    using assms(3) that r(3) by (simp add: list_all_iff)
  from fetch_newest[OF inv' rows this r(2) rel[folded r(1)] assms(6) schema assms(5), of related]
  show ?thesis using r ps by (auto simp: row_entity_def)
qed

definition sample_agent_entities :: agent_entities where
  "sample_agent_entities = \<lparr>ag_options = store_options_of None [] None,
     ag_schemas = [(''interaction'', \<lparr>ks_description = None, ks_required = None, ks_properties = [],
        ks_natural_keys = None, ks_natural_key_fields = None, ks_vectorizable = None\<rparr>)],
     ag_index = \<lparr>ix_format = [(''email'', [(''contact'', ''email'')])], ix_name = []\<rparr>,
     ag_matchers = \<lparr>mt_like = \<lambda>s r. False, mt_fts = \<lambda>s r. False\<rparr>\<rparr>"

definition sample_contacts :: "store_op list" where
  "sample_contacts = [Upsert 1 ''u1'' ''contact'' ''Ada'' [(''email'', JStr ''Ada@X'')] None sample_writer,
     Upsert 2 ''u2'' ''client'' ''Acme'' [] None sample_writer]"

definition sample_interaction :: interaction where
  "sample_interaction = \<lparr>ir_inbound = ''ask acme!'', ir_outbound = ''done'', ir_surface = ''gmail'',
     ir_route = ''r'', ir_trace = ''t''\<rparr>"

definition sample_actor :: actor where
  "sample_actor = resolve_actor (ordered_strategies None) (ag_index sample_agent_entities)
     (store_run (ag_options sample_agent_entities) sample_contacts)
     (extract_identity_hints Gmail (Val (JObj [(''from'', JStr ''A <ada@x>'')])))"

definition sample_recording :: "(store_error + recorded) \<times> entity_db" where
  "sample_recording = record_interaction (Some sample_agent_entities) 3 ''now'' ''u3'' sample_actor sample_interaction
     (store_run (ag_options sample_agent_entities) sample_contacts)"

lemma sample_recorded:
  "fst sample_recording = Inr \<lparr>rc_interaction = Some ''i_u3'', rc_tagged = [''c_u2''], rc_ambiguous = []\<rparr> \<and>
   known_actor sample_actor = Some ''p_u1'' \<and>
   list_all (\<lambda>r. er_created r \<le> 3) (db_entities (store_run (ag_options sample_agent_entities) sample_contacts))"
  by code_simp

theorem interaction_recalled_witness:
  "\<exists>e es. fetch_recent (Some sample_agent_entities) sample_actor 1 True (snd sample_recording) = Inr (e # es) \<and>
    en_id e = ''i_u3'' \<and> en_created e = 3 \<and> en_properties e = interaction_properties sample_actor sample_interaction"
proof (rule interaction_recalled[OF _ refl])
  show "list_all wf_op sample_contacts" by (simp add: sample_contacts_def)
  show "map_of (so_natural_keys (ag_options sample_agent_entities)) ''interaction'' = None"
    by (simp add: sample_agent_entities_def store_options_of_def)
  show "record_interaction (Some sample_agent_entities) 3 ''now'' ''u3'' sample_actor sample_interaction
      (store_run (ag_options sample_agent_entities) sample_contacts) =
    (Inr \<lparr>rc_interaction = Some ''i_u3'', rc_tagged = [''c_u2''], rc_ambiguous = []\<rparr>, snd sample_recording)"
    using sample_recorded unfolding sample_recording_def by (intro prod_eqI) auto
qed (use sample_recorded in simp_all)

text \<open>A property named \<open>kind\<close>, \<open>id\<close> or \<open>name\<close> replaces the entity's own in the actor, so a stored entity
  can pass for another actor or for a stranger.\<close>

lemma property_replaces_actor_id:
  "known_actor (entity_to_actor \<lparr>er_id = ''p_1'', er_kind = ''contact'', er_name = ''Eve'',
     er_properties = props_text [(''id'', JStr ''p_2'')], er_created = 0, er_updated = 0\<rparr>) = Some ''p_2''"
  by code_simp

section \<open>Who is found\<close>

definition holds_text :: "entity_row \<Rightarrow> string \<times> string \<Rightarrow> string \<Rightarrow> bool" where
  "holds_text r target v \<longleftrightarrow> er_kind r = fst target \<and>
     map_option lower (property_text r (snd target)) = Some (lower v)"

lemma find_SomeD: "find P xs = Some x \<Longrightarrow> x \<in> set xs \<and> P x"
  by (auto simp: find_Some_iff)

lemma first_target_None:
  "first_target db v ts = None \<longleftrightarrow> (\<forall>t \<in> set ts. \<forall>r \<in> set (db_entities db). \<not> holds_text r t v)"
  by (induction db v ts rule: first_target.induct)
    (auto simp: find_by_property_def holds_text_def find_None_iff split: option.split dest!: find_SomeD)

lemma first_target_Some:
  "first_target db v ts = Some r \<Longrightarrow> r \<in> set (db_entities db) \<and> (\<exists>t \<in> set ts. holds_text r t v)"
  by (induction db v ts rule: first_target.induct)
    (auto simp: find_by_property_def holds_text_def find_Some_iff split: option.splits)

text \<open>An event is a stranger's exactly when no stored entity holds one of its hints in a property
  declared for it; otherwise the actor is such an entity.\<close>

lemma stranger_iff:
  "(case try_strategies db ix h ss of
      None \<Rightarrow> \<forall>s \<in> set ss. \<forall>raw. rs_hint s h = Some raw \<and> raw \<noteq> [] \<longrightarrow>
        (\<forall>t \<in> set (get_targets_for s ix). \<forall>r \<in> set (db_entities db). \<not> holds_text r t (rs_normalize s raw))
    | Some r \<Rightarrow> r \<in> set (db_entities db) \<and> (\<exists>s \<in> set ss. \<exists>raw. rs_hint s h = Some raw \<and> raw \<noteq> [] \<and>
        (\<exists>t \<in> set (get_targets_for s ix). holds_text r t (rs_normalize s raw))))"
proof (induction ss)
  case (Cons s ss)
  show ?case
  proof (cases "\<exists>raw r. rs_hint s h = Some raw \<and> raw \<noteq> [] \<and>
      first_target db (rs_normalize s raw) (get_targets_for s ix) = Some r")
    case True
    then obtain raw r where "rs_hint s h = Some raw" "raw \<noteq> []"
        "first_target db (rs_normalize s raw) (get_targets_for s ix) = Some r" by blast
    then show ?thesis by (auto dest: first_target_Some)
  next
    case False
    then have skip: "try_strategies db ix h (s # ss) = try_strategies db ix h ss"
      by (auto split: option.split)
    have "first_target db (rs_normalize s raw) (get_targets_for s ix) = None"
      if "rs_hint s h = Some raw" "raw \<noteq> []" for raw
      using False that by auto
    then have "\<forall>raw. rs_hint s h = Some raw \<and> raw \<noteq> [] \<longrightarrow>
        (\<forall>t \<in> set (get_targets_for s ix). \<forall>r \<in> set (db_entities db). \<not> holds_text r t (rs_normalize s raw))"
      by (simp add: first_target_None)
    then show ?thesis
      unfolding skip using Cons by (cases "try_strategies db ix h ss") auto
  qed
qed simp

section \<open>Mentions are sound\<close>

lemma words_of_in_collect: "en_name e \<in> set (collect_terms e)"
  by (simp add: collect_terms_def)

text \<open>Every id in the index comes from an entity with that term, once per term.\<close>

definition index_ok :: "nat \<Rightarrow> (string \<times> string) set \<Rightarrow> (string, string list) jsmap \<Rightarrow> bool" where
  "index_ok n pairs ix \<longleftrightarrow> distinct (map fst ix) \<and>
     (\<forall>(tm, ids) \<in> set ix. distinct ids \<and> ids \<noteq> [] \<and> n \<le> length tm \<and> set ids = {i. (tm, i) \<in> pairs}) \<and>
     (\<forall>(tm, i) \<in> pairs. n \<le> length tm \<longrightarrow> tm \<in> fst ` set ix)"

lemma index_term_ok:
  assumes "index_ok n pairs ix"
  shows "index_ok n (insert (lower raw, i) pairs) (index_term n i raw ix)"
proof (cases "length (lower raw) < n")
  case True
  then show ?thesis using assms by (auto simp: index_ok_def index_term_def Let_def)
next
  case False
  let ?t = "lower raw"
  define xs where "xs = (case map_of ix ?t of Some js \<Rightarrow> js | None \<Rightarrow> [])"
  define new where "new = (if i \<in> set xs then xs else xs @ [i])"
  have ix': "index_term n i raw ix = AList.update ?t new ix"
    by (simp only: index_term_def Let_def new_def xs_def False if_False)
  have old: "distinct xs \<and> set xs = {j. (?t, j) \<in> pairs}"
  proof (cases "map_of ix ?t")
    case None
    then have "?t \<notin> fst ` set ix" by (simp add: map_of_eq_None_iff)
    then have "{j. (?t, j) \<in> pairs} = {}" using assms False by (auto simp: index_ok_def)
    then show ?thesis using None by (simp add: xs_def)
  next
    case (Some js)
    then show ?thesis using assms map_of_SomeD[OF Some] by (auto simp: index_ok_def xs_def)
  qed
  have dist: "distinct (map fst (AList.update ?t new ix))"
    using assms by (simp add: index_ok_def distinct_update)
  have entries: "distinct ids \<and> ids \<noteq> [] \<and> n \<le> length tm \<and> set ids = {j. (tm, j) \<in> insert (?t, i) pairs}"
    if "(tm, ids) \<in> set (AList.update ?t new ix)" for tm ids
  proof (cases "tm = ?t")
    case True
    then have "ids = new" using map_of_is_SomeI[OF dist that] by simp
    then show ?thesis using True False old by (auto simp: new_def)
  next
    case other: False
    then have "map_of ix tm = Some ids" using map_of_is_SomeI[OF dist that] by simp
    from map_of_SomeD[OF this] show ?thesis using assms other by (auto simp: index_ok_def)
  qed
  have "\<forall>(tm, j) \<in> insert (?t, i) pairs. n \<le> length tm \<longrightarrow> tm \<in> fst ` set (AList.update ?t new ix)"
    using assms by (auto simp: index_ok_def keys_alist_update)
  then show ?thesis unfolding ix' index_ok_def using dist entries by blast
qed

lemma index_terms_ok:
  "index_ok n pairs ix \<Longrightarrow>
   index_ok n ((\<lambda>raw. (lower raw, i)) ` set raws \<union> pairs) (fold (index_term n i) raws ix)"
proof (induction raws arbitrary: pairs ix)
  case (Cons raw raws)
  from Cons.IH[OF index_term_ok[OF Cons.prems, of raw i]] show ?case by simp
qed simp

definition term_pairs :: "entity list \<Rightarrow> (string \<times> string) set" where
  "term_pairs es = {(lower raw, en_id e) | raw e. e \<in> set es \<and> raw \<in> set (collect_terms e)}"

lemma term_index_ok: "index_ok n (term_pairs es) (term_index n es)"
proof -
  have "index_ok n (term_pairs es \<union> pairs) (fold (\<lambda>e. fold (index_term n (en_id e)) (collect_terms e)) es ix)"
    if "index_ok n pairs ix" for pairs ix
    using that
  proof (induction es arbitrary: pairs ix)
    case Nil
    then show ?case by (simp add: term_pairs_def)
  next
    case (Cons e es)
    have "term_pairs es \<union> ((\<lambda>raw. (lower raw, en_id e)) ` set (collect_terms e) \<union> pairs) = term_pairs (e # es) \<union> pairs"
      by (auto simp: term_pairs_def)
    then show ?case using Cons.IH[OF index_terms_ok[OF Cons.prems, of "en_id e" "collect_terms e"]] by simp
  qed
  from this[of "{}" "[]"] show ?thesis by (simp add: index_ok_def term_index_def)
qed

lemma match_terms_sound:
  assumes "distinct (map fst (mn_matched m))"
  shows "distinct (map fst (mn_matched (fold (match_term text) ix m))) \<and>
    set (mn_matched (fold (match_term text) ix m)) \<subseteq> set (mn_matched m) \<union>
      {(hd ids, tm) | tm ids. (tm, ids) \<in> set ix \<and> length ids \<le> 1 \<and> has_word_boundary text tm}"
  using assms
proof (induction ix arbitrary: m)
  case (Cons x ix)
  obtain tm ids where x: "x = (tm, ids)" by (cases x)
  have "distinct (map fst (mn_matched (match_term text x m)))"
    "set (mn_matched (match_term text x m)) \<subseteq> set (mn_matched m) \<union>
      {(hd js, t) | t js. (t, js) = x \<and> length js \<le> 1 \<and> has_word_boundary text t}"
    using Cons.prems by (auto simp: x match_term_def Let_def)
  with Cons.IH[of "match_term text x m"] show ?case
    unfolding x fold_simps list.set by (intro conjI) (blast, blast)
qed auto

text \<open>C33: Mentions are sound: an entity is tagged at most once, through a term of at least the minimum
  length that occurs in the text between non-word characters and that belongs to this entity
  alone among all candidates.\<close>

theorem mentions_sound:
  assumes "extract_mentions mt kinds n text db = Inr m" and "(i, tm) \<in> set (mn_matched m)"
    and "find_entities mt (any_entity\<lparr>fq_kinds := kinds, fq_limit := Some 5000\<rparr>) db = Inr es"
  shows "distinct (map fst (mn_matched m)) \<and> n \<le> length tm \<and> has_word_boundary (lower text) tm \<and>
    {j. (tm, j) \<in> term_pairs es} = {i}"
proof -
  have m: "m = fold (match_term (lower text)) (term_index n es) \<lparr>mn_matched = [], mn_ambiguous = []\<rparr>"
    using assms(1,3) by (simp add: extract_mentions_def)
  note sound = match_terms_sound[of "\<lparr>mn_matched = [], mn_ambiguous = []\<rparr>" "lower text" "term_index n es", folded m]
  then obtain ids where ids: "(tm, ids) \<in> set (term_index n es)" "length ids \<le> 1" "i = hd ids"
      "has_word_boundary (lower text) tm"
    using assms(2) by auto
  have "ids \<noteq> [] \<and> n \<le> length tm \<and> set ids = {j. (tm, j) \<in> term_pairs es}"
    using term_index_ok[of n es] ids(1) by (auto simp: index_ok_def)
  moreover from this have "ids = [i]" using ids(2,3) by (cases ids) auto
  ultimately show ?thesis using sound ids(4) by auto
qed

theorem mentions_sound_witness:
  "{j. (''acme'', j) \<in> term_pairs (map row_entity (rev (db_entities (store_run (ag_options sample_agent_entities) sample_contacts))))} = {''c_u2''}"
proof -
  let ?db = "store_run (ag_options sample_agent_entities) sample_contacts"
  have "find_entities (ag_matchers sample_agent_entities) (any_entity\<lparr>fq_kinds := [], fq_limit := Some 5000\<rparr>) ?db =
      Inr (map row_entity (rev (db_entities ?db)))" by code_simp
  moreover have "extract_mentions (ag_matchers sample_agent_entities) [] 3 ''ask Acme!'' ?db =
      Inr \<lparr>mn_matched = [(''c_u2'', ''acme'')], mn_ambiguous = []\<rparr>" by code_simp
  ultimately show ?thesis
    using mentions_sound[of "ag_matchers sample_agent_entities" "[]" 3 "''ask Acme!''" ?db _ "''c_u2''" "''acme''"] by simp
qed

end
