(* ===== verification/EntityApi.thy ===== *)
theory EntityApi
  imports EntityIdentity EventBus
begin

text \<open>
  The HTTP surface of the entity store (\<open>controllers/entities.controller.ts\<close>): which agent's store a
  request reaches, how bodies and queries are read, which status an error becomes; and the prompt
  handbook of the kinds in scope (\<open>services/entities/entity-model-renderer.service.ts\<close>).
\<close>

section \<open>Requests\<close>

record upsert_request =
  uq_kind :: string
  uq_name :: string
  uq_properties :: props
  uq_id :: "string option"
  uq_writer :: writer

record relate_request =
  rq_type :: string
  rq_to :: string
  rq_properties :: "props option"
  rq_writer :: writer

record purge_request =
  pq_reason :: string
  pq_writer :: writer

definition parse_writer :: "props \<Rightarrow> writer option" where
  "parse_writer ps =
     (case (optional_string ps ''trace_id'', optional_string ps ''actor'') of
        (Some t, Some a) \<Rightarrow> Some \<lparr>wr_trace = t, wr_actor = a\<rparr>
      | _ \<Rightarrow> None)"

definition parse_upsert :: "jsval \<Rightarrow> upsert_request option" where
  "parse_upsert body =
     (case body of
        Val (JObj ps) \<Rightarrow>
          (case (required_string ps ''kind'', required_string ps ''name'', record_field ps ''properties'',
                 optional_string ps ''id'', parse_writer ps) of
             (Some k, Some n, Some qs, Some i, Some w) \<Rightarrow>
               Some \<lparr>uq_kind = k, uq_name = n, uq_properties = qs, uq_id = i, uq_writer = w\<rparr>
           | _ \<Rightarrow> None)
      | _ \<Rightarrow> None)"

definition parse_relate :: "jsval \<Rightarrow> relate_request option" where
  "parse_relate body =
     (case body of
        Val (JObj ps) \<Rightarrow>
          (case (required_string ps ''type'', required_string ps ''to_id'', optional_record ps ''properties'', parse_writer ps) of
             (Some t, Some g, Some qs, Some w) \<Rightarrow>
               Some \<lparr>rq_type = t, rq_to = g, rq_properties = qs, rq_writer = w\<rparr>
           | _ \<Rightarrow> None)
      | _ \<Rightarrow> None)"

definition parse_purge :: "jsval \<Rightarrow> purge_request option" where
  "parse_purge body =
     (case body of
        Val (JObj ps) \<Rightarrow>
          (case (required_string ps ''reason'', parse_writer ps) of
             (Some r, Some w) \<Rightarrow> Some \<lparr>pq_reason = r, pq_writer = w\<rparr>
           | _ \<Rightarrow> None)
      | _ \<Rightarrow> None)"

text \<open>The query parameters of the list route, with the semantic query apart.\<close>

definition parse_order :: "string option \<Rightarrow> string option \<Rightarrow> (order_field \<times> order_dir) option" where
  "parse_order field dir =
     (case (field, dir) of
        (Some f, Some d) \<Rightarrow>
          (case (map_of [(''created_at'', By_created), (''updated_at'', By_updated), (''name'', By_name)] f,
                 map_of [(''asc'', Asc), (''desc'', Desc)] d) of
             (Some f', Some d') \<Rightarrow> Some (f', d')
           | _ \<Rightarrow> None)
      | _ \<Rightarrow> None)"

definition parse_find_limit :: "string option \<Rightarrow> nat option" where
  "parse_find_limit raw =
     (case raw of
        None \<Rightarrow> None
      | Some s \<Rightarrow> (case parse_int10 s of
                     Some n \<Rightarrow> if 0 < n \<and> n \<le> 500 then Some (nat n) else None
                   | None \<Rightarrow> None))"

definition query_string :: "request \<Rightarrow> string \<Rightarrow> string option" where
  "query_string r k = (case map_of (req_query r) k of Some (Val (JStr s)) \<Rightarrow> Some s | _ \<Rightarrow> None)"

definition parse_find_query :: "request \<Rightarrow> find_query \<times> string option" where
  "parse_find_query r =
     (\<lparr>fq_kinds = (case query_string r ''kinds'' of Some s \<Rightarrow> filter (\<lambda>k. k \<noteq> []) (split_on CHR '','' s) | None \<Rightarrow> []),
       fq_q = get_string_query r ''q'', fq_related_to = get_string_query r ''related_to'',
       fq_relation_type = get_string_query r ''relation_type'', fq_text_match = get_string_query r ''text_match'',
       fq_status = get_string_query r ''status'',
       fq_order = parse_order (query_string r ''order_field'') (query_string r ''order_dir''),
       fq_limit = parse_find_limit (query_string r ''limit'')\<rparr>,
      get_string_query r ''query'')"

section \<open>Handlers\<close>

text \<open>A response is its status and, when it is 200, what it carries. The registry maps agent names to
  their stores.\<close>

type_synonym registry = "(string, agent_entities \<times> entity_db) jsmap"

fun store_error_status :: "store_error \<Rightarrow> nat" where
  "store_error_status (Schema_validation_failed es) = 400"
| "store_error_status Kind_required = 400"
| "store_error_status Purge_reason_required = 400"
| "store_error_status (Entity_not_found i) = 404"
| "store_error_status (Relation_target_missing f g) = 400"
| "store_error_status _ = 500"

definition agent_context :: "registry \<Rightarrow> request \<Rightarrow> nat + string \<times> agent_entities \<times> entity_db" where
  "agent_context reg r =
     (case get_string_parameter r ''agent'' of
        None \<Rightarrow> Inl 400
      | Some a \<Rightarrow> (case map_of reg a of None \<Rightarrow> Inl 404 | Some (ag, db) \<Rightarrow> Inr (a, ag, db)))"

definition reply :: "store_error + 'a \<Rightarrow> nat \<times> 'a option" where
  "reply x = (case x of Inl e \<Rightarrow> (store_error_status e, None) | Inr v \<Rightarrow> (200, Some v))"

definition list_entities ::
  "(string \<Rightarrow> entity list \<Rightarrow> entity list) option \<Rightarrow> registry \<Rightarrow> request \<Rightarrow> nat \<times> entity list option" where
  "list_entities rank reg r =
     (case agent_context reg r of
        Inl s \<Rightarrow> (s, None)
      | Inr (a, ag, db) \<Rightarrow>
          (let (q, semantic) = parse_find_query r;
               declared = (case fq_limit q of Some n \<Rightarrow> n | None \<Rightarrow> 50);
               fetch = (if semantic \<noteq> None \<and> rank \<noteq> None then min (max (declared * 4) 50) 500 else declared)
           in (case find_entities (ag_matchers ag) (q\<lparr>fq_limit := Some fetch\<rparr>) db of
                 Inl e \<Rightarrow> (store_error_status e, None)
               | Inr es \<Rightarrow>
                   (case (semantic, rank) of
                      (Some s, Some f) \<Rightarrow> (200, Some (take declared (f s es)))
                    | _ \<Rightarrow> (200, Some (take declared es))))))"

definition get_entity_handler :: "registry \<Rightarrow> request \<Rightarrow> nat \<times> expanded option" where
  "get_entity_handler reg r =
     (case agent_context reg r of
        Inl s \<Rightarrow> (s, None)
      | Inr (a, ag, db) \<Rightarrow>
          (case get_string_parameter r ''id'' of
             None \<Rightarrow> (400, None)
           | Some i \<Rightarrow>
               (case get_entity db i (query_string r ''expand'' = Some ''relations'') of
                  Inl e \<Rightarrow> (store_error_status e, None)
                | Inr None \<Rightarrow> (404, None)
                | Inr (Some x) \<Rightarrow> (200, Some x))))"

definition upsert_entity_handler ::
  "millis \<Rightarrow> string \<Rightarrow> registry \<Rightarrow> request \<Rightarrow> jsval \<Rightarrow> (nat \<times> entity option) \<times> registry" where
  "upsert_entity_handler now uuid reg r body =
     (case agent_context reg r of
        Inl s \<Rightarrow> ((s, None), reg)
      | Inr (a, ag, db) \<Rightarrow>
          (case parse_upsert body of
             None \<Rightarrow> ((400, None), reg)
           | Some u \<Rightarrow>
               (case upsert_entity (ag_options ag) now uuid (uq_kind u) (uq_name u) (uq_properties u) (uq_id u) (uq_writer u) db of
                  (res, db') \<Rightarrow> (reply res, AList.update a (ag, db') reg))))"

definition relate_entity_handler ::
  "millis \<Rightarrow> registry \<Rightarrow> request \<Rightarrow> jsval \<Rightarrow> (nat \<times> unit option) \<times> registry" where
  "relate_entity_handler now reg r body =
     (case agent_context reg r of
        Inl s \<Rightarrow> ((s, None), reg)
      | Inr (a, ag, db) \<Rightarrow>
          (case (get_string_parameter r ''id'', parse_relate body) of
             (Some f, Some q) \<Rightarrow>
               (case relate now f (rq_type q) (rq_to q) (rq_properties q) (rq_writer q) db of
                  (res, db') \<Rightarrow> (reply res, AList.update a (ag, db') reg))
           | _ \<Rightarrow> ((400, None), reg)))"

definition unrelate_entity_handler :: "millis \<Rightarrow> registry \<Rightarrow> request \<Rightarrow> (nat \<times> unit option) \<times> registry" where
  "unrelate_entity_handler now reg r =
     (case agent_context reg r of
        Inl s \<Rightarrow> ((s, None), reg)
      | Inr (a, ag, db) \<Rightarrow>
          (case (get_string_parameter r ''id'', get_string_parameter r ''type'', get_string_parameter r ''to'') of
             (Some f, Some t, Some g) \<Rightarrow>
               ((200, Some ()), AList.update a (ag, unrelate now f t g \<lparr>wr_trace = None, wr_actor = None\<rparr> db) reg)
           | _ \<Rightarrow> ((400, None), reg)))"

definition purge_entity_handler ::
  "millis \<Rightarrow> registry \<Rightarrow> request \<Rightarrow> jsval \<Rightarrow> (nat \<times> unit option) \<times> registry" where
  "purge_entity_handler now reg r body =
     (case agent_context reg r of
        Inl s \<Rightarrow> ((s, None), reg)
      | Inr (a, ag, db) \<Rightarrow>
          (case (get_string_parameter r ''id'', parse_purge body) of
             (Some i, Some q) \<Rightarrow>
               (case purge now i (pq_reason q) (pq_writer q) db of
                  (res, db') \<Rightarrow> (reply res, AList.update a (ag, db') reg))
           | _ \<Rightarrow> ((400, None), reg)))"

definition audit_entity_handler :: "registry \<Rightarrow> request \<Rightarrow> nat \<times> audit_record list option" where
  "audit_entity_handler reg r =
     (case agent_context reg r of
        Inl s \<Rightarrow> (s, None)
      | Inr (a, ag, db) \<Rightarrow>
          (case get_string_parameter r ''id'' of
             None \<Rightarrow> (400, None)
           | Some i \<Rightarrow> reply (audit_for db i
               (case query_string r ''since'' of Some s \<Rightarrow> parse_int10 s | None \<Rightarrow> None))))"

section \<open>Writes over HTTP\<close>

datatype entity_call =
    Call_upsert millis string request jsval
  | Call_relate millis request jsval
  | Call_unrelate millis request
  | Call_purge millis request jsval

fun serve_entities :: "entity_call \<Rightarrow> registry \<Rightarrow> nat \<times> registry" where
  "serve_entities (Call_upsert now uuid r body) reg = map_prod fst id (upsert_entity_handler now uuid reg r body)"
| "serve_entities (Call_relate now r body) reg = map_prod fst id (relate_entity_handler now reg r body)"
| "serve_entities (Call_unrelate now r) reg = map_prod fst id (unrelate_entity_handler now reg r)"
| "serve_entities (Call_purge now r body) reg = map_prod fst id (purge_entity_handler now reg r body)"

section \<open>The handbook\<close>

fun type_text :: "type_spec \<Rightarrow> string" where
  "type_text (One_type t) = t"
| "type_text (Types ts) = join '','' ts"

definition format_type :: "schema_property \<Rightarrow> string" where
  "format_type p =
     (case sp_type p of
        None \<Rightarrow> ''any''
      | Some (Types ts) \<Rightarrow> join ''|'' ts
      | Some (One_type t) \<Rightarrow>
          (case sp_items_type p of
             Some it \<Rightarrow> if t = ''array'' then type_text it @ ''[]''
                        else (case sp_format p of Some f \<Rightarrow> t @ '' ('' @ f @ '')'' | None \<Rightarrow> t)
           | None \<Rightarrow> (case sp_format p of Some f \<Rightarrow> t @ '' ('' @ f @ '')'' | None \<Rightarrow> t)))"

text \<open>The dash the code writes is outside ASCII; it is the parameter \<open>dash\<close>.\<close>

definition property_line :: "string \<Rightarrow> string list \<Rightarrow> string \<times> schema_property \<Rightarrow> string" where
  "property_line dash required np =
     (let (name, p) = np; description = (case sp_description p of Some d \<Rightarrow> d | None \<Rightarrow> []) in
      ''- `'' @ name @ ''`'' @ (if name \<in> set required then '' (required)'' else []) @ '': '' @ format_type p
      @ (case sp_enum p of Some vs \<Rightarrow> '' enum: ['' @ join '', '' (map json_stringify vs) @ '']'' | None \<Rightarrow> [])
      @ (if description = [] then [] else '' '' @ dash @ '' '' @ description))"

definition kind_lines :: "string \<Rightarrow> kind_schemas \<Rightarrow> string \<Rightarrow> string list" where
  "kind_lines dash schemas kind =
     (case map_of schemas kind of
        None \<Rightarrow> [''### '' @ kind, ''No schema declared. Properties are schemaless.'', []]
      | Some s \<Rightarrow>
          [''### '' @ kind]
          @ (case ks_description s of Some d \<Rightarrow> [d] | None \<Rightarrow> [])
          @ (if ks_properties s = [] then [''No properties declared.'']
             else ''Properties:'' # map (property_line dash (case ks_required s of Some rs \<Rightarrow> rs | None \<Rightarrow> [])) (ks_properties s))
          @ [[]])"

definition relation_line :: "string \<Rightarrow> string \<times> relation_declaration \<Rightarrow> string" where
  "relation_line dash td =
     (let (t, d) = td in
      ''- `'' @ rd_from d @ ''` --'' @ t
      @ (case rd_properties d of
           None \<Rightarrow> []
         | Some ps \<Rightarrow> '' { '' @ join '', '' (map (\<lambda>(n, p). n @ (case sp_enum p of
               Some vs \<Rightarrow> '': '' @ join ''|'' (map json_stringify vs) | None \<Rightarrow> [])) ps) @ '' }'')
      @ ''--> `'' @ rd_to d @ ''`''
      @ (case rd_description d of Some x \<Rightarrow> '' '' @ dash @ '' '' @ x | None \<Rightarrow> []))"

definition relevant_relations :: "string list \<Rightarrow> (string, relation_declaration) jsmap \<Rightarrow> (string, relation_declaration) jsmap" where
  "relevant_relations kinds relations = filter (\<lambda>(t, d). rd_from d \<in> set kinds \<and> rd_to d \<in> set kinds) relations"

definition render_entity_model ::
  "string \<Rightarrow> kind_schemas \<Rightarrow> (string, relation_declaration) jsmap \<Rightarrow> string list \<Rightarrow> string" where
  "render_entity_model dash schemas relations kinds =
     join newline
       ([''You have a knowledge base of entities you can read and write. The kinds you can work with on this route:'', []]
        @ concat (map (kind_lines dash schemas) kinds)
        @ [''## Relations'']
        @ (if relevant_relations kinds relations = [] then [''No relations in scope for this route.'']
           else map (relation_line dash) (relevant_relations kinds relations)))"

section \<open>A refused request changes nothing\<close>

lemma upsert_error_unchanged:
  assumes inv: "store_inv db" and ps: "wf_json (JObj ps)"
    and err: "upsert_entity opts now uuid kind name ps supplied w db = (Inl e, db')"
  shows "db' = db"
proof -
  have step: "snd (upsert_entity opts now uuid kind name ps supplied w db) = db'" using err by simp
  have inv': "store_inv db'"
    using store_inv_step[OF inv, of "Upsert now uuid kind name ps supplied w" opts] ps step by simp
  have row: "find_row db' i \<noteq> None"
    if c: "upsert_commit opts now uuid kind name ps supplied existing w db = Inr (i, db')" for existing i
  proof (cases existing)
    case None
    then show ?thesis using c
      by (auto simp: upsert_commit_def Let_def and_then_Inr insert_entity_Inr find_row_None simp del: not_None_eq)
  next
    case (Some j)
    obtain r where "find_row db j = Some r" "i = j" and db': "db_entities db' = db_entities (update_entity now j kind name ps db)"
      using c Some by (auto simp: upsert_commit_def get_raw_inv[OF inv] split: option.splits)
    then have "i \<in> er_id ` set (db_entities db')" unfolding db' update_ids by (auto dest!: find_rowD)
    then show ?thesis by (simp only: find_row_None not_not simp_thms)
  qed
  show ?thesis
    using err
    by (auto simp: upsert_entity_def get_raw_inv[OF inv'] and_then_Inr split: sum.splits option.splits dest!: row)
qed

definition registry_ok :: "registry \<Rightarrow> bool" where
  "registry_ok reg \<longleftrightarrow> list_all (\<lambda>(a, ag, db). store_inv db) reg"

lemma agent_context_Inr:
  "agent_context reg r = Inr (a, ag, db) \<Longrightarrow> map_of reg a = Some (ag, db)"
  by (auto simp: agent_context_def split: option.splits)

lemma registry_unchanged: "map_of reg a = Some x \<Longrightarrow> map_of (AList.update a x reg) = map_of reg"
  by auto

lemma reply_status: "fst (reply x) \<noteq> 200 \<Longrightarrow> \<exists>e. x = Inl e"
  by (cases x) (simp_all add: reply_def)

lemma relate_error: "relate now f t g ps w db = (Inl e, db') \<Longrightarrow> db' = db"
  by (auto simp: relate_def split: sum.splits)

lemma purge_error: "purge now i reason w db = (Inl e, db') \<Longrightarrow> db' = db"
  by (auto simp: purge_def split: if_splits sum.splits option.splits)

fun call_body :: "entity_call \<Rightarrow> jsval" where
  "call_body (Call_upsert now uuid r body) = body"
| "call_body (Call_relate now r body) = body"
| "call_body (Call_unrelate now r) = Undef"
| "call_body (Call_purge now r body) = body"

fun wf_val :: "jsval \<Rightarrow> bool" where
  "wf_val (Val v) = wf_json v"
| "wf_val _ = True"

lemma record_field_wf:
  assumes "wf_json (JObj ps)" and "record_field ps k = Some qs" shows "wf_json (JObj qs)"
proof -
  have "(k, JObj qs) \<in> set ps"
    using assms(2) by (auto simp: record_field_def split: option.splits json.splits dest: map_of_SomeD)
  moreover have "\<forall>p \<in> set ps. wf_json (snd p)" using assms(1) by (simp add: list_all_iff)
  ultimately show ?thesis by (metis snd_conv)
qed

lemma parse_upsert_wf:
  assumes "wf_val body" and "parse_upsert body = Some u" shows "wf_json (JObj (uq_properties u))"
proof -
  obtain ps where "body = Val (JObj ps)" "record_field ps ''properties'' = Some (uq_properties u)"
    using assms(2) by (auto simp: parse_upsert_def split: jsval.splits json.splits option.splits)
  then show ?thesis using record_field_wf assms(1) by (metis wf_val.simps(1))
qed

text \<open>C34: A write answered with another status than 200 has changed no store, whichever check or store
  error refused it.\<close>

theorem refused_write_changes_nothing:
  assumes "registry_ok reg" and "wf_val (call_body call)"
    and "serve_entities call reg = (status, reg')" and "status \<noteq> 200"
  shows "map_of reg' = map_of reg"
proof (cases call)
  case (Call_upsert now uuid r body)
  show ?thesis
  proof (cases "agent_context reg r")
    case (Inr x)
    obtain a ag db where x: "x = (a, ag, db)" by (cases x)
    note here = agent_context_Inr[OF Inr[unfolded x]]
    have inv: "store_inv db" using assms(1) map_of_SomeD[OF here] by (auto simp: registry_ok_def list_all_iff)
    show ?thesis
    proof (cases "parse_upsert body")
      case (Some u)
      obtain res db' where up: "upsert_entity (ag_options ag) now uuid (uq_kind u) (uq_name u) (uq_properties u)
          (uq_id u) (uq_writer u) db = (res, db')" by fastforce
      have served: "status = fst (reply res)" "reg' = AList.update a (ag, db') reg"
        using assms(3) by (simp_all add: Call_upsert upsert_entity_handler_def Inr x Some up)
      obtain e where "res = Inl e" using reply_status assms(4) served(1) by blast
      then have "db' = db"
        using upsert_error_unchanged[OF inv parse_upsert_wf[OF _ Some]] assms(2) up by (simp add: Call_upsert)
      then show ?thesis by (simp only: served registry_unchanged[OF here])
    qed (use assms(3) in \<open>simp add: Call_upsert upsert_entity_handler_def Inr x\<close>)
  qed (use assms(3) in \<open>simp add: Call_upsert upsert_entity_handler_def\<close>)
next
  case (Call_relate now r body)
  then show ?thesis
    using assms(3,4)
    by (auto simp: relate_entity_handler_def intro: fun_upd_idem
        split: sum.splits option.splits prod.splits dest!: reply_status relate_error agent_context_Inr)
next
  case (Call_unrelate now r)
  then show ?thesis
    using assms(3,4) by (auto simp: unrelate_entity_handler_def split: sum.splits option.splits)
next
  case (Call_purge now r body)
  then show ?thesis
    using assms(3,4)
    by (auto simp: purge_entity_handler_def intro: fun_upd_idem
        split: sum.splits option.splits prod.splits dest!: reply_status purge_error agent_context_Inr)
qed

definition sample_registry :: registry where
  "sample_registry = [(''a'', sample_agent_entities, store_run (ag_options sample_agent_entities) sample_contacts)]"

definition sample_entity_request :: request where
  "sample_entity_request = \<lparr>req_headers = [], req_params = [(''agent'', ''a''), (''id'', ''p_u1'')], req_query = []\<rparr>"

theorem refused_write_changes_nothing_witness:
  "map_of (snd (serve_entities (Call_relate 9 sample_entity_request
      (Val (JObj [(''type'', JStr ''about''), (''to_id'', JStr ''nobody'')]))) sample_registry)) = map_of sample_registry"
proof (rule refused_write_changes_nothing)
  have "list_all wf_op sample_contacts" by (simp add: sample_contacts_def)
  from store_run_inv[OF this] show "registry_ok sample_registry"
    by (simp add: registry_ok_def sample_registry_def)
  show "serve_entities (Call_relate 9 sample_entity_request
      (Val (JObj [(''type'', JStr ''about''), (''to_id'', JStr ''nobody'')]))) sample_registry =
    (400, snd (serve_entities (Call_relate 9 sample_entity_request
      (Val (JObj [(''type'', JStr ''about''), (''to_id'', JStr ''nobody'')]))) sample_registry))"
    by (rule prod_eqI, code_simp, simp)
qed simp_all

end
