(* ===== verification/Signature.thy ===== *)
theory Signature
  imports Ingest Base64 Inflight
begin

text \<open>
  Signature strategies (\<open>strategies/signature.ts\<close>, \<open>strategies/oidc.ts\<close>): HMAC in the WebSub and
  GitHub format, bearer tokens, Slack's timestamped signature, and Google OIDC tokens with their
  cached signing keys. SHA-256 HMAC, RSA verification and the key server are parameters. A body is a
  byte string; its text is taken byte by byte, so bodies outside ASCII are outside the model.
\<close>

section \<open>Shared secrets\<close>

text \<open>\<open>createHmac('sha256', secret).update(data).digest()\<close> as bytes.\<close>

type_synonym hmac = "string \<Rightarrow> string \<Rightarrow> nat list"

text \<open>Equal length, then \<open>timingSafeEqual\<close>.\<close>

definition same_bytes :: "'a list \<Rightarrow> 'a list \<Rightarrow> bool" where
  "same_bytes a b = (if length a \<noteq> length b then False else a = b)"

definition validate_hmac_sha256 :: "hmac \<Rightarrow> string \<Rightarrow> string \<Rightarrow> string \<Rightarrow> bool" where
  "validate_hmac_sha256 mac body signature secret =
     (if \<not> prefix ''sha256='' signature then False
      else same_bytes (decode_hex (drop (length ''sha256='') signature)) (decode_hex (encode_hex (mac secret body))))"

definition validate_bearer :: "string \<Rightarrow> string \<Rightarrow> bool" where
  "validate_bearer auth secret =
     (if \<not> prefix ''Bearer '' auth then False else same_bytes (drop (length ''Bearer '') auth) secret)"

definition slack_max_age :: int where "slack_max_age = 300"

definition validate_slack :: "hmac \<Rightarrow> millis \<Rightarrow> string \<Rightarrow> string \<Rightarrow> string \<Rightarrow> (string, string) jsmap \<Rightarrow> bool" where
  "validate_slack mac now body signature secret headers =
     (if \<not> prefix ''v0='' signature then False
      else (case map_of headers ''x-slack-request-timestamp'' of
              None \<Rightarrow> False
            | Some timestamp \<Rightarrow>
                if timestamp = [] then False
                else (case js_number timestamp of
                        None \<Rightarrow> False
                      | Some seconds \<Rightarrow>
                          if \<bar>now div 1000 - seconds\<bar> > slack_max_age then False
                          else same_bytes signature
                            (''v0='' @ encode_hex (mac secret (''v0:'' @ timestamp @ '':'' @ body))))))"

section \<open>OIDC tokens\<close>

text \<open>Checking can pass, refuse, or throw: reading a member of \<open>null\<close> throws.\<close>

datatype verdict = Pass | Refuse | Throw

record 'k jwks =
  jw_keys :: "(string, 'k) jsmap"
  jw_fetched :: millis
  jw_uri :: string

text \<open>The module's cache and the fetch in flight, by the URI it asks.\<close>

record 'k jwks_state =
  js_cache :: "'k jwks option"
  js_in_flight :: "string option"

definition jwks_cache_ttl :: millis where "jwks_cache_ttl = 60 * 60 * 1000"

text \<open>\<open>getJwks\<close> up to its promise: keys at once, or the answer of the fetch of that URI.\<close>

datatype 'k jwks_promise = Cached "'k jwks" | Fetching string

definition get_jwks :: "millis \<Rightarrow> string \<Rightarrow> 'k jwks_state \<Rightarrow> 'k jwks_promise \<times> 'k jwks_state" where
  "get_jwks now uri s =
     (case js_cache s of
        Some c \<Rightarrow>
          if jw_uri c = uri \<and> now - jw_fetched c < jwks_cache_ttl then (Cached c, s)
          else (case js_in_flight s of
                  Some u \<Rightarrow> (Fetching u, s)
                | None \<Rightarrow> (Fetching uri, s\<lparr>js_in_flight := Some uri\<rparr>))
      | None \<Rightarrow> (case js_in_flight s of
                   Some u \<Rightarrow> (Fetching u, s)
                 | None \<Rightarrow> (Fetching uri, s\<lparr>js_in_flight := Some uri\<rparr>)))"

text \<open>The fetch settles: \<open>None\<close> when it failed or held no usable key.\<close>

definition settle_fetch :: "millis \<Rightarrow> (string, 'k) jsmap option \<Rightarrow> 'k jwks_state \<Rightarrow> 'k jwks option \<times> 'k jwks_state" where
  "settle_fetch now body s =
     (case (js_in_flight s, body) of
        (Some u, Some keys) \<Rightarrow>
          if keys = [] then (None, s\<lparr>js_in_flight := None\<rparr>)
          else (let fresh = \<lparr>jw_keys = keys, jw_fetched = now, jw_uri = u\<rparr>
                in (Some fresh, \<lparr>js_cache = Some fresh, js_in_flight = None\<rparr>))
      | _ \<Rightarrow> (None, s\<lparr>js_in_flight := None\<rparr>))"

text \<open>\<open>getJwks\<close> run to its end with the key server's answers.\<close>

definition await_jwks ::
  "millis \<Rightarrow> (string \<Rightarrow> (string, 'k) jsmap option) \<Rightarrow> string \<Rightarrow> 'k jwks_state \<Rightarrow> 'k jwks option \<times> 'k jwks_state" where
  "await_jwks now server uri s =
     (case get_jwks now uri s of
        (Cached c, s') \<Rightarrow> (Some c, s')
      | (Fetching u, s') \<Rightarrow> settle_fetch now (server u) s')"

record jwt =
  jt_header :: json
  jt_payload :: json
  jt_signed :: string
  jt_signature :: string

definition decode_base64_url :: "string \<Rightarrow> string" where
  "decode_base64_url t =
     (let swapped = map (\<lambda>c. if c = CHR ''-'' then CHR ''+'' else if c = CHR ''_'' then CHR ''/'' else c) t
      in decode_base64 (swapped @ replicate ((4 - length swapped mod 4) mod 4) (CHR ''='')))"

definition parse_jwt :: "string \<Rightarrow> jwt option" where
  "parse_jwt token =
     (case split_on CHR ''.'' token of
        [h, p, g] \<Rightarrow>
          if h = [] \<or> p = [] \<or> g = [] then None
          else (case (json_parse (decode_base64_url h), json_parse (decode_base64_url p)) of
                  (Some hv, Some pv) \<Rightarrow>
                    Some \<lparr>jt_header = hv, jt_payload = pv, jt_signed = h @ ''.'' @ p, jt_signature = decode_base64_url g\<rparr>
                | _ \<Rightarrow> None)
      | _ \<Rightarrow> None)"

record oidc_config =
  oc_audience :: string
  oc_issuers :: "string list"
  oc_service_account :: "string option"
  oc_jwks_uri :: string

record oidc_section =
  os_audience :: "string option"
  os_issuers :: "string list option"
  os_service_account :: "string option"
  os_jwks_uri :: "string option"

definition google_default_issuers :: "string list" where
  "google_default_issuers = [''https://accounts.google.com'', ''accounts.google.com'']"

definition google_jwks_uri :: string where
  "google_jwks_uri = ''https://www.googleapis.com/oauth2/v3/certs''"

definition resolve_config :: "oidc_section option \<Rightarrow> oidc_config option" where
  "resolve_config oidc =
     (case oidc of
        None \<Rightarrow> None
      | Some o' \<Rightarrow> (case os_audience o' of
                      None \<Rightarrow> None
                    | Some a \<Rightarrow> Some \<lparr>oc_audience = a,
                        oc_issuers = (case os_issuers o' of Some is' \<Rightarrow> is' | None \<Rightarrow> google_default_issuers),
                        oc_service_account = os_service_account o',
                        oc_jwks_uri = (case os_jwks_uri o' of Some u \<Rightarrow> u | None \<Rightarrow> google_jwks_uri)\<rparr>))"

definition falsy :: "jsval \<Rightarrow> bool" where
  "falsy v \<longleftrightarrow> v \<in> {Undef, Val JNull, Val (JBool False), Val (JNum 0), Val (JStr [])}"

definition key_for :: "'k jwks \<Rightarrow> jsval \<Rightarrow> 'k option" where
  "key_for w kid = (case kid of Val (JStr s) \<Rightarrow> map_of (jw_keys w) s | _ \<Rightarrow> None)"

definition check_audience :: "jsval \<Rightarrow> string \<Rightarrow> bool" where
  "check_audience claim expected =
     (case claim of
        Val (JStr s) \<Rightarrow> same_bytes s expected
      | Val (JArr vs) \<Rightarrow> list_ex (\<lambda>v. case v of JStr s \<Rightarrow> same_bytes s expected | _ \<Rightarrow> False) vs
      | _ \<Rightarrow> False)"

definition clock_skew :: int where "clock_skew = 60"

definition claim_in_future :: "int \<Rightarrow> jsval \<Rightarrow> bool" where
  "claim_in_future now v = (case v of Val (JNum n) \<Rightarrow> n - clock_skew > now | _ \<Rightarrow> False)"

definition check_claims :: "millis \<Rightarrow> oidc_config \<Rightarrow> json \<Rightarrow> verdict" where
  "check_claims now config payload =
     (let claim = read_indexed (Val payload); seconds = now div 1000 in
      if payload = JNull then Throw
      else if (case claim ''exp'' of Val (JNum e) \<Rightarrow> e + clock_skew < seconds | _ \<Rightarrow> True) then Refuse
      else if claim_in_future seconds (claim ''nbf'') then Refuse
      else if claim_in_future seconds (claim ''iat'') then Refuse
      else if (case claim ''iss'' of Val (JStr i) \<Rightarrow> i \<notin> set (oc_issuers config) | _ \<Rightarrow> True) then Refuse
      else if \<not> check_audience (claim ''aud'') (oc_audience config) then Refuse
      else (case oc_service_account config of
              None \<Rightarrow> Pass
            | Some account \<Rightarrow>
                if account = [] then Pass
                else (case claim ''email'' of
                        Val (JStr e) \<Rightarrow> if same_bytes e account then Pass else Refuse
                      | _ \<Rightarrow> Refuse)))"

text \<open>\<open>rsa key signed signature\<close> is the verification, false where the library throws. The two
  answers are the key server's, at the first lookup and after a key id was not found.\<close>

definition verify_oidc_token ::
  "('k \<Rightarrow> string \<Rightarrow> string \<Rightarrow> bool) \<Rightarrow> (string \<Rightarrow> (string, 'k) jsmap option) \<Rightarrow> (string \<Rightarrow> (string, 'k) jsmap option) \<Rightarrow>
   millis \<Rightarrow> string \<Rightarrow> oidc_config \<Rightarrow> 'k jwks_state \<Rightarrow> verdict \<times> 'k jwks_state" where
  "verify_oidc_token rsa server1 server2 now token config s =
     (case parse_jwt token of
        None \<Rightarrow> (Refuse, s)
      | Some t \<Rightarrow>
          (let kid = read_indexed (Val (jt_header t)) ''kid'' in
           if jt_header t = JNull then (Throw, s)
           else if read_indexed (Val (jt_header t)) ''alg'' \<noteq> Val (JStr ''RS256'') then (Refuse, s)
           else if falsy kid then (Refuse, s)
           else (case await_jwks now server1 (oc_jwks_uri config) s of
                   (None, s1) \<Rightarrow> (Refuse, s1)
                 | (Some w, s1) \<Rightarrow>
                     (case (case key_for w kid of
                              Some k \<Rightarrow> (Some k, s1)
                            | None \<Rightarrow> (case await_jwks now server2 (oc_jwks_uri config) (s1\<lparr>js_cache := None\<rparr>) of
                                         (None, s2) \<Rightarrow> (None, s2)
                                       | (Some w2, s2) \<Rightarrow> (key_for w2 kid, s2))) of
                        (None, s3) \<Rightarrow> (Refuse, s3)
                      | (Some k, s3) \<Rightarrow>
                          if \<not> rsa k (jt_signed t) (jt_signature t) then (Refuse, s3)
                          else (check_claims now config (jt_payload t), s3)))))"

definition validate_oidc ::
  "('k \<Rightarrow> string \<Rightarrow> string \<Rightarrow> bool) \<Rightarrow> (string \<Rightarrow> (string, 'k) jsmap option) \<Rightarrow> (string \<Rightarrow> (string, 'k) jsmap option) \<Rightarrow>
   millis \<Rightarrow> string \<Rightarrow> oidc_section option \<Rightarrow> 'k jwks_state \<Rightarrow> verdict \<times> 'k jwks_state" where
  "validate_oidc rsa server1 server2 now auth oidc s =
     (if \<not> prefix ''Bearer '' auth then (Refuse, s)
      else (let token = trim (drop (length ''Bearer '') auth) in
            if token = [] then (Refuse, s)
            else (case resolve_config oidc of
                    None \<Rightarrow> (Refuse, s)
                  | Some config \<Rightarrow> verify_oidc_token rsa server1 server2 now token config s)))"

section \<open>What is accepted\<close>

lemma same_bytes_eq [simp]: "same_bytes a b \<longleftrightarrow> a = b"
  by (auto simp: same_bytes_def)

lemma hmac_accepts:
  assumes "list_all (\<lambda>b. b < 256) (mac secret body)"
  shows "validate_hmac_sha256 mac body signature secret \<longleftrightarrow>
    (\<exists>hex. signature = ''sha256='' @ hex \<and> decode_hex hex = mac secret body)"
  using decode_encode_hex[OF assms, of "[]"] by (auto simp: validate_hmac_sha256_def prefix_def)

text \<open>The hexadecimal reader stops at the first pair that is not a byte, so a valid signature with
  anything appended is accepted too.\<close>

lemma hmac_ignores_tail:
  assumes "list_all (\<lambda>b. b < 256) (mac secret body)"
  shows "validate_hmac_sha256 mac body (''sha256='' @ encode_hex (mac secret body) @ ''zz'') secret"
proof -
  have "decode_hex (encode_hex (mac secret body) @ ''zz'') = mac secret body"
    using decode_encode_hex[OF assms, of "''zz''"] by (simp add: hex_nibble_def lower_char_def)
  then show ?thesis using hmac_accepts[of mac secret body, OF assms] by blast
qed

text \<open>Slack's replay window: a signed request can be accepted only within 300 seconds of its own
  timestamp, so two acceptances of one request, however it was captured, are at most 600 seconds
  apart; and what is accepted carries the HMAC of timestamp and body under the secret.\<close>

theorem slack_replay_window:
  assumes "validate_slack mac now body signature secret headers"
    and "validate_slack mac later body' signature' secret' headers"
  shows "\<bar>now div 1000 - later div 1000\<bar> \<le> 600 \<and>
    (\<exists>ts. map_of headers ''x-slack-request-timestamp'' = Some ts \<and>
      signature = ''v0='' @ encode_hex (mac secret (''v0:'' @ ts @ '':'' @ body)))"
  using assms by (auto simp: validate_slack_def slack_max_age_def split: if_splits option.splits)

definition sample_mac :: hmac where
  "sample_mac secret data = [length secret, length data mod 256]"

theorem slack_replay_window_witness:
  "\<bar>(100000 :: int) div 1000 - 390000 div 1000\<bar> \<le> 600"
proof -
  define sig where "sig = ''v0='' @ encode_hex (sample_mac ''key'' (''v0:'' @ ''100'' @ '':'' @ ''hi''))"
  have ok: "validate_slack sample_mac now ''hi'' sig ''key'' [(''x-slack-request-timestamp'', ''100'')]"
    if "now = 100000 \<or> now = 390000" for now
    using that
    by (auto simp: validate_slack_def sig_def js_number_def trim_def is_space_def is_digit_def nat_of_digits_def
        digit_value_def slack_max_age_def)
  show ?thesis
    using slack_replay_window[OF ok ok, of 100000 390000] by blast
qed

text \<open>A token built from its parts is read back.\<close>

lemma decode_base64_url_encode: "decode_base64_url (encode_base64url s) = s"
proof -
  define t where "t = encode_base64url s"
  define swap where "swap = (\<lambda>c. if c = CHR ''-'' then CHR ''+'' else if c = CHR ''_'' then CHR ''/'' else c)"
  have same: "base64_value (swap c) = base64_value c" for c
    by (simp add: swap_def base64_value_def base64url_alphabet_def)
  have plain: "CHR ''='' \<notin> set t" "CHR ''='' \<notin> set (map swap t)"
    using encode_base64url_chars[of s] alphabet_facts(3) by (auto simp: t_def swap_def split: if_splits)
  have stop: "takeWhile (\<lambda>c. c \<noteq> CHR ''='') (u @ replicate n (CHR ''='')) = u" if "CHR ''='' \<notin> set u" for u n
    using that by (induction u) (cases n, auto)
  have "List.map_filter base64_value (map swap t) = List.map_filter base64_value t"
    by (simp add: List.map_filter_def filter_map comp_def same)
  moreover have "takeWhile (\<lambda>c. c \<noteq> CHR ''='') t = t"
    using plain(1) by (simp add: takeWhile_eq_all_conv) blast
  ultimately have "decode_base64 (map swap t @ replicate n (CHR ''='')) = decode_base64 t" for n
    unfolding decode_base64_def stop[OF plain(2)] by (simp only:)
  then show ?thesis
    using decode_encode_base64url[of s] by (simp add: decode_base64_url_def Let_def swap_def t_def)
qed

definition build_token :: "json \<Rightarrow> json \<Rightarrow> string \<Rightarrow> string" where
  "build_token h p g = encode_base64url (json_stringify h) @ ''.'' @ encode_base64url (json_stringify p) @ ''.'' @ encode_base64url g"

lemma parse_jwt_build:
  assumes "wf_json h" and "wf_json p" and "g \<noteq> []"
  shows "parse_jwt (build_token h p g) = Some \<lparr>jt_header = h, jt_payload = p,
    jt_signed = encode_base64url (json_stringify h) @ ''.'' @ encode_base64url (json_stringify p), jt_signature = g\<rparr>"
proof -
  have dot: "CHR ''.'' \<notin> set (encode_base64url s)" for s
    using encode_base64url_chars[of s] by (auto simp: base64url_alphabet_def)
  have nonempty: "encode_base64url s \<noteq> []" if "s \<noteq> []" for s
    using decode_encode_base64url[of s] that by (auto simp: decode_base64_def bytes_of_bits_def List.map_filter_def)
  have "json_stringify v \<noteq> []" for v using length_stringify[of v] by auto
  then have "encode_base64url (json_stringify h) \<noteq> []" "encode_base64url (json_stringify p) \<noteq> []" "encode_base64url g \<noteq> []"
    using nonempty assms(3) by blast+
  moreover have "split_on CHR ''.'' (build_token h p g) =
      [encode_base64url (json_stringify h), encode_base64url (json_stringify p), encode_base64url g]"
    by (simp add: build_token_def split_on_append_sep[OF dot] split_on_single[OF dot])
  ultimately show ?thesis
    by (simp add: parse_jwt_def decode_base64_url_encode json_parse_stringify assms)
qed

lemma check_claims_Pass:
  assumes "check_claims now config payload = Pass"
  obtains e i where "read_indexed (Val payload) ''exp'' = Val (JNum e)" "now div 1000 \<le> e + 60"
    "read_indexed (Val payload) ''iss'' = Val (JStr i)" "i \<in> set (oc_issuers config)"
    "check_audience (read_indexed (Val payload) ''aud'') (oc_audience config)"
  using assms
  by (auto simp: check_claims_def Let_def clock_skew_def split: if_splits jsval.splits json.splits)

text \<open>Where the keys a check uses can come from: the cache for its URI, the key server, or a fetch
  that was in flight already.\<close>

definition known_keys ::
  "'k jwks_state \<Rightarrow> (string \<Rightarrow> (string, 'k) jsmap option) list \<Rightarrow> string \<Rightarrow> (string, 'k) jsmap \<Rightarrow> bool" where
  "known_keys s servers uri keys \<longleftrightarrow>
     (\<exists>c. js_cache s = Some c \<and> jw_uri c = uri \<and> jw_keys c = keys) \<or>
     (\<exists>server \<in> set servers. server uri = Some keys \<or> (\<exists>u. js_in_flight s = Some u \<and> server u = Some keys))"

lemma await_jwks_known:
  assumes "await_jwks now server uri s = (Some w, s')"
  shows "known_keys s [server] uri (jw_keys w) \<and> (js_in_flight s' = None \<or> js_in_flight s' = js_in_flight s)"
  using assms
  by (auto simp: await_jwks_def get_jwks_def settle_fetch_def known_keys_def Let_def split: option.splits if_splits)

lemma known_keys_later:
  assumes "known_keys (s1\<lparr>js_cache := None\<rparr>) [server2] uri keys" and "js_in_flight s1 = None \<or> js_in_flight s1 = js_in_flight s"
  shows "known_keys s [server1, server2] uri keys"
  using assms by (auto simp: known_keys_def)

lemma falsy_key: "key_for w kid = Some k \<Longrightarrow> \<exists>i. kid = Val (JStr i) \<and> map_of (jw_keys w) i = Some k"
  by (auto simp: key_for_def split: jsval.splits json.splits)

lemma verify_Pass:
  assumes "fst (verify_oidc_token rsa server1 server2 now token config s) = Pass"
  obtains t kid k keys where "parse_jwt token = Some t" "rsa k (jt_signed t) (jt_signature t)"
    "read_indexed (Val (jt_header t)) ''alg'' = Val (JStr ''RS256'')"
    "read_indexed (Val (jt_header t)) ''kid'' = Val (JStr kid)" "map_of keys kid = Some k"
    "known_keys s [server1, server2] (oc_jwks_uri config) keys"
    "check_claims now config (jt_payload t) = Pass"
proof -
  obtain t where t: "parse_jwt token = Some t"
    using assms by (cases "parse_jwt token") (simp_all add: verify_oidc_token_def)
  let ?kid = "read_indexed (Val (jt_header t)) ''kid''" and ?uri = "oc_jwks_uri config"
  have alg: "read_indexed (Val (jt_header t)) ''alg'' = Val (JStr ''RS256'')" and kid: "\<not> falsy ?kid"
    and header: "jt_header t \<noteq> JNull"
    using assms by (auto simp: verify_oidc_token_def t Let_def split: if_splits)
  obtain w s1 where w: "await_jwks now server1 ?uri s = (Some w, s1)"
    using assms header alg kid
    by (cases "await_jwks now server1 ?uri s"; cases "fst (await_jwks now server1 ?uri s)")
      (auto simp: verify_oidc_token_def t Let_def)
  note first = await_jwks_known[OF w]
  show ?thesis
  proof (cases "key_for w ?kid")
    case (Some k)
    have "rsa k (jt_signed t) (jt_signature t)" "check_claims now config (jt_payload t) = Pass"
      using assms header alg kid by (auto simp: verify_oidc_token_def t Let_def w Some split: if_splits)
    moreover have "known_keys s [server1, server2] ?uri (jw_keys w)"
      using first by (auto simp: known_keys_def)
    ultimately show ?thesis using falsy_key[OF Some] t alg that by blast
  next
    case None
    obtain w2 s2 where w2: "await_jwks now server2 ?uri (s1\<lparr>js_cache := None\<rparr>) = (Some w2, s2)"
      using assms header alg kid
      by (cases "await_jwks now server2 ?uri (s1\<lparr>js_cache := None\<rparr>)";
          cases "fst (await_jwks now server2 ?uri (s1\<lparr>js_cache := None\<rparr>))")
        (auto simp: verify_oidc_token_def t Let_def w None)
    obtain k where k: "key_for w2 ?kid = Some k"
      using assms header alg kid by (cases "key_for w2 ?kid") (auto simp: verify_oidc_token_def t Let_def w None w2)
    have "rsa k (jt_signed t) (jt_signature t)" "check_claims now config (jt_payload t) = Pass"
      using assms header alg kid by (auto simp: verify_oidc_token_def t Let_def w None w2 k split: if_splits)
    moreover have "known_keys s [server1, server2] ?uri (jw_keys w2)"
      using known_keys_later await_jwks_known[OF w2] first by blast
    ultimately show ?thesis using falsy_key[OF k] t alg that by blast
  qed
qed


definition sample_token :: string where
  "sample_token = build_token (JObj [(''alg'', JStr ''RS256''), (''kid'', JStr ''k1'')])
     (JObj [(''exp'', JNum 200), (''iss'', JStr ''me''), (''aud'', JStr ''us'')]) ''sig''"

definition sample_oidc :: oidc_config where
  "sample_oidc = \<lparr>oc_audience = ''us'', oc_issuers = [''me''], oc_service_account = None, oc_jwks_uri = ''keys''\<rparr>"

definition sample_server :: "string \<Rightarrow> (string, nat) jsmap option" where
  "sample_server uri = (if uri = ''keys'' then Some [(''k1'', 7)] else None)"

definition no_jwks :: "nat jwks_state" where
  "no_jwks = \<lparr>js_cache = None, js_in_flight = None\<rparr>"

lemmas oidc_eval = Let_def verify_oidc_token_def parse_jwt_build build_token_def[symmetric] object_read_def falsy_def
  await_jwks_def get_jwks_def settle_fetch_def key_for_def check_claims_def claim_in_future_def check_audience_def
  clock_skew_def sample_oidc_def sample_server_def no_jwks_def object_inherited_def object_members_def

lemma sample_token_passes:
  "fst (verify_oidc_token (\<lambda>k m g. k = 7 \<and> g = ''sig'') sample_server sample_server 100000 sample_token sample_oidc no_jwks) = Pass"
  by (simp add: sample_token_def oidc_eval)


text \<open>A fetch in flight is shared without looking at its URI: a check for one key server waits for, and
  then uses, the keys of another, and a token for the second provider passes although only a key
  of the first signed it.\<close>

lemma fetch_shared_across_uris:
  "let other = no_jwks\<lparr>js_in_flight := Some ''keys''\<rparr>; config = sample_oidc\<lparr>oc_jwks_uri := ''elsewhere''\<rparr> in
   fst (get_jwks 100000 ''elsewhere'' other) = Fetching ''keys'' \<and>
   fst (verify_oidc_token (\<lambda>k m g. k = 7 \<and> g = ''sig'') sample_server sample_server 100000 sample_token config other) = Pass"
  by (simp add: sample_token_def oidc_eval)

text \<open>A token whose header decodes to \<open>null\<close> makes the check throw, before any signature is looked at.\<close>

lemma null_header_throws:
  "fst (verify_oidc_token rsa server1 server2 now (build_token JNull JNull ''x'') config s) = Throw"
  by (simp add: verify_oidc_token_def parse_jwt_build)

end
