(* ===== verification/Secrets.thy ===== *)
theory Secrets
  imports Prelude
begin

text \<open>
  The secret manager (\<open>secrets/manager.ts\<close>) over pluggable providers (\<open>secrets/registry.ts\<close>,
  \<open>secrets/types.ts\<close>, \<open>env.provider.ts\<close>): resolution at startup, reads, refresh of groups that share
  a provider and a lifetime, and the failure count that ends the process. What a provider's
  backend answers is an argument of every step: \<open>None\<close> when it throws.
\<close>

section \<open>Bindings and state\<close>

record secret_binding =
  sb_key :: string
  sb_provider :: string
  sb_reference :: string
  sb_ttl :: "nat option"
  sb_required :: bool

record resolved_secret =
  sv_value :: string
  sv_resolved_at :: millis
  sv_expires_at :: "millis option"
  sv_source :: string

record manager =
  mg_bindings :: "secret_binding list"
  mg_secrets :: "(string, resolved_secret) jsmap"
  mg_failures :: "(string, nat) jsmap"
  mg_exited :: bool

datatype secret_error =
    Required_unresolved string string
  | Unknown_provider string
  | Provider_threw string
  | Secret_not_found string
  | Not_declared string

type_synonym answers = "string \<Rightarrow> secret_binding list \<Rightarrow> (string, string) jsmap option"

definition new_manager :: "secret_binding list \<Rightarrow> manager" where
  "new_manager bs = \<lparr>mg_bindings = bs, mg_secrets = [], mg_failures = [], mg_exited = False\<rparr>"

definition max_refresh_failures :: nat where "max_refresh_failures = 3"

text \<open>The environment provider.\<close>

definition env_resolve :: "(string \<Rightarrow> string option) \<Rightarrow> secret_binding list \<Rightarrow> (string, string) jsmap" where
  "env_resolve env bs =
     fold (\<lambda>b m. case env (sb_reference b) of Some v \<Rightarrow> AList.update (sb_key b) v m | None \<Rightarrow> m) bs []"

section \<open>Startup\<close>

definition expires :: "millis \<Rightarrow> secret_binding \<Rightarrow> millis option" where
  "expires now b =
     (case sb_ttl b of None \<Rightarrow> None | Some t \<Rightarrow> if t = 0 then None else Some (now + int t * 1000))"

definition build_resolved :: "millis \<Rightarrow> secret_binding \<Rightarrow> string \<Rightarrow> string \<Rightarrow> resolved_secret" where
  "build_resolved now b v source =
     \<lparr>sv_value = v, sv_resolved_at = now, sv_expires_at = expires now b, sv_source = source\<rparr>"

definition push_group :: "string \<Rightarrow> 'a \<Rightarrow> (string, 'a list) jsmap \<Rightarrow> (string, 'a list) jsmap" where
  "push_group k x m = AList.update k ((case map_of m k of Some xs \<Rightarrow> xs | None \<Rightarrow> []) @ [x]) m"

definition group_bindings_by_provider :: "secret_binding list \<Rightarrow> (string, secret_binding list) jsmap" where
  "group_bindings_by_provider bs = fold (\<lambda>b. push_group (sb_provider b) b) bs []"

definition absorb_binding ::
  "millis \<Rightarrow> string \<Rightarrow> (string, string) jsmap \<Rightarrow> secret_binding \<Rightarrow> secret_error option \<times> manager \<Rightarrow>
   secret_error option \<times> manager" where
  "absorb_binding now provider answer b s =
     (case map_of answer (sb_key b) of
        Some v \<Rightarrow> (fst s, (snd s)\<lparr>mg_secrets := AList.update (sb_key b) (build_resolved now b v provider) (mg_secrets (snd s))\<rparr>)
      | None \<Rightarrow> (if sb_required b \<and> fst s = None then Some (Required_unresolved (sb_key b) provider) else fst s, snd s))"

text \<open>One provider after the other; an unknown provider or one that throws ends the loop.\<close>

fun resolve_groups ::
  "millis \<Rightarrow> string list \<Rightarrow> answers \<Rightarrow> (string, secret_binding list) jsmap \<Rightarrow> secret_error option \<times> manager \<Rightarrow>
   secret_error option \<times> manager" where
  "resolve_groups now registered ask [] s = s"
| "resolve_groups now registered ask ((p, bs) # rest) s =
     (if p \<notin> set registered then (Some (Unknown_provider p), snd s)
      else (case ask p bs of
              None \<Rightarrow> (Some (Provider_threw p), snd s)
            | Some answer \<Rightarrow> resolve_groups now registered ask rest (fold (absorb_binding now p answer) bs s)))"

definition initialize_manager ::
  "millis \<Rightarrow> string list \<Rightarrow> answers \<Rightarrow> manager \<Rightarrow> secret_error option \<times> manager" where
  "initialize_manager now registered ask m =
     resolve_groups now registered ask (group_bindings_by_provider (mg_bindings m)) (None, m)"

section \<open>Reads\<close>

definition get_secret :: "manager \<Rightarrow> string \<Rightarrow> secret_error + string" where
  "get_secret m k =
     (case map_of (mg_secrets m) k of Some r \<Rightarrow> Inr (sv_value r) | None \<Rightarrow> Inl (Secret_not_found k))"

definition has_secret :: "manager \<Rightarrow> string \<Rightarrow> bool" where
  "has_secret m k \<longleftrightarrow> k \<in> fst ` set (mg_secrets m)"

definition is_healthy :: "manager \<Rightarrow> bool" where
  "is_healthy m \<longleftrightarrow> list_all (\<lambda>b. sb_required b \<longrightarrow> has_secret m (sb_key b)) (mg_bindings m)"

section \<open>Refresh\<close>

definition update_secret :: "millis \<Rightarrow> string \<Rightarrow> string \<Rightarrow> millis option \<Rightarrow> manager \<Rightarrow> secret_error + manager" where
  "update_secret now k v expiry m =
     (case map_of (mg_secrets m) k of
        None \<Rightarrow> Inl (Not_declared k)
      | Some old \<Rightarrow> Inr (m\<lparr>mg_secrets := AList.update k \<lparr>sv_value = v, sv_resolved_at = now,
                          sv_expires_at = expiry, sv_source = sv_source old\<rparr> (mg_secrets m)\<rparr>))"

definition group_key :: "secret_binding \<Rightarrow> nat \<Rightarrow> string" where
  "group_key b t = sb_provider b @ '':'' @ string_of_nat t"

definition refresh_groups :: "secret_binding list \<Rightarrow> (string, secret_binding list) jsmap" where
  "refresh_groups bs = fold (\<lambda>b m. case sb_ttl b of
     None \<Rightarrow> m | Some t \<Rightarrow> if t = 0 then m else push_group (group_key b t) b m) bs []"

definition refresh_interval :: "nat \<Rightarrow> nat" where
  "refresh_interval t = max (t * 1000 - 60000) 30000"

text \<open>The loop of \<open>refreshGroup\<close>: a throw keeps the updates made before it.\<close>

fun apply_refresh ::
  "millis \<Rightarrow> (string, string) jsmap \<Rightarrow> secret_binding list \<Rightarrow> manager \<Rightarrow> secret_error option \<times> manager" where
  "apply_refresh now answer [] m = (None, m)"
| "apply_refresh now answer (b # bs) m =
     (case map_of answer (sb_key b) of
        None \<Rightarrow> apply_refresh now answer bs m
      | Some v \<Rightarrow>
          (case update_secret now (sb_key b) v (expires now b) m of
             Inl e \<Rightarrow> (Some e, m)
           | Inr m' \<Rightarrow> apply_refresh now answer bs m'))"

definition refresh_failed :: "string \<Rightarrow> secret_binding list \<Rightarrow> manager \<Rightarrow> manager" where
  "refresh_failed g bs m =
     (let failures = (case map_of (mg_failures m) g of Some n \<Rightarrow> n | None \<Rightarrow> 0) + 1;
          m' = m\<lparr>mg_failures := AList.update g failures (mg_failures m)\<rparr>
      in if max_refresh_failures \<le> failures \<and> list_ex sb_required bs then m'\<lparr>mg_exited := True\<rparr> else m')"

definition refresh_group ::
  "millis \<Rightarrow> string list \<Rightarrow> answers \<Rightarrow> string \<Rightarrow> secret_binding list \<Rightarrow> manager \<Rightarrow> manager" where
  "refresh_group now registered ask g bs m =
     (let p = sb_provider (hd bs) in
      if p \<notin> set registered then refresh_failed g bs m
      else (case ask p bs of
              None \<Rightarrow> refresh_failed g bs m
            | Some answer \<Rightarrow>
                (case apply_refresh now answer bs m of
                   (Some e, m') \<Rightarrow> refresh_failed g bs m'
                 | (None, m') \<Rightarrow> m'\<lparr>mg_failures := AList.delete g (mg_failures m')\<rparr>)))"

text \<open>A refresh tick of the group number \<open>n\<close>, after the process has not exited.\<close>

record tick =
  tk_now :: millis
  tk_group :: nat
  tk_ask :: answers

definition tick_step :: "string list \<Rightarrow> tick \<Rightarrow> manager \<Rightarrow> manager" where
  "tick_step registered t m =
     (let gs = refresh_groups (mg_bindings m) in
      if mg_exited m \<or> tk_group t \<ge> length gs then m
      else refresh_group (tk_now t) registered (tk_ask t) (fst (gs ! tk_group t)) (snd (gs ! tk_group t)) m)"

text \<open>The startup check that no provider names a secret the manager does not hold.\<close>

definition missing_env_secrets :: "(string \<times> string list option) list \<Rightarrow> manager \<Rightarrow> (string \<times> string) list" where
  "missing_env_secrets providers m =
     concat (map (\<lambda>(p, keys). map (Pair p) (filter (\<lambda>k. \<not> has_secret m k)
       (case keys of Some ks \<Rightarrow> ks | None \<Rightarrow> []))) providers)"

section \<open>Required secrets stay readable\<close>

lemma has_secret_get: "has_secret m k \<longleftrightarrow> (\<exists>v. get_secret m k = Inr v)"
proof (cases "map_of (mg_secrets m) k")
  case None
  then show ?thesis by (simp add: has_secret_def get_secret_def) (simp add: map_of_eq_None_iff)
next
  case (Some r)
  then show ?thesis
    using map_of_SomeD[OF Some] by (auto simp: has_secret_def get_secret_def intro: rev_image_eqI)
qed

definition keeps_secrets :: "manager \<Rightarrow> manager \<Rightarrow> bool" where
  "keeps_secrets m m' \<longleftrightarrow> mg_bindings m' = mg_bindings m \<and> fst ` set (mg_secrets m) \<subseteq> fst ` set (mg_secrets m')"

lemma keeps_refl [simp]: "keeps_secrets m m"
  by (simp add: keeps_secrets_def)

lemma keeps_trans: "keeps_secrets a b \<Longrightarrow> keeps_secrets b c \<Longrightarrow> keeps_secrets a c"
  by (auto simp: keeps_secrets_def)

lemma keeps_healthy: "keeps_secrets m m' \<Longrightarrow> is_healthy m \<Longrightarrow> is_healthy m'"
  by (auto simp: keeps_secrets_def is_healthy_def list_all_iff has_secret_def)

lemma absorb_keeps: "keeps_secrets (snd s) (snd (absorb_binding now p answer b s))"
  by (auto simp: absorb_binding_def keeps_secrets_def keys_alist_update split: option.split)

lemma absorb_all_keeps: "keeps_secrets (snd s) (snd (fold (absorb_binding now p answer) bs s))"
proof (induction bs arbitrary: s)
  case (Cons b bs)
  show ?case unfolding fold_simps by (rule keeps_trans[OF absorb_keeps Cons.IH])
qed simp

lemma absorb_error_sticks: "fst s \<noteq> None \<Longrightarrow> fst (fold (absorb_binding now p answer) bs s) \<noteq> None"
proof (induction bs arbitrary: s)
  case (Cons b bs)
  have "fst (absorb_binding now p answer b s) \<noteq> None"
    using Cons.prems by (simp add: absorb_binding_def split: option.split)
  then show ?case unfolding fold_simps by (rule Cons.IH)
qed simp

lemma absorb_complete:
  assumes "fst (fold (absorb_binding now p answer) bs s) = None" and "b \<in> set bs" and "sb_required b"
  shows "has_secret (snd (fold (absorb_binding now p answer) bs s)) (sb_key b)"
  using assms
proof (induction bs arbitrary: s)
  case (Cons c bs)
  let ?s = "absorb_binding now p answer c s"
  show ?case
  proof (cases "b = c")
    case True
    have "fst ?s = None" using absorb_error_sticks[of ?s now p answer bs] Cons.prems(1) unfolding fold_simps by blast
    then have "has_secret (snd ?s) (sb_key b)"
      using True Cons.prems(3) by (auto simp: absorb_binding_def has_secret_def keys_alist_update split: option.splits if_splits)
    then show ?thesis
      using absorb_all_keeps[of ?s now p answer bs] by (auto simp: keeps_secrets_def has_secret_def)
  qed (use Cons in simp)
qed simp

lemma resolve_groups_error: "fst s \<noteq> None \<Longrightarrow> fst (resolve_groups now registered ask gs s) \<noteq> None"
proof (induction gs arbitrary: s)
  case (Cons g gs)
  obtain q cs where g: "g = (q, cs)" by (cases g)
  show ?case
    using Cons.IH[OF absorb_error_sticks[OF Cons.prems]] by (simp add: g split: option.split del: not_None_eq)
qed simp

lemma resolve_groups_keeps: "keeps_secrets (snd s) (snd (resolve_groups now registered ask gs s))"
proof (induction gs arbitrary: s)
  case (Cons g gs)
  obtain q cs where g: "g = (q, cs)" by (cases g)
  show ?case
    using keeps_trans[OF absorb_all_keeps Cons.IH] by (simp add: g split: option.split)
qed simp

lemma resolve_groups_complete:
  assumes "fst (resolve_groups now registered ask gs s) = None"
    and "(p, bs) \<in> set gs" and "b \<in> set bs" and "sb_required b"
  shows "has_secret (snd (resolve_groups now registered ask gs s)) (sb_key b)"
  using assms
proof (induction gs arbitrary: s)
  case (Cons g gs)
  obtain q cs where g: "g = (q, cs)" by (cases g)
  obtain answer where answer: "ask q cs = Some answer" "q \<in> set registered"
    using Cons.prems(1) by (auto simp: g split: option.splits if_splits)
  let ?s = "fold (absorb_binding now q answer) cs s"
  have rest: "fst (resolve_groups now registered ask gs ?s) = None" using Cons.prems(1) by (simp add: g answer)
  show ?case
  proof (cases "(p, bs) = (q, cs)")
    case True
    have "fst ?s = None" using resolve_groups_error rest by blast
    then have "has_secret (snd ?s) (sb_key b)" using absorb_complete Cons.prems(3,4) True by blast
    then show ?thesis
      using resolve_groups_keeps[of ?s now registered ask gs]
      by (auto simp: g answer keeps_secrets_def has_secret_def)
  next
    case False
    then show ?thesis using Cons.IH[OF rest] Cons.prems by (auto simp: g answer)
  qed
qed simp

lemma push_group_distinct: "distinct (map fst m) \<Longrightarrow> distinct (map fst (push_group k x m))"
  by (simp add: push_group_def distinct_update)

lemma push_group_mem: "\<exists>bs. (k, bs) \<in> set (push_group k x m) \<and> x \<in> set bs"
  by (rule exI[of _ "(case map_of m k of Some xs \<Rightarrow> xs | None \<Rightarrow> []) @ [x]"])
    (auto simp: push_group_def intro!: map_of_SomeD)

lemma push_group_keeps:
  "distinct (map fst m) \<Longrightarrow> (\<exists>bs. (q, bs) \<in> set m \<and> y \<in> set bs) \<Longrightarrow> \<exists>bs. (q, bs) \<in> set (push_group k x m) \<and> y \<in> set bs"
proof -
  assume "distinct (map fst m)" and "\<exists>bs. (q, bs) \<in> set m \<and> y \<in> set bs"
  then obtain bs where bs: "map_of m q = Some bs" "y \<in> set bs" by auto
  have "\<exists>cs. map_of (push_group k x m) q = Some cs \<and> y \<in> set cs"
    using bs by (auto simp: push_group_def)
  then show ?thesis by (auto dest: map_of_SomeD)
qed

lemma grouped:
  assumes "b \<in> set bs" shows "\<exists>cs. (sb_provider b, cs) \<in> set (group_bindings_by_provider bs) \<and> b \<in> set cs"
proof -
  have "distinct (map fst (fold (\<lambda>b. push_group (sb_provider b) b) bs [])) \<and>
      (\<forall>b \<in> set bs. \<exists>cs. (sb_provider b, cs) \<in> set (fold (\<lambda>b. push_group (sb_provider b) b) bs []) \<and> b \<in> set cs)"
    by (induction bs rule: rev_induct)
      (auto simp: push_group_mem push_group_keeps push_group_distinct)
  then show ?thesis using assms by (simp add: group_bindings_by_provider_def)
qed

lemma initialize_healthy:
  assumes "initialize_manager now registered ask (new_manager bs) = (None, m)" shows "is_healthy m \<and> mg_bindings m = bs"
proof -
  let ?r = "resolve_groups now registered ask (group_bindings_by_provider bs) (None, new_manager bs)"
  have r: "?r = (None, m)" using assms by (simp add: initialize_manager_def new_manager_def)
  have "mg_bindings m = bs"
    using resolve_groups_keeps[of "(None, new_manager bs)" now registered ask "group_bindings_by_provider bs"]
    unfolding r by (simp add: keeps_secrets_def new_manager_def)
  moreover have "has_secret m (sb_key b)" if "b \<in> set bs" "sb_required b" for b
    using grouped[OF that(1)] resolve_groups_complete[of now registered ask "group_bindings_by_provider bs" "(None, new_manager bs)"] that r
    by auto
  ultimately show ?thesis by (auto simp: is_healthy_def list_all_iff)
qed

lemma update_secret_keeps: "update_secret now k v expiry m = Inr m' \<Longrightarrow> keeps_secrets m m'"
  by (clarsimp simp: update_secret_def keeps_secrets_def keys_alist_update subset_insertI split: option.splits)

lemma apply_refresh_keeps: "apply_refresh now answer bs m = (e, m') \<Longrightarrow> keeps_secrets m m'"
proof (induction bs arbitrary: m)
  case (Cons b bs)
  then show ?case by (auto split: option.splits sum.splits intro: keeps_trans[OF update_secret_keeps])
qed simp

lemma refresh_failed_keeps: "keeps_secrets m m' \<Longrightarrow> keeps_secrets m (refresh_failed g bs m')"
  by (auto simp: refresh_failed_def keeps_secrets_def Let_def)

lemma tick_keeps: "keeps_secrets m (tick_step registered t m)"
proof -
  have "keeps_secrets m (refresh_group now registered ask g bs m)" for now ask g bs
  proof (cases "ask (sb_provider (hd bs)) bs")
    case (Some answer)
    obtain e m' where r: "apply_refresh now answer bs m = (e, m')" by fastforce
    have "keeps_secrets m (m'\<lparr>mg_failures := f\<rparr>)" for f
      using apply_refresh_keeps[OF r] by (simp add: keeps_secrets_def)
    then show ?thesis
      using apply_refresh_keeps[OF r] by (simp add: refresh_group_def Let_def r Some refresh_failed_keeps split: option.split)
  qed (simp add: refresh_group_def Let_def refresh_failed_keeps)
  then show ?thesis by (simp add: tick_step_def Let_def)
qed

text \<open>C31: Once the manager has started, a required secret never becomes unreadable: whatever the
  refreshes of any group bring, fail or throw, the manager stays healthy and every required key
  can be read.\<close>

theorem required_secrets_stay:
  assumes "initialize_manager now registered ask (new_manager bs) = (None, m)"
    and "m' = fold (tick_step registered) ticks m" and "b \<in> set bs" and "sb_required b"
  shows "is_healthy m' \<and> (\<exists>v. get_secret m' (sb_key b) = Inr v)"
proof -
  have "keeps_secrets m (fold (tick_step registered) ticks m)" for m
  proof (induction ticks arbitrary: m)
    case (Cons t ticks)
    show ?case unfolding fold_simps by (rule keeps_trans[OF tick_keeps Cons.IH])
  qed simp
  then have keeps: "keeps_secrets m m'" by (simp add: assms(2))
  have "is_healthy m'" "mg_bindings m' = bs"
    using keeps_healthy[OF keeps] keeps initialize_healthy[OF assms(1)] by (simp_all add: keeps_secrets_def)
  then show ?thesis
    using assms(3,4) by (simp add: is_healthy_def list_all_iff has_secret_get)
qed

definition sample_bindings :: "secret_binding list" where
  "sample_bindings =
     [\<lparr>sb_key = ''db'', sb_provider = ''env'', sb_reference = ''DB'', sb_ttl = Some 60, sb_required = True\<rparr>,
      \<lparr>sb_key = ''extra'', sb_provider = ''env'', sb_reference = ''EXTRA'', sb_ttl = Some 60, sb_required = False\<rparr>]"

definition answer_with :: "(string, string) jsmap \<Rightarrow> answers" where
  "answer_with env p bs = Some (env_resolve (map_of env) bs)"

definition sample_manager :: manager where
  "sample_manager = snd (initialize_manager 0 [''env''] (answer_with [(''DB'', ''x'')]) (new_manager sample_bindings))"

lemma sample_initialized:
  "initialize_manager 0 [''env''] (answer_with [(''DB'', ''x'')]) (new_manager sample_bindings) = (None, sample_manager)"
  unfolding sample_manager_def by (rule prod_eqI, code_simp, simp)

theorem required_secrets_stay_witness:
  "\<exists>v. get_secret (fold (tick_step [''env'']) [\<lparr>tk_now = 1, tk_group = 0, tk_ask = \<lambda>p bs. None\<rparr>] sample_manager) ''db'' = Inr v"
  using required_secrets_stay[OF sample_initialized refl, where b = "hd sample_bindings"
      and ticks = "[\<lparr>tk_now = 1, tk_group = 0, tk_ask = \<lambda>p bs. None\<rparr>]"]
  by (simp add: sample_bindings_def)

text \<open>An optional secret that was missing at startup and appears later breaks its group: storing it
  throws, the refresh counts as failed although the provider answered, and after the third one
  the process exits if the group holds a required secret.\<close>

lemma late_optional_secret_exits:
  "mg_exited (fold (tick_step [''env''])
     (replicate 3 \<lparr>tk_now = 1, tk_group = 0, tk_ask = answer_with [(''DB'', ''y''), (''EXTRA'', ''z'')]\<rparr>) sample_manager)"
  by code_simp

text \<open>Health does not look at the expiry of a secret.\<close>

lemma expired_is_healthy:
  "let m = snd (initialize_manager 0 [''env''] (answer_with [(''DB'', ''x'')]) (new_manager (take 1 sample_bindings)))
   in is_healthy m \<and> map_of (mg_secrets m) ''db'' = Some \<lparr>sv_value = ''x'', sv_resolved_at = 0,
        sv_expires_at = Some 60000, sv_source = ''env''\<rparr>"
  by code_simp

end
