(* ===== verification/Webhook.thy ===== *)
theory Webhook
  imports Signature Secrets
begin

text \<open>
  The webhook route (\<open>controllers/webhook.controller.ts\<close>): signature first, then the Pub/Sub
  envelope (\<open>strategies/transport/pubsub-envelope.ts\<close>), Slack's URL challenge, the sender gate of
  builder dispatches (\<open>system-agents/builder/sender-gate.ts\<close>, \<open>payloads.ts\<close>) and the ingest
  pipeline; and the payload mapping of the Slack socket transport (\<open>event-mapper.ts\<close>,
  \<open>slack-payload.ts\<close>). An exception that leaves the asynchronous handler is the result \<open>Crashed\<close>.
\<close>

section \<open>Configuration\<close>

datatype signature_name = Websub | Github | Bearer | Slack_signature | Oidc

record webhook_provider =
  wp_provider :: provider
  wp_signature :: signature_name
  wp_hmac_secret :: "string option"
  wp_hmac_key :: "string option"
  wp_pubsub :: bool
  wp_oidc :: "oidc_section option"

fun header_name :: "signature_name \<Rightarrow> string" where
  "header_name Websub = ''x-hub-signature''"
| "header_name Github = ''x-hub-signature-256''"
| "header_name Bearer = ''authorization''"
| "header_name Slack_signature = ''x-slack-signature''"
| "header_name Oidc = ''authorization''"

fun additional_headers :: "signature_name \<Rightarrow> string list" where
  "additional_headers Slack_signature = [''x-slack-request-timestamp'']"
| "additional_headers _ = []"

text \<open>Cryptography, the key server and zod's formats.\<close>

record 'k crypto =
  cr_mac :: hmac
  cr_rsa :: "'k \<Rightarrow> string \<Rightarrow> string \<Rightarrow> bool"
  cr_server :: "string \<Rightarrow> (string, 'k) jsmap option"
  cr_retry :: "string \<Rightarrow> (string, 'k) jsmap option"
  cr_headers_hash :: "(string, header_value) jsmap \<Rightarrow> string"
  cr_email :: "string \<Rightarrow> bool"
  cr_url :: "string \<Rightarrow> bool"

definition resolve_hmac_secret :: "manager \<Rightarrow> webhook_provider \<Rightarrow> string option" where
  "resolve_hmac_secret mgr p =
     (case wp_hmac_key p of
        Some k \<Rightarrow> (case get_secret mgr k of Inr v \<Rightarrow> Some v | Inl e \<Rightarrow> None)
      | None \<Rightarrow> wp_hmac_secret p)"

section \<open>Verification\<close>

text \<open>A request: its headers, and the raw body when the body parser delivered a buffer.\<close>

record webhook_request =
  wr_headers :: "(string, header_value) jsmap"
  wr_body :: "string option"
  wr_now :: millis
  wr_trace_id :: string
  wr_job :: "string option option"

definition header_of :: "webhook_request \<Rightarrow> string \<Rightarrow> string option" where
  "header_of r name = get_string_header \<lparr>req_headers = wr_headers r, req_params = [], req_query = []\<rparr> name"

definition collect_additional_headers :: "webhook_request \<Rightarrow> signature_name \<Rightarrow> (string, string) jsmap" where
  "collect_additional_headers r strategy =
     List.map_filter (\<lambda>n. map_option (Pair n) (header_of r n)) (additional_headers strategy)"

definition validate_with ::
  "'k crypto \<Rightarrow> webhook_provider \<Rightarrow> millis \<Rightarrow> string \<Rightarrow> string \<Rightarrow> string \<Rightarrow> (string, string) jsmap \<Rightarrow> 'k jwks_state \<Rightarrow>
   verdict \<times> 'k jwks_state" where
  "validate_with c p now body signature secret headers s =
     (case wp_signature p of
        Websub \<Rightarrow> (if validate_hmac_sha256 (cr_mac c) body signature secret then Pass else Refuse, s)
      | Github \<Rightarrow> (if validate_hmac_sha256 (cr_mac c) body signature secret then Pass else Refuse, s)
      | Bearer \<Rightarrow> (if validate_bearer signature secret then Pass else Refuse, s)
      | Slack_signature \<Rightarrow> (if validate_slack (cr_mac c) now body signature secret headers then Pass else Refuse, s)
      | Oidc \<Rightarrow> validate_oidc (cr_rsa c) (cr_server c) (cr_retry c) now signature (wp_oidc p) s)"

text \<open>What \<open>verifyRequestSignature\<close> ends with: the raw body, a response, or an exception.\<close>

datatype checked = Body string | Refused nat "reject_reason option" | Threw

definition verify_request_signature ::
  "'k crypto \<Rightarrow> manager \<Rightarrow> webhook_provider \<Rightarrow> webhook_request \<Rightarrow> 'k jwks_state \<Rightarrow> checked \<times> 'k jwks_state" where
  "verify_request_signature c mgr p r s =
     (case header_of r (header_name (wp_signature p)) of
        None \<Rightarrow> (Refused 401 (Some Missing_signature), s)
      | Some signature \<Rightarrow>
          (let secret = resolve_hmac_secret mgr p in
           if wp_signature p \<noteq> Oidc \<and> secret = None then (Refused 500 None, s)
           else (case wr_body r of
                   None \<Rightarrow> (Refused 500 None, s)
                 | Some body \<Rightarrow>
                     (case validate_with c p (wr_now r) body signature (case secret of Some x \<Rightarrow> x | None \<Rightarrow> [])
                             (collect_additional_headers r (wp_signature p)) s of
                        (Pass, s') \<Rightarrow> (Body body, s')
                      | (Refuse, s') \<Rightarrow> (Refused 401 (Some Invalid_signature), s')
                      | (Throw, s') \<Rightarrow> (Threw, s')))))"

section \<open>Payloads\<close>

definition try_parse_json :: "string \<Rightarrow> json" where
  "try_parse_json raw = (case json_parse raw of Some v \<Rightarrow> v | None \<Rightarrow> JObj [])"

record pubsub_result =
  pe_payload :: json
  pe_unwrapped :: bool
  pe_subscription :: "string option"
  pe_message_id :: "string option"

definition own_string :: "props \<Rightarrow> string \<Rightarrow> string option" where
  "own_string ps k = (case map_of ps k of Some (JStr s) \<Rightarrow> Some s | _ \<Rightarrow> None)"

definition not_unwrapped :: "json \<Rightarrow> pubsub_result" where
  "not_unwrapped v = \<lparr>pe_payload = v, pe_unwrapped = False, pe_subscription = None, pe_message_id = None\<rparr>"

definition decode_pubsub_envelope :: "json \<Rightarrow> pubsub_result" where
  "decode_pubsub_envelope raw =
     (case raw of
        JObj ps \<Rightarrow>
          (case map_of ps ''message'' of
             Some (JObj m) \<Rightarrow>
               (case map_of m ''data'' of
                  Some (JStr d) \<Rightarrow>
                    \<lparr>pe_payload = (case json_parse (decode_base64 d) of Some v \<Rightarrow> v | None \<Rightarrow> JStr (decode_base64 d)),
                      pe_unwrapped = True, pe_subscription = own_string ps ''subscription'',
                      pe_message_id = own_string m ''messageId''\<rparr>
                | _ \<Rightarrow> not_unwrapped raw)
           | _ \<Rightarrow> not_unwrapped raw)
      | _ \<Rightarrow> not_unwrapped raw)"

definition slack_challenge :: "json \<Rightarrow> string option" where
  "slack_challenge v =
     (case v of
        JObj ps \<Rightarrow> if map_of ps ''type'' = Some (JStr ''url_verification'') then own_string ps ''challenge'' else None
      | _ \<Rightarrow> None)"

text \<open>The Slack socket transport unwraps its envelope and adds the channel's name.\<close>

definition map_socket_mode_envelope :: "json \<Rightarrow> json" where
  "map_socket_mode_envelope v =
     (case v of JObj ps \<Rightarrow> (case map_of ps ''payload'' of Some (JObj qs) \<Rightarrow> JObj qs | _ \<Rightarrow> v) | _ \<Rightarrow> v)"

definition build_channel_map :: "(string, string) jsmap option \<Rightarrow> (string, string) jsmap" where
  "build_channel_map m = (case m of None \<Rightarrow> [] | Some ns \<Rightarrow> fold (\<lambda>(name, i). AList.update i name) ns [])"

definition enrich_slack_payload :: "json \<Rightarrow> (string, string) jsmap \<Rightarrow> json" where
  "enrich_slack_payload v channels =
     (if channels = [] then v
      else (case v of
              JObj ps \<Rightarrow>
                (case map_of ps ''event'' of
                   Some (JObj evt) \<Rightarrow>
                     (case read_string (object_read evt ''channel'') of
                        None \<Rightarrow> v
                      | Some i \<Rightarrow>
                          (case map_of channels i of
                             None \<Rightarrow> v
                           | Some name \<Rightarrow>
                               JObj (AList.update ''event'' (JObj (AList.update ''channel_name'' (JStr name) evt)) ps)))
                 | _ \<Rightarrow> v)
            | _ \<Rightarrow> v))"

section \<open>The sender gate\<close>

definition has_string :: "props \<Rightarrow> string \<Rightarrow> bool" where
  "has_string ps k \<longleftrightarrow> required_string ps k \<noteq> None"

text \<open>The discriminated union on \<open>channel\<close>; unknown members are ignored inside it.\<close>

definition valid_reply_context :: "'k crypto \<Rightarrow> json option \<Rightarrow> bool" where
  "valid_reply_context c v =
     (case v of
        Some (JObj ps) \<Rightarrow>
          (case own_string ps ''senderEmail'' of Some e \<Rightarrow> cr_email c e | None \<Rightarrow> False) \<and>
          has_string ps ''originalRequestText'' \<and>
          (if own_string ps ''channel'' = Some ''slack'' then has_string ps ''threadTs'' \<and> has_string ps ''channelId''
           else own_string ps ''channel'' = Some ''email'' \<and> has_string ps ''messageId'' \<and>
             (map_of ps ''threadId'' = None \<or> has_string ps ''threadId''))
      | _ \<Rightarrow> False)"

definition valid_resume :: "'k crypto \<Rightarrow> json option \<Rightarrow> bool" where
  "valid_resume c v =
     (case v of
        None \<Rightarrow> True
      | Some (JObj ps) \<Rightarrow> (case own_string ps ''prUrl'' of Some u \<Rightarrow> cr_url c u | None \<Rightarrow> False) \<and> has_string ps ''answer''
      | Some _ \<Rightarrow> False)"

text \<open>The dispatch payload, as agent name and sender; strict, so other members are refused.\<close>

definition parse_dispatch :: "'k crypto \<Rightarrow> json \<Rightarrow> (string \<times> string) option" where
  "parse_dispatch c v =
     (case v of
        JObj ps \<Rightarrow>
          (case (required_string ps ''agentName'', own_string ps ''senderEmail'') of
             (Some a, Some e) \<Rightarrow>
               if has_string ps ''request'' \<and> cr_email c e \<and> valid_reply_context c (map_of ps ''replyContext'') \<and>
                  valid_resume c (map_of ps ''resume'') \<and>
                  set (map fst ps) \<subseteq> set [''agentName'', ''request'', ''replyContext'', ''senderEmail'', ''resume'']
               then Some (a, e) else None
           | _ \<Rightarrow> None)
      | _ \<Rightarrow> None)"

text \<open>An agent with the operator allowlist of its entry.\<close>

type_synonym listed_agent = "agent \<times> string list option"

definition sender_gate :: "'k crypto \<Rightarrow> json \<Rightarrow> listed_agent list \<Rightarrow> nat option" where
  "sender_gate c payload agents =
     (case parse_dispatch c payload of
        None \<Rightarrow> Some 400
      | Some (a, e) \<Rightarrow>
          (case find (\<lambda>x. agent_name (fst x) = a) agents of
             None \<Rightarrow> Some 403
           | Some x \<Rightarrow>
               (case snd x of
                  None \<Rightarrow> None
                | Some allowed \<Rightarrow> if e \<in> set allowed then None else Some 403)))"

section \<open>The handler\<close>

datatype webhook_result = Answered nat | Crashed

record 'k webhook_state =
  ws_ingest :: ingest_state
  ws_jwks :: "'k jwks_state"

definition ws_publish :: "clawndom_event \<Rightarrow> 'k webhook_state \<Rightarrow> 'k webhook_state" where
  "ws_publish e s = s\<lparr>ws_ingest := (ws_ingest s)\<lparr>st_bus := publish e (st_bus (ws_ingest s))\<rparr>\<rparr>"

definition rejected_event :: "webhook_provider \<Rightarrow> webhook_request \<Rightarrow> reject_reason \<Rightarrow> clawndom_event" where
  "rejected_event p r why =
     Webhook (Webhook_rejected (wr_now r) (wr_trace_id r) (provider_name (wp_provider p)) why None None None)"

definition routed_payload :: "webhook_provider \<Rightarrow> string \<Rightarrow> json" where
  "routed_payload p body =
     (if wp_pubsub p then pe_payload (decode_pubsub_envelope (try_parse_json body)) else try_parse_json body)"

definition ingest_request_of :: "webhook_provider \<Rightarrow> listed_agent list \<Rightarrow> webhook_request \<Rightarrow> json \<Rightarrow> ingest_request" where
  "ingest_request_of p agents r payload =
     \<lparr>rq_provider = wp_provider p, rq_agents = map fst agents, rq_payload = payload, rq_trace = wr_trace_id r,
      rq_now = wr_now r, rq_added = wr_job r\<rparr>"

text \<open>From the verified body on.\<close>

definition handle_verified ::
  "'k crypto \<Rightarrow> ingest_env \<Rightarrow> webhook_provider \<Rightarrow> listed_agent list \<Rightarrow> webhook_request \<Rightarrow> string \<Rightarrow> 'k webhook_state \<Rightarrow>
   webhook_result \<times> 'k webhook_state" where
  "handle_verified c env p agents r body s =
     (let payload = routed_payload p body;
          gate = (if provider_name (wp_provider p) = ''builder-dispatch'' then sender_gate c payload agents else None)
      in if slack_challenge payload \<noteq> None then (Answered 200, s)
         else (case gate of
                 Some status \<Rightarrow> (Answered status, ws_publish (rejected_event p r Sender_gate_refusal) s)
               | None \<Rightarrow>
                   (case ingest_event env (ingest_request_of p agents r payload) (ws_ingest s) of
                      (Inl e, i) \<Rightarrow> (Crashed, s\<lparr>ws_ingest := i\<rparr>)
                    | (Inr _, i) \<Rightarrow> (Answered 202, s\<lparr>ws_ingest := i\<rparr>))))"

definition handle_webhook ::
  "'k crypto \<Rightarrow> manager \<Rightarrow> ingest_env \<Rightarrow> webhook_provider \<Rightarrow> listed_agent list \<Rightarrow> webhook_request \<Rightarrow> 'k webhook_state \<Rightarrow>
   webhook_result \<times> 'k webhook_state" where
  "handle_webhook c mgr env p agents r s =
     (let s0 = ws_publish (Webhook (Webhook_received (wr_now r) (wr_trace_id r) (provider_name (wp_provider p))
                 (cr_headers_hash c (wr_headers r)))) s
      in case verify_request_signature c mgr p r (ws_jwks s0) of
           (Threw, w) \<Rightarrow> (Crashed, s0\<lparr>ws_jwks := w\<rparr>)
         | (Refused status why, w) \<Rightarrow>
             (Answered status,
              (case why of None \<Rightarrow> id | Some x \<Rightarrow> ws_publish (rejected_event p r x)) (s0\<lparr>ws_jwks := w\<rparr>))
         | (Body body, w) \<Rightarrow> handle_verified c env p agents r body (s0\<lparr>ws_jwks := w\<rparr>))"

definition webhook_jobs :: "'k webhook_state \<Rightarrow> (string \<times> string) list" where
  "webhook_jobs s = st_jobs (ws_ingest s)"

definition webhook_marks :: "'k webhook_state \<Rightarrow> dedup_store" where
  "webhook_marks s = st_dedup (ws_ingest s)"

section \<open>Only verified requests reach the queue\<close>

lemma publish_frame_ws [simp]:
  "webhook_jobs (ws_publish e s) = webhook_jobs s" "webhook_marks (ws_publish e s) = webhook_marks s"
  "webhook_jobs (s\<lparr>ws_jwks := w\<rparr>) = webhook_jobs s" "webhook_marks (s\<lparr>ws_jwks := w\<rparr>) = webhook_marks s"
  by (simp_all add: webhook_jobs_def webhook_marks_def ws_publish_def)

lemma handle_verified_gate:
  assumes "handle_verified c env p agents r body s = (res, s')"
    and "webhook_jobs s' \<noteq> webhook_jobs s \<or> webhook_marks s' \<noteq> webhook_marks s"
  shows "slack_challenge (routed_payload p body) = None \<and>
    (provider_name (wp_provider p) = ''builder-dispatch'' \<longrightarrow> sender_gate c (routed_payload p body) agents = None)"
  using assms
  by (auto simp: handle_verified_def Let_def split: if_splits option.splits)

lemma verify_Body:
  assumes "verify_request_signature c mgr p r w = (Body body, w')"
  obtains signature where "header_of r (header_name (wp_signature p)) = Some signature" "wr_body r = Some body"
    "wp_signature p \<noteq> Oidc \<Longrightarrow> resolve_hmac_secret mgr p \<noteq> None"
    "fst (validate_with c p (wr_now r) body signature (case resolve_hmac_secret mgr p of Some x \<Rightarrow> x | None \<Rightarrow> [])
       (collect_additional_headers r (wp_signature p)) w) = Pass"
  using assms
  by (auto simp: verify_request_signature_def Let_def split: option.splits if_splits prod.splits verdict.splits)

text \<open>C1: Nothing reaches the queue unverified: a request that changes the queue or the dedup marks
  carried a signature its provider's strategy accepted over the very body it delivered, with a
  configured secret (or an OIDC token), was no Slack challenge, and, on the builder route, passed
  the sender gate.\<close>

theorem only_verified_requests_enqueue:
  assumes "handle_webhook c mgr env p agents r s = (res, s')"
    and "webhook_jobs s' \<noteq> webhook_jobs s \<or> webhook_marks s' \<noteq> webhook_marks s"
  shows "\<exists>signature body.
    header_of r (header_name (wp_signature p)) = Some signature \<and> wr_body r = Some body \<and>
    (wp_signature p \<noteq> Oidc \<longrightarrow> resolve_hmac_secret mgr p \<noteq> None) \<and>
    fst (validate_with c p (wr_now r) body signature (case resolve_hmac_secret mgr p of Some x \<Rightarrow> x | None \<Rightarrow> [])
      (collect_additional_headers r (wp_signature p)) (ws_jwks s)) = Pass \<and>
    slack_challenge (routed_payload p body) = None \<and>
    (provider_name (wp_provider p) = ''builder-dispatch'' \<longrightarrow> sender_gate c (routed_payload p body) agents = None)"
proof -
  define s0 where "s0 = ws_publish (Webhook (Webhook_received (wr_now r) (wr_trace_id r) (provider_name (wp_provider p))
                 (cr_headers_hash c (wr_headers r)))) s"
  have s0: "webhook_jobs s0 = webhook_jobs s" "webhook_marks s0 = webhook_marks s" "ws_jwks s0 = ws_jwks s"
    by (simp_all add: s0_def) (simp add: ws_publish_def)
  obtain x w where v: "verify_request_signature c mgr p r (ws_jwks s0) = (x, w)" by fastforce
  obtain body where x: "x = Body body"
    using assms s0 v by (cases x) (auto simp: handle_webhook_def s0_def[symmetric] Let_def split: option.splits)
  have run: "handle_verified c env p agents r body (s0\<lparr>ws_jwks := w\<rparr>) = (res, s')"
    using assms(1) v by (simp add: handle_webhook_def s0_def[symmetric] Let_def x)
  have gate: "slack_challenge (routed_payload p body) = None \<and>
    (provider_name (wp_provider p) = ''builder-dispatch'' \<longrightarrow> sender_gate c (routed_payload p body) agents = None)"
    using handle_verified_gate[OF run] assms(2) s0 by simp
  show ?thesis
    by (rule verify_Body[OF v[unfolded x]]) (use gate s0(3) in auto)
qed

text \<open>A bearer route with one agent that takes every event.\<close>

definition sample_webhook :: webhook_provider where
  "sample_webhook =
     \<lparr>wp_provider = rq_provider (sample_request 0 None), wp_signature = Bearer, wp_hmac_secret = Some ''k'',
      wp_hmac_key = None, wp_pubsub = False, wp_oidc = None\<rparr>"

definition catch_all :: listed_agent where
  "catch_all = (sample_agent\<lparr>agent_routing := [(''jira'', [\<lparr>rule_name = Some ''r'', rule_id = None,
       rule_condition = Some (Not (Exists ''x'')), rule_template = None, rule_session = None, rule_memory = None,
       rule_max_turns = None, rule_runner = None, rule_tools = None,
       rule_cron = None, rule_timezone = None, rule_context = None\<rparr>])]\<rparr>, None)"

definition sample_webhook_request :: "string \<Rightarrow> webhook_request" where
  "sample_webhook_request auth =
     \<lparr>wr_headers = [(''authorization'', Single auth)], wr_body = Some ''{}'', wr_now = 0, wr_trace_id = ''t'',
      wr_job = Some (Some ''7'')\<rparr>"

definition sample_crypto :: "nat crypto" where
  "sample_crypto = \<lparr>cr_mac = sample_mac, cr_rsa = (\<lambda>_ _ _. False), cr_server = (\<lambda>_. None), cr_retry = (\<lambda>_. None),
     cr_headers_hash = (\<lambda>_. ''h''), cr_email = (\<lambda>_. True), cr_url = (\<lambda>_. True)\<rparr>"

definition sample_webhook_state :: "nat webhook_state" where
  "sample_webhook_state = \<lparr>ws_ingest = sample_state, ws_jwks = no_jwks\<rparr>"

lemma sample_enqueues:
  "webhook_jobs (snd (handle_webhook sample_crypto (new_manager []) sample_env sample_webhook [catch_all]
     (sample_webhook_request ''Bearer k'') sample_webhook_state)) \<noteq> webhook_jobs sample_webhook_state"
  by code_simp

theorem only_verified_requests_enqueue_witness:
  "\<exists>signature body. header_of (sample_webhook_request ''Bearer k'') ''authorization'' = Some signature \<and>
    wr_body (sample_webhook_request ''Bearer k'') = Some body"
  using only_verified_requests_enqueue[OF surjective_pairing[of "handle_webhook sample_crypto (new_manager [])
    sample_env sample_webhook [catch_all] (sample_webhook_request ''Bearer k'') sample_webhook_state"]] sample_enqueues
  by (force simp: sample_webhook_def)

text \<open>A secret that resolves to the empty string counts as configured: a signature made with the
  empty key is then accepted.\<close>

definition empty_binding :: secret_binding where
  "empty_binding = \<lparr>sb_key = ''hook'', sb_provider = ''env'', sb_reference = ''HOOK'', sb_ttl = None, sb_required = True\<rparr>"

definition unkeyed_request :: webhook_request where
  "unkeyed_request = (sample_webhook_request [])\<lparr>wr_headers :=
     [(''x-hub-signature-256'', Single (''sha256='' @ encode_hex (sample_mac [] ''{}'')))]\<rparr>"

lemma empty_secret_accepted:
  "let m = snd (initialize_manager 0 [''env''] (answer_with [(''HOOK'', [])]) (new_manager [empty_binding]));
       p = sample_webhook\<lparr>wp_signature := Github, wp_hmac_secret := None, wp_hmac_key := Some ''hook''\<rparr>
   in resolve_hmac_secret m p = Some [] \<and>
      fst (verify_request_signature sample_crypto m p unkeyed_request no_jwks) = Body ''{}''"
  by code_simp

text \<open>A dispatch the gate cannot read is answered with 400, one it does not allow with 403.\<close>

lemma gate_tells_apart:
  "sender_gate c (JObj []) agents = Some 400"
  "sender_gate sample_crypto (JObj [(''agentName'', JStr ''nobody''), (''request'', JStr ''r''), (''senderEmail'', JStr ''a@b''),
     (''replyContext'', JObj [(''channel'', JStr ''slack''), (''threadTs'', JStr ''1''), (''channelId'', JStr ''c''),
       (''senderEmail'', JStr ''a@b''), (''originalRequestText'', JStr ''o'')])]) [] = Some 403"
  by (simp_all add: sender_gate_def parse_dispatch_def required_string_def own_string_def has_string_def
      valid_reply_context_def valid_resume_def sample_crypto_def)

text \<open>A payload that comes in Slack's socket envelope is routed as the same event over HTTP.\<close>

lemma socket_payload: "map_socket_mode_envelope (JObj [(''envelope_id'', i), (''payload'', JObj ps)]) = JObj ps"
  by (simp add: map_socket_mode_envelope_def)

end
