(* ===== verification/VectorStore.thy ===== *)
theory VectorStore
  imports EventBus Json
begin

text \<open>
  The vector stores behind the memory service (\<open>services/memory/vector-store\<close>): the interface of
  \<open>types.ts\<close> as a step function with its answers, the contract every store implements (a list of
  entries per namespace), and the in-process store of \<open>in-memory.ts\<close>. The cosine of two vectors
  is floating point in the code and a parameter here; vectors hold integers and \<open>narrow\<close> is
  their conversion to 32-bit floats.
\<close>

section \<open>The interface\<close>

type_synonym vector = "int list"
type_synonym cosine = "vector \<Rightarrow> vector \<Rightarrow> rat"

record memory_entry =
  me_id :: string
  me_namespace :: string
  me_text :: string
  me_metadata :: json
  me_vector :: vector
  me_created :: millis
  me_accessed :: millis

record search_hit =
  sh_id :: string
  sh_namespace :: string
  sh_text :: string
  sh_metadata :: json
  sh_score :: rat

text \<open>A search carries the clock read when it marks its hits as accessed.\<close>

datatype vs_op =
    Upsert_entry memory_entry
  | Search_entries millis string vector nat rat
  | Touch_entry millis string string
  | Prune_entries string millis
  | Count_entries string
  | Delete_entry string string

datatype vs_answer = Done | Failed | Hits "search_hit list" | Number nat | Removed bool

definition hit_of :: "memory_entry \<Rightarrow> rat \<Rightarrow> search_hit" where
  "hit_of e x = \<lparr>sh_id = me_id e, sh_namespace = me_namespace e, sh_text = me_text e,
     sh_metadata = me_metadata e, sh_score = x\<rparr>"

text \<open>\<open>sort((a, b) => b.score - a.score)\<close> is stable; then \<open>slice(0, topK)\<close>.\<close>

definition top_ranked :: "nat \<Rightarrow> ('a \<times> rat) list \<Rightarrow> ('a \<times> rat) list" where
  "top_ranked k xs = take k (sort_key (\<lambda>x. - snd x) xs)"

section \<open>The store in memory\<close>

record mem_store =
  ms_entries :: "(string, memory_entry) jsmap"
  ms_dims :: "(string, nat) jsmap"

definition mem_empty :: mem_store where "mem_empty = \<lparr>ms_entries = [], ms_dims = []\<rparr>"

definition composite_key :: "string \<Rightarrow> string \<Rightarrow> string" where
  "composite_key i ns = ns @ ''::'' @ i"

definition mem_upsert :: "memory_entry \<Rightarrow> mem_store \<Rightarrow> vs_answer \<times> mem_store" where
  "mem_upsert e s =
     (let put = s\<lparr>ms_entries := AList.update (composite_key (me_id e) (me_namespace e)) e (ms_entries s)\<rparr> in
      case map_of (ms_dims s) (me_namespace e) of
        None \<Rightarrow> (Done, put\<lparr>ms_dims := AList.update (me_namespace e) (length (me_vector e)) (ms_dims s)\<rparr>)
      | Some d \<Rightarrow> if d \<noteq> length (me_vector e) then (Failed, s) else (Done, put))"

definition mem_touch_key :: "millis \<Rightarrow> string \<Rightarrow> mem_store \<Rightarrow> mem_store" where
  "mem_touch_key now k s =
     (case map_of (ms_entries s) k of
        None \<Rightarrow> s
      | Some e \<Rightarrow> s\<lparr>ms_entries := AList.update k (e\<lparr>me_accessed := now\<rparr>) (ms_entries s)\<rparr>)"

text \<open>The similarity of vectors of different lengths throws.\<close>

definition mem_search ::
  "cosine \<Rightarrow> millis \<Rightarrow> string \<Rightarrow> vector \<Rightarrow> nat \<Rightarrow> rat \<Rightarrow> mem_store \<Rightarrow> vs_answer \<times> mem_store" where
  "mem_search cosine now ns q k low s =
     (let mine = filter (\<lambda>e. me_namespace e = ns) (map snd (ms_entries s)) in
      if \<not> list_all (\<lambda>e. length (me_vector e) = length q) mine then (Failed, s)
      else (let ranked = filter (\<lambda>x. low \<le> snd x) (map (\<lambda>e. (e, cosine (me_vector e) q)) mine);
                top = top_ranked k ranked
            in (Hits (map (\<lambda>(e, x). hit_of e x) top),
                fold (\<lambda>(e, x). mem_touch_key now (composite_key (me_id e) (me_namespace e))) top s)))"

definition mem_prune :: "string \<Rightarrow> millis \<Rightarrow> mem_store \<Rightarrow> vs_answer \<times> mem_store" where
  "mem_prune ns older s =
     (let gone = filter (\<lambda>(k, e). me_namespace e = ns \<and> me_accessed e < older) (ms_entries s)
      in (Number (length gone), s\<lparr>ms_entries := fold (\<lambda>(k, e). AList.delete k) gone (ms_entries s)\<rparr>))"

definition mem_count :: "string \<Rightarrow> mem_store \<Rightarrow> nat" where
  "mem_count ns s = length (filter (\<lambda>e. me_namespace e = ns) (map snd (ms_entries s)))"

definition mem_delete :: "string \<Rightarrow> string \<Rightarrow> mem_store \<Rightarrow> vs_answer \<times> mem_store" where
  "mem_delete i ns s =
     (let k = composite_key i ns
      in (Removed (map_of (ms_entries s) k \<noteq> None), s\<lparr>ms_entries := AList.delete k (ms_entries s)\<rparr>))"

fun mem_step :: "cosine \<Rightarrow> vs_op \<Rightarrow> mem_store \<Rightarrow> vs_answer \<times> mem_store" where
  "mem_step cosine (Upsert_entry e) s = mem_upsert e s"
| "mem_step cosine (Search_entries now ns q k low) s = mem_search cosine now ns q k low s"
| "mem_step cosine (Touch_entry now i ns) s = (Done, mem_touch_key now (composite_key i ns) s)"
| "mem_step cosine (Prune_entries ns older) s = mem_prune ns older s"
| "mem_step cosine (Count_entries ns) s = (Number (mem_count ns s), s)"
| "mem_step cosine (Delete_entry i ns) s = mem_delete i ns s"

section \<open>What a store stands for\<close>

text \<open>The contract both stores implement: per namespace, the entries in the order they were first
  stored, and the dimension the first of them fixed.\<close>

record store_spec =
  sp_entries :: "string \<Rightarrow> memory_entry list"
  sp_dims :: "string \<Rightarrow> nat option"

definition put_entry :: "memory_entry \<Rightarrow> memory_entry list \<Rightarrow> memory_entry list" where
  "put_entry e xs =
     (if me_id e \<in> me_id ` set xs then map (\<lambda>x. if me_id x = me_id e then e else x) xs else xs @ [e])"

definition touch_ids :: "millis \<Rightarrow> string set \<Rightarrow> memory_entry list \<Rightarrow> memory_entry list" where
  "touch_ids now I xs = map (\<lambda>e. if me_id e \<in> I then e\<lparr>me_accessed := now\<rparr> else e) xs"

definition spec_hits :: "cosine \<Rightarrow> vector \<Rightarrow> nat \<Rightarrow> rat \<Rightarrow> memory_entry list \<Rightarrow> search_hit list" where
  "spec_hits cosine q k low xs =
     map fst (top_ranked k (map (\<lambda>h. (h, sh_score h))
       (filter (\<lambda>h. low \<le> sh_score h) (map (\<lambda>e. hit_of e (cosine (me_vector e) q)) xs))))"

fun spec_step :: "cosine \<Rightarrow> vs_op \<Rightarrow> store_spec \<Rightarrow> vs_answer \<times> store_spec" where
  "spec_step cosine (Upsert_entry e) p =
     (let ns = me_namespace e in
      if sp_dims p ns \<noteq> None \<and> sp_dims p ns \<noteq> Some (length (me_vector e)) then (Failed, p)
      else (Done, \<lparr>sp_entries = (sp_entries p)(ns := put_entry e (sp_entries p ns)),
                   sp_dims = (sp_dims p)(ns \<mapsto> length (me_vector e))\<rparr>))"
| "spec_step cosine (Search_entries now ns q k low) p =
     (let hits = spec_hits cosine q k low (sp_entries p ns)
      in (Hits hits, p\<lparr>sp_entries := (sp_entries p)(ns := touch_ids now (sh_id ` set hits) (sp_entries p ns))\<rparr>))"
| "spec_step cosine (Touch_entry now i ns) p =
     (Done, p\<lparr>sp_entries := (sp_entries p)(ns := touch_ids now {i} (sp_entries p ns))\<rparr>)"
| "spec_step cosine (Prune_entries ns older) p =
     (Number (length (filter (\<lambda>e. me_accessed e < older) (sp_entries p ns))),
      p\<lparr>sp_entries := (sp_entries p)(ns := filter (\<lambda>e. \<not> me_accessed e < older) (sp_entries p ns))\<rparr>)"
| "spec_step cosine (Count_entries ns) p = (Number (length (sp_entries p ns)), p)"
| "spec_step cosine (Delete_entry i ns) p =
     (Removed (i \<in> me_id ` set (sp_entries p ns)),
      p\<lparr>sp_entries := (sp_entries p)(ns := filter (\<lambda>e. me_id e \<noteq> i) (sp_entries p ns))\<rparr>)"

text \<open>Operations the contract covers: ids as the service makes them, without a colon; metadata and
  vectors that survive the write to Redis; queries of the namespace's dimension.\<close>

fun op_ok :: "(vector \<Rightarrow> vector) \<Rightarrow> vs_op \<Rightarrow> store_spec \<Rightarrow> bool" where
  "op_ok narrow (Upsert_entry e) p \<longleftrightarrow>
     CHR '':'' \<notin> set (me_id e) \<and> wf_json (me_metadata e) \<and> narrow (me_vector e) = me_vector e"
| "op_ok narrow (Search_entries now ns q k low) p \<longleftrightarrow> list_all (\<lambda>e. length (me_vector e) = length q) (sp_entries p ns)"
| "op_ok narrow (Touch_entry now i ns) p \<longleftrightarrow> CHR '':'' \<notin> set i"
| "op_ok narrow (Delete_entry i ns) p \<longleftrightarrow> CHR '':'' \<notin> set i"
| "op_ok narrow _ p \<longleftrightarrow> True"

definition spec_empty :: store_spec where
  "spec_empty = \<lparr>sp_entries = (\<lambda>_. []), sp_dims = (\<lambda>_. None)\<rparr>"

fun run_ops :: "('op \<Rightarrow> 's \<Rightarrow> 'a \<times> 's) \<Rightarrow> 'op list \<Rightarrow> 's \<Rightarrow> 'a list \<times> 's" where
  "run_ops f [] s = ([], s)"
| "run_ops f (x # xs) s = (case f x s of (a, s') \<Rightarrow> (case run_ops f xs s' of (as, t) \<Rightarrow> (a # as, t)))"

fun ops_ok :: "cosine \<Rightarrow> (vector \<Rightarrow> vector) \<Rightarrow> vs_op list \<Rightarrow> store_spec \<Rightarrow> bool" where
  "ops_ok cosine narrow [] p \<longleftrightarrow> True"
| "ops_ok cosine narrow (x # xs) p \<longleftrightarrow> op_ok narrow x p \<and> ops_ok cosine narrow xs (snd (spec_step cosine x p))"

locale vector_store =
  fixes cosine :: cosine and narrow :: "vector \<Rightarrow> vector"
    and step :: "vs_op \<Rightarrow> 's \<Rightarrow> vs_answer \<times> 's" and abs :: "'s \<Rightarrow> store_spec" and inv :: "'s \<Rightarrow> bool"
  assumes step_refines: "inv s \<Longrightarrow> op_ok narrow op (abs s) \<Longrightarrow>
    inv (snd (step op s)) \<and> spec_step cosine op (abs s) = (fst (step op s), abs (snd (step op s)))"
begin

lemma run_refines:
  "inv s \<Longrightarrow> ops_ok cosine narrow ops (abs s) \<Longrightarrow>
   inv (snd (run_ops step ops s)) \<and>
   run_ops (spec_step cosine) ops (abs s) = (fst (run_ops step ops s), abs (snd (run_ops step ops s)))"
proof (induction ops arbitrary: s)
  case (Cons op ops)
  obtain a s1 where s1: "step op s = (a, s1)" by fastforce
  have ok: "inv s1" "spec_step cosine op (abs s) = (a, abs s1)"
    using step_refines[of s op] Cons.prems s1 by auto
  have "ops_ok cosine narrow ops (abs s1)" using Cons.prems ok(2) by simp
  from Cons.IH[OF ok(1) this] show ?case
    by (cases "run_ops step ops s1") (simp add: s1 ok(2))
qed simp

end

section \<open>The store in memory implements the contract\<close>

definition entry_key :: "memory_entry \<Rightarrow> string" where
  "entry_key e = composite_key (me_id e) (me_namespace e)"

text \<open>Every entry stands under its own key and has its namespace's dimension.\<close>

definition mem_inv :: "mem_store \<Rightarrow> bool" where
  "mem_inv s \<longleftrightarrow> distinct (map fst (ms_entries s)) \<and>
     list_all (\<lambda>(k, e). k = entry_key e \<and> CHR '':'' \<notin> set (me_id e)) (ms_entries s)"

definition mem_abs :: "mem_store \<Rightarrow> store_spec" where
  "mem_abs s = \<lparr>sp_entries = (\<lambda>ns. filter (\<lambda>e. me_namespace e = ns) (map snd (ms_entries s))), sp_dims = map_of (ms_dims s)\<rparr>"

lemma key_injective:
  assumes "CHR '':'' \<notin> set i" "CHR '':'' \<notin> set j"
  shows "composite_key i ns = composite_key j ms \<longleftrightarrow> i = j \<and> ns = ms"
  using split_at_last_colon[of "ns @ '':''" i "ms @ '':''" j] assms by (auto simp: composite_key_def)

lemma mem_entries_keyed:
  "mem_inv s \<Longrightarrow> ms_entries s = map (\<lambda>e. (entry_key e, e)) (map snd (ms_entries s))"
  by (auto simp: mem_inv_def list_all_iff case_prod_unfold intro!: map_idI[symmetric] prod_eqI)

lemma mem_inv_iff:
  "mem_inv s \<longleftrightarrow> (\<exists>es. ms_entries s = map (\<lambda>e. (entry_key e, e)) es \<and> distinct (map entry_key es) \<and>
     list_all (\<lambda>e. CHR '':'' \<notin> set (me_id e)) es)"
proof
  assume "mem_inv s"
  then show "\<exists>es. ms_entries s = map (\<lambda>e. (entry_key e, e)) es \<and> distinct (map entry_key es) \<and>
      list_all (\<lambda>e. CHR '':'' \<notin> set (me_id e)) es"
    using mem_entries_keyed[of s] by (intro exI[of _ "map snd (ms_entries s)"])
      (auto simp: mem_inv_def list_all_iff comp_def case_prod_unfold cong: map_cong)
qed (auto simp: mem_inv_def list_all_iff comp_def)

definition mem_of :: "memory_entry list \<Rightarrow> (string, nat) jsmap \<Rightarrow> mem_store" where
  "mem_of es d = \<lparr>ms_entries = map (\<lambda>e. (entry_key e, e)) es, ms_dims = d\<rparr>"

definition keyed :: "memory_entry list \<Rightarrow> bool" where
  "keyed es \<longleftrightarrow> distinct (map entry_key es) \<and> list_all (\<lambda>e. CHR '':'' \<notin> set (me_id e)) es"

lemma mem_inv_of [simp]: "mem_inv (mem_of es d) \<longleftrightarrow> keyed es"
  by (auto simp: mem_inv_def mem_of_def keyed_def list_all_iff comp_def)

lemma mem_inv_cases:
  assumes "mem_inv s" obtains es d where "s = mem_of es d" "keyed es"
proof -
  obtain es where es: "ms_entries s = map (\<lambda>e. (entry_key e, e)) es" "keyed es"
    using assms by (auto simp: mem_inv_iff keyed_def)
  then have "s = mem_of es (ms_dims s)" by (simp add: mem_of_def)
  then show thesis using es(2) that by blast
qed

lemma mem_abs_of [simp]:
  "mem_abs (mem_of es d) = \<lparr>sp_entries = (\<lambda>ns. filter (\<lambda>e. me_namespace e = ns) es), sp_dims = map_of d\<rparr>"
  by (simp add: mem_abs_def mem_of_def comp_def)

lemma entry_key_accessed [simp]: "entry_key (e\<lparr>me_accessed := t\<rparr>) = entry_key e"
  by (simp add: entry_key_def)

lemma map_of_keyed:
  "keyed es \<Longrightarrow> map_of (map (\<lambda>e. (entry_key e, e)) es) k = find (\<lambda>e. entry_key e = k) es"
  by (induction es) (auto simp: keyed_def)

lemma find_keyed: "keyed es \<Longrightarrow> e \<in> set es \<Longrightarrow> find (\<lambda>x. entry_key x = entry_key e) es = Some e"
  by (induction es) (auto simp: keyed_def)

definition touched :: "millis \<Rightarrow> string set \<Rightarrow> memory_entry list \<Rightarrow> memory_entry list" where
  "touched now K es = map (\<lambda>e. if entry_key e \<in> K then e\<lparr>me_accessed := now\<rparr> else e) es"

lemma keyed_touched [simp]: "keyed (touched now K es) \<longleftrightarrow> keyed es"
proof -
  have "map entry_key (touched now K es) = map entry_key es" by (auto simp: touched_def)
  moreover have "list_all (\<lambda>e. CHR '':'' \<notin> set (me_id e)) (touched now K es) \<longleftrightarrow> list_all (\<lambda>e. CHR '':'' \<notin> set (me_id e)) es"
    by (simp add: touched_def list.pred_map comp_def if_distrib cong: if_cong)
  ultimately show ?thesis by (simp add: keyed_def)
qed

lemma mem_touch_of:
  assumes "keyed es" shows "mem_touch_key now k (mem_of es d) = mem_of (touched now {k} es) d"
proof (cases "find (\<lambda>e. entry_key e = k) es")
  case None
  then have "touched now {k} es = es" by (auto simp: touched_def find_None_iff intro!: map_idI)
  then show ?thesis using None assms by (simp add: mem_touch_key_def mem_of_def map_of_keyed)
next
  case (Some e)
  have "AList.update k (e\<lparr>me_accessed := now\<rparr>) (map (\<lambda>e. (entry_key e, e)) es)
      = map (\<lambda>(j, w). if j = k then (j, w\<lparr>me_accessed := now\<rparr>) else (j, w)) (map (\<lambda>e. (entry_key e, e)) es)"
    using Some assms
    by (intro alist_update_present[where f = "\<lambda>w. w\<lparr>me_accessed := now\<rparr>"])
      (simp_all add: map_of_keyed keyed_def comp_def)
  also have "\<dots> = map (\<lambda>e. (entry_key e, e)) (touched now {k} es)"
    by (auto simp: touched_def)
  finally show ?thesis using Some assms by (simp add: mem_touch_key_def mem_of_def map_of_keyed)
qed

lemma mem_touches_of:
  "keyed es \<Longrightarrow> fold (\<lambda>e. mem_touch_key now (entry_key e)) ts (mem_of es d) = mem_of (touched now (entry_key ` set ts) es) d"
proof (induction ts arbitrary: es)
  case Nil
  then show ?case by (simp add: touched_def)
next
  case (Cons t ts)
  have "touched now (entry_key ` set ts) (touched now {entry_key t} es) = touched now (entry_key ` set (t # ts)) es"
    by (auto simp: touched_def)
  then show ?case using Cons.IH[of "touched now {entry_key t} es"] Cons.prems by (simp add: mem_touch_of)
qed

text \<open>Touching by key touches, in one namespace, by id.\<close>

lemma touched_namespace:
  assumes "keyed es" and "\<And>i. i \<in> I \<Longrightarrow> CHR '':'' \<notin> set i"
  shows "filter (\<lambda>e. me_namespace e = ms) (touched now ((\<lambda>i. composite_key i ns) ` I) es)
    = (if ms = ns then touch_ids now I (filter (\<lambda>e. me_namespace e = ms) es) else filter (\<lambda>e. me_namespace e = ms) es)"
proof -
  have key: "entry_key e \<in> (\<lambda>i. composite_key i ns) ` I \<longleftrightarrow> me_id e \<in> I \<and> me_namespace e = ns"
    if "CHR '':'' \<notin> set (me_id e)" for e
    using assms(2) key_injective[OF that] by (auto simp: entry_key_def)
  have "list_all (\<lambda>e. CHR '':'' \<notin> set (me_id e)) es" using assms(1) by (simp add: keyed_def)
  then show ?thesis
    by (induction es) (auto simp: touched_def touch_ids_def key)
qed

lemma keyed_put:
  assumes "keyed es" and "CHR '':'' \<notin> set (me_id e)"
  shows "\<exists>fs. AList.update (entry_key e) e (map (\<lambda>e. (entry_key e, e)) es) = map (\<lambda>e. (entry_key e, e)) fs \<and> keyed fs \<and>
    (\<forall>ns. filter (\<lambda>x. me_namespace x = ns) fs =
      (if ns = me_namespace e then put_entry e (filter (\<lambda>x. me_namespace x = ns) es) else filter (\<lambda>x. me_namespace x = ns) es))"
proof -
  have same: "entry_key x = entry_key e \<longleftrightarrow> me_id x = me_id e \<and> me_namespace x = me_namespace e" if "x \<in> set es" for x
    using key_injective[of "me_id x" "me_id e"] assms that by (auto simp: entry_key_def keyed_def list_all_iff)
  show ?thesis
  proof (cases "entry_key e \<in> entry_key ` set es")
    case True
    define fs where "fs = map (\<lambda>x. if entry_key x = entry_key e then e else x) es"
    obtain y where y: "y \<in> set es" "entry_key y = entry_key e" using True by fastforce
    have "map_of (map (\<lambda>e. (entry_key e, e)) es) (entry_key e) = Some y"
      using find_keyed[OF assms(1) y(1)] y(2) assms(1) by (simp only: map_of_keyed)
    moreover have "distinct (map fst (map (\<lambda>e. (entry_key e, e)) es))" using assms(1) by (simp add: keyed_def comp_def)
    ultimately have "AList.update (entry_key e) e (map (\<lambda>e. (entry_key e, e)) es)
        = map (\<lambda>(j, w). if j = entry_key e then (j, e) else (j, w)) (map (\<lambda>e. (entry_key e, e)) es)"
      by (rule alist_update_present[where f = "\<lambda>_. e"])
    also have "\<dots> = map (\<lambda>e. (entry_key e, e)) fs" by (auto simp: fs_def)
    finally have eq: "AList.update (entry_key e) e (map (\<lambda>e. (entry_key e, e)) es) = map (\<lambda>e. (entry_key e, e)) fs" .
    have "map entry_key fs = map entry_key es" by (auto simp: fs_def)
    then have "distinct (map entry_key fs)" using assms(1) by (simp only: keyed_def)
    moreover have "list_all (\<lambda>x. CHR '':'' \<notin> set (me_id x)) fs" using assms by (auto simp: keyed_def fs_def list_all_iff)
    ultimately have kf: "keyed fs" by (simp only: keyed_def)
    have "me_id e \<in> me_id ` set (filter (\<lambda>x. me_namespace x = me_namespace e) es)"
      using same[OF y(1)] y by (auto simp: image_iff intro!: bexI[of _ y])
    then have put: "put_entry e (filter (\<lambda>x. me_namespace x = me_namespace e) es)
        = map (\<lambda>x. if me_id x = me_id e then e else x) (filter (\<lambda>x. me_namespace x = me_namespace e) es)"
      by (simp add: put_entry_def)
    have "filter (\<lambda>x. me_namespace x = ns) fs = (if ns = me_namespace e
        then map (\<lambda>x. if me_id x = me_id e then e else x) (filter (\<lambda>x. me_namespace x = ns) es)
        else filter (\<lambda>x. me_namespace x = ns) es)" for ns
      using same unfolding fs_def by (induction es) auto
    then show ?thesis using eq kf put by (intro exI[of _ fs]) auto
  next
    case False
    then have "me_id e \<notin> me_id ` set (filter (\<lambda>x. me_namespace x = me_namespace e) es)"
      using same by (force simp: image_iff)
    then have "put_entry e (filter (\<lambda>x. me_namespace x = me_namespace e) es) = filter (\<lambda>x. me_namespace x = me_namespace e) es @ [e]"
      by (simp add: put_entry_def)
    then show ?thesis
      using False assms by (intro exI[of _ "es @ [e]"]) (auto simp: alist_update_new image_image keyed_def)
  qed
qed

lemma sort_key_map: "sort_key f (map g xs) = map g (sort_key (\<lambda>x. f (g x)) xs)"
proof -
  have ins: "insort_key f (g x) (map g ys) = map g (insort_key (\<lambda>x. f (g x)) x ys)" for x ys
    by (induction ys) auto
  show ?thesis by (induction xs) (simp_all add: ins)
qed

lemma top_ranked_map: "top_ranked k (map (\<lambda>x. (g x, snd x)) xs) = map (\<lambda>x. (g x, snd x)) (top_ranked k xs)"
  by (simp add: top_ranked_def sort_key_map take_map)

lemma spec_hits_ranked:
  "spec_hits cosine q k low xs =
     map (\<lambda>(e, x). hit_of e x) (top_ranked k (filter (\<lambda>x. low \<le> snd x) (map (\<lambda>e. (e, cosine (me_vector e) q)) xs)))"
proof -
  let ?P = "filter (\<lambda>x. low \<le> snd x) (map (\<lambda>e. (e, cosine (me_vector e) q)) xs)"
  have "map (\<lambda>h. (h, sh_score h)) (filter (\<lambda>h. low \<le> sh_score h) (map (\<lambda>e. hit_of e (cosine (me_vector e) q)) xs))
      = map (\<lambda>x. (hit_of (fst x) (snd x), snd x)) ?P"
    by (induction xs) (auto simp: hit_of_def)
  then show ?thesis
    by (simp add: spec_hits_def top_ranked_map[of k "\<lambda>x. hit_of (fst x) (snd x)"] comp_def case_prod_unfold)
qed

lemma top_ranked_subset: "set (top_ranked k xs) \<subseteq> set xs"
  by (auto simp: top_ranked_def dest: in_set_takeD)

lemma mem_of_entries: "ms_entries (mem_of es d) = map (\<lambda>e. (entry_key e, e)) es" "ms_dims (mem_of es d) = d"
  by (simp_all add: mem_of_def)

lemma keyed_filter: "keyed es \<Longrightarrow> keyed (filter P es)"
  by (auto simp: keyed_def list_all_iff distinct_map inj_on_def)

lemma mem_upsert_refines:
  assumes "keyed es" "CHR '':'' \<notin> set (me_id e)"
  shows "mem_inv (snd (mem_upsert e (mem_of es d))) \<and>
    spec_step cosine (Upsert_entry e) (mem_abs (mem_of es d))
      = (fst (mem_upsert e (mem_of es d)), mem_abs (snd (mem_upsert e (mem_of es d))))"
proof -
  obtain fs where fs: "AList.update (entry_key e) e (map (\<lambda>e. (entry_key e, e)) es) = map (\<lambda>e. (entry_key e, e)) fs" "keyed fs"
    "\<And>ns. filter (\<lambda>x. me_namespace x = ns) fs =
      (if ns = me_namespace e then put_entry e (filter (\<lambda>x. me_namespace x = ns) es) else filter (\<lambda>x. me_namespace x = ns) es)"
    using keyed_put[OF assms] by blast
  have put: "(mem_of es d)\<lparr>ms_entries := AList.update (composite_key (me_id e) (me_namespace e)) e (map (\<lambda>e. (entry_key e, e)) es)\<rparr>
      = mem_of fs d" for d
    using fs(1) by (simp add: mem_of_def entry_key_def)
  have dims: "(mem_of fs d)\<lparr>ms_dims := d'\<rparr> = mem_of fs d'" for d' by (simp add: mem_of_def)
  have view: "(\<lambda>ns. filter (\<lambda>e. me_namespace e = ns) fs)
      = (\<lambda>ns. filter (\<lambda>e. me_namespace e = ns) es)(me_namespace e := put_entry e (filter (\<lambda>x. me_namespace x = me_namespace e) es))"
    by (auto simp: fs(3))
  show ?thesis
  proof (cases "map_of d (me_namespace e)")
    case None
    then show ?thesis by (simp add: mem_upsert_def Let_def put dims fs(2) mem_of_entries view)
  next
    case (Some n)
    then show ?thesis
      by (cases "n = length (me_vector e)")
        (auto simp: mem_upsert_def Let_def put dims fs(2) mem_of_entries view assms(1) fun_upd_idem_iff)
  qed
qed

lemma mem_search_refines:
  assumes "keyed es" "op_ok narrow (Search_entries now ns q k low) (mem_abs (mem_of es d))"
  shows "mem_inv (snd (mem_search cosine now ns q k low (mem_of es d))) \<and>
    spec_step cosine (Search_entries now ns q k low) (mem_abs (mem_of es d))
      = (fst (mem_search cosine now ns q k low (mem_of es d)), mem_abs (snd (mem_search cosine now ns q k low (mem_of es d))))"
proof -
  define mine where "mine = filter (\<lambda>e. me_namespace e = ns) es"
  define best where "best = top_ranked k (filter (\<lambda>x. low \<le> snd x) (map (\<lambda>e. (e, cosine (me_vector e) q)) mine))"
  define I where "I = me_id ` fst ` set best"
  have sub: "fst ` set best \<subseteq> set mine" using top_ranked_subset by (force simp: best_def)
  have run: "mem_search cosine now ns q k low (mem_of es d) = (Hits (map (\<lambda>(e, x). hit_of e x) best),
      fold (\<lambda>(e, x). mem_touch_key now (composite_key (me_id e) (me_namespace e))) best (mem_of es d))"
    using assms(2) by (simp add: mem_search_def mem_of_entries comp_def mine_def[symmetric] best_def[symmetric])
  have "fold (\<lambda>(e, x). mem_touch_key now (composite_key (me_id e) (me_namespace e))) best s
      = fold (\<lambda>e. mem_touch_key now (entry_key e)) (map fst best) s" for s
    by (simp add: fold_map comp_def case_prod_unfold entry_key_def)
  moreover have "entry_key ` fst ` set best = (\<lambda>i. composite_key i ns) ` I"
    using sub by (auto simp: I_def entry_key_def mine_def image_image intro!: image_cong)
  ultimately have touch: "snd (mem_search cosine now ns q k low (mem_of es d)) = mem_of (touched now ((\<lambda>i. composite_key i ns) ` I) es) d"
    using mem_touches_of[OF assms(1), of now "map fst best" d] by (simp add: run)
  have colon: "CHR '':'' \<notin> set i" if "i \<in> I" for i
    using that sub assms(1) by (auto simp: I_def mine_def keyed_def list_all_iff)
  have hits: "spec_hits cosine q k low mine = map (\<lambda>(e, x). hit_of e x) best"
    by (simp add: spec_hits_ranked best_def)
  have ids: "sh_id ` set (map (\<lambda>(e, x). hit_of e x) best) = I"
    by (force simp: I_def hit_of_def image_image)
  have view: "(\<lambda>ms. filter (\<lambda>e. me_namespace e = ms) (touched now ((\<lambda>i. composite_key i ns) ` I) es))
      = (\<lambda>ms. filter (\<lambda>e. me_namespace e = ms) es)(ns := touch_ids now I mine)"
    using touched_namespace[OF assms(1) colon] by (auto simp: mine_def)
  show ?thesis
    using assms(1) ids by (simp add: touch view hits mine_def[symmetric] Let_def) (simp add: run)
qed

lemma fold_delete: "fold (\<lambda>(k, e). AList.delete k) gone m = filter (\<lambda>p. fst p \<notin> fst ` set gone) m"
proof (induction gone arbitrary: m)
  case (Cons g gs)
  show ?case using Cons.IH[of "AList.delete (fst g) m"]
    by (auto simp: alist_delete_filter case_prod_unfold intro!: filter_cong)
qed simp

lemma mem_remove_of: "(mem_of es d)\<lparr>ms_entries := filter (\<lambda>p. P (snd p)) (map (\<lambda>e. (entry_key e, e)) es)\<rparr> = mem_of (filter P es) d"
  by (simp add: mem_of_def filter_map comp_def)

lemma mem_prune_refines:
  assumes "keyed es"
  shows "mem_inv (snd (mem_prune ns older (mem_of es d))) \<and>
    spec_step cosine (Prune_entries ns older) (mem_abs (mem_of es d))
      = (fst (mem_prune ns older (mem_of es d)), mem_abs (snd (mem_prune ns older (mem_of es d))))"
proof -
  let ?old = "\<lambda>e. me_namespace e = ns \<and> me_accessed e < older"
  let ?m = "map (\<lambda>e. (entry_key e, e)) es"
  have "fst p \<notin> fst ` set (filter (\<lambda>(k, e). ?old e) ?m) \<longleftrightarrow> \<not> ?old (snd p)" if "p \<in> set ?m" for p
    using that assms by (force simp: keyed_def distinct_map dest: inj_onD)
  then have "fold (\<lambda>(k, e). AList.delete k) (filter (\<lambda>(k, e). ?old e) ?m) ?m = filter (\<lambda>p. \<not> ?old (snd p)) ?m"
    by (simp only: fold_delete cong: filter_cong)
  then have s: "snd (mem_prune ns older (mem_of es d)) = mem_of (filter (\<lambda>e. \<not> ?old e) es) d"
    using mem_remove_of[where es = es and d = d and P = "\<lambda>e. \<not> ?old e"] by (simp add: mem_prune_def mem_of_entries)
  have "(\<lambda>ms. filter (\<lambda>e. me_namespace e = ms) (filter (\<lambda>e. \<not> ?old e) es))
      = (\<lambda>ms. filter (\<lambda>e. me_namespace e = ms) es)(ns := filter (\<lambda>e. \<not> me_accessed e < older) (filter (\<lambda>e. me_namespace e = ns) es))"
    by (auto intro!: filter_cong)
  moreover have "fst (mem_prune ns older (mem_of es d))
      = Number (length (filter (\<lambda>e. me_accessed e < older) (filter (\<lambda>e. me_namespace e = ns) es)))"
    by (simp add: mem_prune_def mem_of_entries filter_map comp_def conj_commute)
  ultimately show ?thesis using keyed_filter[OF assms] by (simp add: s)
qed

lemma mem_delete_refines:
  assumes "keyed es" "CHR '':'' \<notin> set i"
  shows "mem_inv (snd (mem_delete i ns (mem_of es d))) \<and>
    spec_step cosine (Delete_entry i ns) (mem_abs (mem_of es d))
      = (fst (mem_delete i ns (mem_of es d)), mem_abs (snd (mem_delete i ns (mem_of es d))))"
proof -
  have key: "entry_key e = composite_key i ns \<longleftrightarrow> me_id e = i \<and> me_namespace e = ns" if "e \<in> set es" for e
    using key_injective[of "me_id e" i] assms that by (auto simp: entry_key_def keyed_def list_all_iff)
  have "AList.delete (composite_key i ns) (map (\<lambda>e. (entry_key e, e)) es)
      = filter (\<lambda>p. \<not> (me_id (snd p) = i \<and> me_namespace (snd p) = ns)) (map (\<lambda>e. (entry_key e, e)) es)"
    using key by (auto simp: alist_delete_filter eq_commute[of "composite_key i ns"] simp del: filter_map intro!: filter_cong)
  then have s: "snd (mem_delete i ns (mem_of es d)) = mem_of (filter (\<lambda>e. \<not> (me_id e = i \<and> me_namespace e = ns)) es) d"
    using mem_remove_of[where es = es and d = d and P = "\<lambda>e. \<not> (me_id e = i \<and> me_namespace e = ns)"] by (simp add: mem_delete_def mem_of_entries)
  have "fst (mem_delete i ns (mem_of es d)) = Removed (i \<in> me_id ` set (filter (\<lambda>e. me_namespace e = ns) es))"
  proof -
    have "find (\<lambda>e. entry_key e = composite_key i ns) es \<noteq> None \<longleftrightarrow> i \<in> me_id ` set (filter (\<lambda>e. me_namespace e = ns) es)"
      using key by (auto simp: find_None_iff image_iff simp del: not_None_eq)
    then show ?thesis by (simp add: mem_delete_def mem_of_entries map_of_keyed[OF assms(1)] del: not_None_eq)
  qed
  moreover have "(\<lambda>ms. filter (\<lambda>e. me_namespace e = ms) (filter (\<lambda>e. \<not> (me_id e = i \<and> me_namespace e = ns)) es))
      = (\<lambda>ms. filter (\<lambda>e. me_namespace e = ms) es)(ns := filter (\<lambda>e. me_id e \<noteq> i) (filter (\<lambda>e. me_namespace e = ns) es))"
    by (auto intro!: filter_cong)
  ultimately show ?thesis using keyed_filter[OF assms(1)] by (simp add: s)
qed

lemma mem_touch_refines:
  assumes "keyed es" "CHR '':'' \<notin> set i"
  shows "mem_inv (mem_touch_key now (composite_key i ns) (mem_of es d)) \<and>
    spec_step cosine (Touch_entry now i ns) (mem_abs (mem_of es d)) = (Done, mem_abs (mem_touch_key now (composite_key i ns) (mem_of es d)))"
  using touched_namespace[OF assms(1), of "{i}" _ now ns] assms by (auto simp: mem_touch_of)

interpretation mem_vectors: vector_store cosine narrow "mem_step cosine" mem_abs mem_inv
  for cosine narrow
proof
  fix s op assume inv: "mem_inv s" and ok: "op_ok narrow op (mem_abs s)"
  obtain es d where s: "s = mem_of es d" "keyed es" using inv by (rule mem_inv_cases)
  show "mem_inv (snd (mem_step cosine op s)) \<and> spec_step cosine op (mem_abs s) = (fst (mem_step cosine op s), mem_abs (snd (mem_step cosine op s)))"
  proof (cases op)
    case (Upsert_entry e)
    then show ?thesis using mem_upsert_refines[OF s(2)] ok s(1) by (simp del: spec_step.simps)
  next
    case (Search_entries now ns q k low)
    show ?thesis
      using mem_search_refines[OF s(2) ok[unfolded Search_entries s(1)]] by (simp del: spec_step.simps add: Search_entries s(1))
  next
    case (Touch_entry now i ns)
    then show ?thesis using mem_touch_refines[OF s(2)] ok s(1) by (simp del: spec_step.simps)
  next
    case (Prune_entries ns older)
    then show ?thesis using mem_prune_refines[OF s(2)] s(1) by (simp del: spec_step.simps)
  next
    case (Count_entries ns)
    then show ?thesis using s by (simp add: mem_count_def mem_of_entries comp_def)
  next
    case (Delete_entry i ns)
    then show ?thesis using mem_delete_refines[OF s(2)] ok s(1) by (simp del: spec_step.simps)
  qed
qed

end
