(* ===== verification/RedisVectorStore.thy ===== *)
theory RedisVectorStore
  imports VectorStore
begin

text \<open>
  The Redis vector store (\<open>services/memory/vector-store/redis.ts\<close>): a hash per entry, an index set
  and a dimension key per namespace, brute-force search. A pipeline of commands runs without
  interruption; \<open>SMEMBERS\<close> answers in the order in which the members were added. It implements
  the same contract as the store in memory, so the two answer alike.
\<close>

section \<open>The store in Redis\<close>

text \<open>A field of a hash is text, or the vector's bytes. A hash without fields does not exist.\<close>

datatype hash_field = Text_field string | Vector_field vector

type_synonym entry_hash = "(string, hash_field) jsmap"

record redis_store =
  rs_hashes :: "string \<Rightarrow> entry_hash"
  rs_index :: "string \<Rightarrow> string list"
  rs_meta :: "string \<Rightarrow> string option"
  rs_dims :: "(string, nat) jsmap"

definition redis_fresh :: redis_store where
  "redis_fresh = \<lparr>rs_hashes = (\<lambda>_. []), rs_index = (\<lambda>_. []), rs_meta = (\<lambda>_. None), rs_dims = []\<rparr>"

definition build_entry_key :: "string \<Rightarrow> string \<Rightarrow> string" where
  "build_entry_key ns i = ''memory:'' @ ns @ '':'' @ i"

definition build_index_key :: "string \<Rightarrow> string" where
  "build_index_key ns = ''memory-index:'' @ ns"

definition meta_key :: "string \<Rightarrow> string" where
  "meta_key ns = ''memory-meta:'' @ ns"

definition get_dimension :: "string \<Rightarrow> redis_store \<Rightarrow> nat option \<times> redis_store" where
  "get_dimension ns s =
     (case map_of (rs_dims s) ns of
        Some d \<Rightarrow> (Some d, s)
      | None \<Rightarrow>
          (case rs_meta s (meta_key ns) of
             None \<Rightarrow> (None, s)
           | Some raw \<Rightarrow>
               (case parse_int10 raw of
                  None \<Rightarrow> (None, s)
                | Some d \<Rightarrow> if d \<le> 0 then (None, s)
                            else (Some (nat d), s\<lparr>rs_dims := AList.update ns (nat d) (rs_dims s)\<rparr>))))"

definition set_dimension :: "string \<Rightarrow> nat \<Rightarrow> redis_store \<Rightarrow> redis_store" where
  "set_dimension ns d s =
     s\<lparr>rs_dims := AList.update ns d (rs_dims s), rs_meta := (rs_meta s)(meta_key ns := Some (string_of_nat d))\<rparr>"

definition entry_fields :: "(vector \<Rightarrow> vector) \<Rightarrow> memory_entry \<Rightarrow> entry_hash" where
  "entry_fields narrow e =
     [(''namespace'', Text_field (me_namespace e)), (''text'', Text_field (me_text e)),
      (''metadata'', Text_field (json_stringify (me_metadata e))), (''vector'', Vector_field (narrow (me_vector e))),
      (''dimensions'', Text_field (string_of_nat (length (me_vector e)))),
      (''createdAt'', Text_field (string_of_int (me_created e))),
      (''lastAccessedAt'', Text_field (string_of_int (me_accessed e)))]"

definition hset :: "string \<Rightarrow> entry_hash \<Rightarrow> redis_store \<Rightarrow> redis_store" where
  "hset k fs s = s\<lparr>rs_hashes := (rs_hashes s)(k := fold (\<lambda>(f, v). AList.update f v) fs (rs_hashes s k))\<rparr>"

definition index_add :: "string \<Rightarrow> string \<Rightarrow> redis_store \<Rightarrow> redis_store" where
  "index_add k i s = s\<lparr>rs_index := (rs_index s)(k := (if i \<in> set (rs_index s k) then rs_index s k else rs_index s k @ [i]))\<rparr>"

definition drop_entry :: "string \<Rightarrow> string \<Rightarrow> redis_store \<Rightarrow> redis_store" where
  "drop_entry ns i s =
     s\<lparr>rs_hashes := (rs_hashes s)(build_entry_key ns i := []),
       rs_index := (rs_index s)(build_index_key ns := filter (\<lambda>j. j \<noteq> i) (rs_index s (build_index_key ns)))\<rparr>"

definition redis_upsert :: "(vector \<Rightarrow> vector) \<Rightarrow> memory_entry \<Rightarrow> redis_store \<Rightarrow> vs_answer \<times> redis_store" where
  "redis_upsert narrow e s =
     (case get_dimension (me_namespace e) s of
        (expected, s1) \<Rightarrow>
          if expected \<noteq> None \<and> expected \<noteq> Some (length (me_vector e)) then (Failed, s1)
          else (Done,
            index_add (build_index_key (me_namespace e)) (me_id e)
              (hset (build_entry_key (me_namespace e) (me_id e)) (entry_fields narrow e)
                (if expected = None then set_dimension (me_namespace e) (length (me_vector e)) s1 else s1))))"

definition text_of :: "entry_hash \<Rightarrow> string \<Rightarrow> string option" where
  "text_of h f = (case map_of h f of Some (Text_field t) \<Rightarrow> Some t | _ \<Rightarrow> None)"

text \<open>What one hash contributes to a search: nothing, a hit, or an exception from its metadata.\<close>

definition candidate :: "cosine \<Rightarrow> string \<Rightarrow> vector \<Rightarrow> rat \<Rightarrow> string \<Rightarrow> entry_hash \<Rightarrow> search_hit option option" where
  "candidate cosine ns q low i h =
     (case (map_of h ''vector'', text_of h ''text'') of
        (Some (Vector_field stored), Some t) \<Rightarrow>
          if length stored \<noteq> length q \<or> cosine stored q < low then Some None
          else (case text_of h ''metadata'' of
                  None \<Rightarrow> Some (Some \<lparr>sh_id = i, sh_namespace = ns, sh_text = t, sh_metadata = JObj [], sh_score = cosine stored q\<rparr>)
                | Some raw \<Rightarrow>
                    map_option (\<lambda>m. Some \<lparr>sh_id = i, sh_namespace = ns, sh_text = t, sh_metadata = m,
                                          sh_score = cosine stored q\<rparr>) (json_parse raw))
      | _ \<Rightarrow> Some None)"

fun collect_candidates :: "(string \<Rightarrow> search_hit option option) \<Rightarrow> string list \<Rightarrow> search_hit list option" where
  "collect_candidates f [] = Some []"
| "collect_candidates f (i # is') =
     (case f i of
        None \<Rightarrow> None
      | Some c \<Rightarrow> map_option (\<lambda>cs. (case c of None \<Rightarrow> cs | Some h \<Rightarrow> h # cs)) (collect_candidates f is'))"

definition touch_hash :: "millis \<Rightarrow> string \<Rightarrow> string \<Rightarrow> redis_store \<Rightarrow> redis_store" where
  "touch_hash now ns i s = hset (build_entry_key ns i) [(''lastAccessedAt'', Text_field (string_of_int now))] s"

definition redis_search ::
  "cosine \<Rightarrow> millis \<Rightarrow> string \<Rightarrow> vector \<Rightarrow> nat \<Rightarrow> rat \<Rightarrow> redis_store \<Rightarrow> vs_answer \<times> redis_store" where
  "redis_search cosine now ns q k low s =
     (case collect_candidates (\<lambda>i. candidate cosine ns q low i (rs_hashes s (build_entry_key ns i)))
             (rs_index s (build_index_key ns)) of
        None \<Rightarrow> (Failed, s)
      | Some cs \<Rightarrow>
          (let top = map fst (top_ranked k (map (\<lambda>h. (h, sh_score h)) cs))
           in (Hits top, fold (\<lambda>h. touch_hash now ns (sh_id h)) top s)))"

definition touch_access :: "millis \<Rightarrow> string \<Rightarrow> string \<Rightarrow> redis_store \<Rightarrow> redis_store" where
  "touch_access now i ns s = (if rs_hashes s (build_entry_key ns i) = [] then s else touch_hash now ns i s)"

definition is_old :: "millis \<Rightarrow> entry_hash \<Rightarrow> bool" where
  "is_old older h =
     (case text_of h ''lastAccessedAt'' of
        None \<Rightarrow> False
      | Some raw \<Rightarrow> (case parse_int10 raw of None \<Rightarrow> False | Some ts \<Rightarrow> ts < older))"

definition redis_prune :: "string \<Rightarrow> millis \<Rightarrow> redis_store \<Rightarrow> vs_answer \<times> redis_store" where
  "redis_prune ns older s =
     (let gone = filter (\<lambda>i. is_old older (rs_hashes s (build_entry_key ns i))) (rs_index s (build_index_key ns))
      in (Number (length gone), fold (drop_entry ns) gone s))"

definition redis_delete :: "string \<Rightarrow> string \<Rightarrow> redis_store \<Rightarrow> vs_answer \<times> redis_store" where
  "redis_delete i ns s =
     (if i \<in> set (rs_index s (build_index_key ns)) then (Removed True, drop_entry ns i s) else (Removed False, s))"

fun redis_step :: "cosine \<Rightarrow> (vector \<Rightarrow> vector) \<Rightarrow> vs_op \<Rightarrow> redis_store \<Rightarrow> vs_answer \<times> redis_store" where
  "redis_step cosine narrow (Upsert_entry e) s = redis_upsert narrow e s"
| "redis_step cosine narrow (Search_entries now ns q k low) s = redis_search cosine now ns q k low s"
| "redis_step cosine narrow (Touch_entry now i ns) s = (Done, touch_access now i ns s)"
| "redis_step cosine narrow (Prune_entries ns older) s = redis_prune ns older s"
| "redis_step cosine narrow (Count_entries ns) s = (Number (length (rs_index s (build_index_key ns))), s)"
| "redis_step cosine narrow (Delete_entry i ns) s = redis_delete i ns s"

section \<open>The store in Redis implements the contract\<close>

lemma parse_string_of_int [simp]: "parse_int10 (string_of_int n) = Some n"
proof -
  have dig: "list_all is_digit (string_of_nat m)" for m by (simp add: list_all_iff string_of_nat_digits)
  have plain: "\<not> is_space c \<and> c \<noteq> CHR ''-'' \<and> c \<noteq> CHR ''+''" if "is_digit c" for c
    using that by (auto simp: is_digit_def is_space_def Let_def)
  obtain c cs where m: "string_of_nat (nat \<bar>n\<bar>) = c # cs" by (cases "string_of_nat (nat \<bar>n\<bar>)") auto
  then have c: "is_digit c" "list_all is_digit cs" using dig[of "nat \<bar>n\<bar>"] by auto
  have nums: "nat_of_digits (c # cs) = nat \<bar>n\<bar>" using m by (metis nat_of_digits_string_of_nat)
  have all: "takeWhile is_digit (c # cs) = c # cs" using c by (simp add: takeWhile_eq_all_conv list_all_iff)
  have minus: "\<not> is_space (CHR ''-'')" by (simp add: is_space_def)
  show ?thesis
    using m plain[OF c(1)] all nums minus by (cases "n < 0") (auto simp: parse_int10_def string_of_int_def Let_def)
qed

definition read_entry :: "string \<Rightarrow> string \<Rightarrow> entry_hash \<Rightarrow> memory_entry" where
  "read_entry ns i h =
     \<lparr>me_id = i, me_namespace = ns, me_text = (case text_of h ''text'' of Some t \<Rightarrow> t | None \<Rightarrow> []),
      me_metadata = (case text_of h ''metadata'' of None \<Rightarrow> JObj []
        | Some raw \<Rightarrow> (case json_parse raw of Some m \<Rightarrow> m | None \<Rightarrow> JNull)),
      me_vector = (case map_of h ''vector'' of Some (Vector_field v) \<Rightarrow> v | _ \<Rightarrow> []),
      me_created = (case text_of h ''createdAt'' of None \<Rightarrow> 0
        | Some raw \<Rightarrow> (case parse_int10 raw of Some t \<Rightarrow> t | None \<Rightarrow> 0)),
      me_accessed = (case text_of h ''lastAccessedAt'' of None \<Rightarrow> 0
        | Some raw \<Rightarrow> (case parse_int10 raw of Some t \<Rightarrow> t | None \<Rightarrow> 0))\<rparr>"

lemma read_fields: "wf_json (me_metadata e) \<Longrightarrow> read_entry (me_namespace e) (me_id e) (entry_fields (\<lambda>v. v) e) = e"
  by (simp add: read_entry_def entry_fields_def text_of_def json_parse_stringify)

definition redis_abs :: "redis_store \<Rightarrow> store_spec" where
  "redis_abs s = \<lparr>sp_entries = (\<lambda>ns. map (\<lambda>i. read_entry ns i (rs_hashes s (build_entry_key ns i))) (rs_index s (build_index_key ns))),
     sp_dims = (\<lambda>ns. fst (get_dimension ns s))\<rparr>"

text \<open>The hashes and indexes of Redis hold exactly the given entries.\<close>

definition entry_stored :: "redis_store \<Rightarrow> string \<Rightarrow> memory_entry \<Rightarrow> bool" where
  "entry_stored s ns e \<longleftrightarrow> me_namespace e = ns \<and> CHR '':'' \<notin> set (me_id e) \<and> wf_json (me_metadata e) \<and>
     rs_hashes s (build_entry_key ns (me_id e)) = entry_fields (\<lambda>v. v) e"

definition represents :: "redis_store \<Rightarrow> (string \<Rightarrow> memory_entry list) \<Rightarrow> bool" where
  "represents s E \<longleftrightarrow> (\<forall>ns. rs_index s (build_index_key ns) = map me_id (E ns) \<and> distinct (map me_id (E ns)) \<and>
     list_all (entry_stored s ns) (E ns) \<and>
     (\<forall>i. CHR '':'' \<notin> set i \<and> i \<notin> me_id ` set (E ns) \<longrightarrow> rs_hashes s (build_entry_key ns i) = []))"

definition redis_inv :: "redis_store \<Rightarrow> bool" where
  "redis_inv s \<longleftrightarrow> (\<exists>E. represents s E)"

lemma redis_key_injective:
  assumes "CHR '':'' \<notin> set i" "CHR '':'' \<notin> set j"
  shows "build_entry_key ns i = build_entry_key ms j \<longleftrightarrow> i = j \<and> ns = ms"
  using split_at_last_colon[of ns i ms j] assms by (auto simp: build_entry_key_def)

lemma index_key_injective [simp]: "build_index_key ns = build_index_key ms \<longleftrightarrow> ns = ms"
  by (simp add: build_index_key_def)

lemma representsD:
  assumes "represents s E"
  shows "rs_index s (build_index_key ns) = map me_id (E ns)" "distinct (map me_id (E ns))"
    "e \<in> set (E ns) \<Longrightarrow> entry_stored s ns e"
    "CHR '':'' \<notin> set i \<Longrightarrow> i \<notin> me_id ` set (E ns) \<Longrightarrow> rs_hashes s (build_entry_key ns i) = []"
  using assms by (auto simp: represents_def list_all_iff)

lemma redis_abs_represents:
  assumes "represents s E" shows "redis_abs s = \<lparr>sp_entries = E, sp_dims = (\<lambda>ns. fst (get_dimension ns s))\<rparr>"
proof -
  have "read_entry ns (me_id e) (rs_hashes s (build_entry_key ns (me_id e))) = e" if "e \<in> set (E ns)" for ns e
    using representsD(3)[OF assms that] read_fields[of e] by (auto simp: entry_stored_def)
  then show ?thesis
    by (auto simp: redis_abs_def representsD(1)[OF assms] intro!: map_idI)
qed

text \<open>One hash and one index replaced: what is left to show of the new entries.\<close>

lemma represents_update:
  assumes rep: "represents s E" and i: "CHR '':'' \<notin> set i"
    and hash: "rs_hashes s' = (rs_hashes s)(build_entry_key ns i := h)"
    and index: "rs_index s' = (rs_index s)(build_index_key ns := map me_id es)"
    and dist: "distinct (map me_id es)"
    and others: "\<And>e. e \<in> set es \<Longrightarrow> me_id e \<noteq> i \<Longrightarrow> e \<in> set (E ns)"
    and keeps: "\<And>j. j \<in> me_id ` set (E ns) \<Longrightarrow> j \<noteq> i \<Longrightarrow> j \<in> me_id ` set es"
    and new: "\<And>e. e \<in> set es \<Longrightarrow> me_id e = i \<Longrightarrow> me_namespace e = ns \<and> wf_json (me_metadata e) \<and> h = entry_fields (\<lambda>v. v) e"
    and gone: "i \<notin> me_id ` set es \<Longrightarrow> h = []"
  shows "represents s' (E(ns := es))"
proof -
  have other: "rs_hashes s' (build_entry_key ms j) = rs_hashes s (build_entry_key ms j)"
    if "CHR '':'' \<notin> set j" "j \<noteq> i \<or> ms \<noteq> ns" for ms j
    using redis_key_injective[OF that(1) i, of ms ns] that(2) by (auto simp: hash)
  have here: "rs_hashes s' (build_entry_key ns i) = h" by (simp add: hash)
  have "entry_stored s' ms e" if "e \<in> set ((E(ns := es)) ms)" for ms e
  proof (cases "ms = ns \<and> me_id e = i")
    case True
    then show ?thesis using new[of e] that here i by (simp add: entry_stored_def)
  next
    case False
    then have "e \<in> set (E ms)" using that others by (auto split: if_splits)
    from representsD(3)[OF rep this] show ?thesis
      using False other[of "me_id e" ms] by (auto simp: entry_stored_def)
  qed
  moreover have "rs_hashes s' (build_entry_key ms j) = []"
    if "CHR '':'' \<notin> set j" "j \<notin> me_id ` set ((E(ns := es)) ms)" for ms j
  proof (cases "ms = ns \<and> j = i")
    case True
    then show ?thesis using gone that here by auto
  next
    case False
    have "j \<notin> me_id ` set (E ms)" using that(2) keeps[of j] False by (cases "ms = ns") auto
    then show ?thesis using representsD(4)[OF rep that(1)] other[OF that(1)] False by auto
  qed
  ultimately show ?thesis
    using representsD(1,2)[OF rep] dist index by (simp add: represents_def list_all_iff)
qed

lemma touch_ids_id [simp]: "map me_id (touch_ids now I xs) = map me_id xs"
  by (auto simp: touch_ids_def)

lemma touch_ids_set [simp]: "me_id ` set (touch_ids now I xs) = me_id ` set xs"
  using arg_cong[OF touch_ids_id, of set now I xs] by (simp only: set_map)

lemma hset_fields:
  "fold (\<lambda>(f, v). AList.update f v) [(''lastAccessedAt'', Text_field (string_of_int now))] (entry_fields (\<lambda>v. v) e)
     = entry_fields (\<lambda>v. v) (e\<lparr>me_accessed := now\<rparr>)"
  "fold (\<lambda>(f, v). AList.update f v) (entry_fields (\<lambda>v. v) e) (entry_fields (\<lambda>v. v) e') = entry_fields (\<lambda>v. v) e"
  "fold (\<lambda>(f, v). AList.update f v) (entry_fields (\<lambda>v. v) e) [] = entry_fields (\<lambda>v. v) e"
  by (simp_all add: entry_fields_def)

lemma same_id: "distinct (map me_id xs) \<Longrightarrow> e \<in> set xs \<Longrightarrow> e' \<in> set xs \<Longrightarrow> me_id e = me_id e' \<Longrightarrow> e = e'"
  by (auto simp: distinct_map inj_on_def)

lemma represents_touch:
  assumes rep: "represents s E" and i: "i \<in> me_id ` set (E ns)"
  shows "represents (touch_hash now ns i s) (E(ns := touch_ids now {i} (E ns)))"
proof -
  obtain e where e: "e \<in> set (E ns)" "i = me_id e" using i by auto
  note st = representsD(3)[OF rep e(1), unfolded entry_stored_def]
  show ?thesis
  proof (rule represents_update[OF rep, where i = i and h = "entry_fields (\<lambda>v. v) (e\<lparr>me_accessed := now\<rparr>)"])
    show "rs_hashes (touch_hash now ns i s) = (rs_hashes s)(build_entry_key ns i := entry_fields (\<lambda>v. v) (e\<lparr>me_accessed := now\<rparr>))"
      using st e(2) hset_fields(1)[of now e] by (simp add: touch_hash_def hset_def)
    show "rs_index (touch_hash now ns i s) = (rs_index s)(build_index_key ns := map me_id (touch_ids now {i} (E ns)))"
      using representsD(1)[OF rep, of ns] by (simp add: touch_hash_def hset_def fun_upd_idem)
  next
    fix x assume x: "x \<in> set (touch_ids now {i} (E ns))" "me_id x = i"
    from x(1) obtain y where y: "y \<in> set (E ns)" "x = (if me_id y \<in> {i} then y\<lparr>me_accessed := now\<rparr> else y)"
      unfolding touch_ids_def set_map by blast
    then have "y = e" using same_id[OF representsD(2)[OF rep] y(1) e(1)] x(2) e(2) by (auto split: if_splits)
    then show "me_namespace x = ns \<and> wf_json (me_metadata x) \<and> entry_fields (\<lambda>v. v) (e\<lparr>me_accessed := now\<rparr>) = entry_fields (\<lambda>v. v) x"
      using y(2) e(2) st by simp
  next
    show "CHR '':'' \<notin> set i" using st e(2) by simp
  next
    show "distinct (map me_id (touch_ids now {i} (E ns)))" using representsD(2)[OF rep, of ns] by simp
  next
    fix x assume "x \<in> set (touch_ids now {i} (E ns))" "me_id x \<noteq> i"
    then show "x \<in> set (E ns)" by (auto simp: touch_ids_def)
  qed (use i in simp_all)
qed

lemma represents_drop:
  assumes rep: "represents s E" and i: "CHR '':'' \<notin> set i"
  shows "represents (drop_entry ns i s) (E(ns := filter (\<lambda>e. me_id e \<noteq> i) (E ns)))"
  by (rule represents_update[OF rep i, where h = "[]"])
    (use representsD(1,2)[OF rep, of ns] in \<open>auto simp: drop_entry_def distinct_map_filter filter_map comp_def\<close>)

lemma put_entry_ids:
  "map me_id (put_entry e xs) = (if me_id e \<in> set (map me_id xs) then map me_id xs else map me_id xs @ [me_id e])"
  by (auto simp: put_entry_def)

lemma represents_put:
  assumes rep: "represents s E" and ok: "CHR '':'' \<notin> set (me_id e)" "wf_json (me_metadata e)" "narrow (me_vector e) = me_vector e"
  shows "represents (index_add (build_index_key (me_namespace e)) (me_id e)
      (hset (build_entry_key (me_namespace e) (me_id e)) (entry_fields narrow e) s))
    (E(me_namespace e := put_entry e (E (me_namespace e))))"
proof -
  let ?ns = "me_namespace e"
  have fields: "entry_fields narrow e = entry_fields (\<lambda>v. v) e" using ok(3) by (simp add: entry_fields_def)
  have hash: "fold (\<lambda>(f, v). AList.update f v) (entry_fields (\<lambda>v. v) e) (rs_hashes s (build_entry_key ?ns (me_id e)))
      = entry_fields (\<lambda>v. v) e"
  proof (cases "me_id e \<in> me_id ` set (E ?ns)")
    case True
    then obtain e' where "e' \<in> set (E ?ns)" "me_id e' = me_id e" by auto
    then show ?thesis using representsD(3)[OF rep, of e' ?ns] hset_fields(2) by (simp add: entry_stored_def)
  next
    case False
    then show ?thesis using representsD(4)[OF rep ok(1)] hset_fields(3) by simp
  qed
  show ?thesis
  proof (rule represents_update[OF rep ok(1), where h = "entry_fields (\<lambda>v. v) e"])
    show "rs_hashes (index_add (build_index_key ?ns) (me_id e) (hset (build_entry_key ?ns (me_id e)) (entry_fields narrow e) s))
        = (rs_hashes s)(build_entry_key ?ns (me_id e) := entry_fields (\<lambda>v. v) e)"
      by (simp add: index_add_def hset_def fields hash)
    show "rs_index (index_add (build_index_key ?ns) (me_id e) (hset (build_entry_key ?ns (me_id e)) (entry_fields narrow e) s))
        = (rs_index s)(build_index_key ?ns := map me_id (put_entry e (E ?ns)))"
      using representsD(1)[OF rep, of ?ns] by (simp add: index_add_def hset_def put_entry_ids)
    show "distinct (map me_id (put_entry e (E ?ns)))"
      using representsD(2)[OF rep, of ?ns] by (simp add: put_entry_ids)
  next
    fix x assume "x \<in> set (put_entry e (E ?ns))" "me_id x = me_id e"
    then have "x = e" by (cases "me_id e \<in> me_id ` set (E ?ns)") (auto simp: put_entry_def image_iff split: if_splits)
    then show "me_namespace x = ?ns \<and> wf_json (me_metadata x) \<and> entry_fields (\<lambda>v. v) e = entry_fields (\<lambda>v. v) x"
      using ok(2) by simp
  qed (auto simp: put_entry_def split: if_splits)
qed

lemma represents_same_tables:
  assumes "represents s E" "rs_hashes s' = rs_hashes s" "rs_index s' = rs_index s" shows "represents s' E"
proof -
  have "entry_stored s' = entry_stored s" by (auto simp: fun_eq_iff entry_stored_def assms(2))
  then show ?thesis using assms by (simp add: represents_def)
qed

lemma get_dimension_frame:
  "rs_hashes (snd (get_dimension ns s)) = rs_hashes s" "rs_index (snd (get_dimension ns s)) = rs_index s"
  "fst (get_dimension ms (snd (get_dimension ns s))) = fst (get_dimension ms s)"
  by (auto simp: get_dimension_def split: option.split)

lemma get_dimension_tables:
  "fst (get_dimension ms (index_add k i s)) = fst (get_dimension ms s)"
  "fst (get_dimension ms (hset k fs s)) = fst (get_dimension ms s)"
  "fst (get_dimension ms (drop_entry ns i s)) = fst (get_dimension ms s)"
  by (auto simp: get_dimension_def index_add_def hset_def drop_entry_def split: option.split)

lemma get_dimension_set:
  "fst (get_dimension ms (set_dimension ns d s)) = (if ms = ns then Some d else fst (get_dimension ms s))"
  by (auto simp: get_dimension_def set_dimension_def meta_key_def split: option.split)

lemma represents_touches:
  "represents s E \<Longrightarrow> sh_id ` set hits \<subseteq> me_id ` set (E ns) \<Longrightarrow>
   represents (fold (\<lambda>h. touch_hash now ns (sh_id h)) hits s) (E(ns := touch_ids now (sh_id ` set hits) (E ns)))"
proof (induction hits arbitrary: s E)
  case Nil
  then show ?case by (simp add: touch_ids_def)
next
  case (Cons h hs)
  let ?E = "E(ns := touch_ids now {sh_id h} (E ns))"
  have "represents (touch_hash now ns (sh_id h) s) ?E" using Cons.prems by (intro represents_touch) auto
  moreover have "sh_id ` set hs \<subseteq> me_id ` set (?E ns)" using Cons.prems(2) by simp
  ultimately have "represents (fold (\<lambda>h. touch_hash now ns (sh_id h)) hs (touch_hash now ns (sh_id h) s))
      (?E(ns := touch_ids now (sh_id ` set hs) (?E ns)))" by (rule Cons.IH)
  moreover have "?E(ns := touch_ids now (sh_id ` set hs) (?E ns)) = E(ns := touch_ids now (sh_id ` set (h # hs)) (E ns))"
    by (auto simp: touch_ids_def)
  ultimately show ?case by (simp only: fold_simps)
qed

lemma dims_frame:
  "fst (get_dimension ms (fold (\<lambda>h. touch_hash now ns (f h)) hs s)) = fst (get_dimension ms s)"
  "fst (get_dimension ms (fold (drop_entry ns) ids s)) = fst (get_dimension ms s)"
  by (induction hs arbitrary: s) (simp_all add: touch_hash_def get_dimension_tables,
      induction ids arbitrary: s, simp_all add: get_dimension_tables)

lemma candidate_fields:
  assumes "entry_stored s ns e" "length (me_vector e) = length q"
  shows "candidate cosine ns q low (me_id e) (rs_hashes s (build_entry_key ns (me_id e)))
    = Some (if low \<le> cosine (me_vector e) q then Some (hit_of e (cosine (me_vector e) q)) else None)"
  using assms by (auto simp: entry_stored_def candidate_def entry_fields_def text_of_def json_parse_stringify hit_of_def)

lemma collect_stored:
  "list_all (entry_stored s ns) es \<Longrightarrow> list_all (\<lambda>e. length (me_vector e) = length q) es \<Longrightarrow>
   collect_candidates (\<lambda>i. candidate cosine ns q low i (rs_hashes s (build_entry_key ns i))) (map me_id es)
     = Some (filter (\<lambda>h. low \<le> sh_score h) (map (\<lambda>e. hit_of e (cosine (me_vector e) q)) es))"
  by (induction es) (auto simp: candidate_fields hit_of_def)

lemma spec_hit_ids: "sh_id ` set (spec_hits cosine q k low xs) \<subseteq> me_id ` set xs"
  using top_ranked_subset by (force simp: spec_hits_ranked hit_of_def)

lemma redis_search_refines:
  assumes rep: "represents s E" and ok: "op_ok narrow (Search_entries now ns q k low) (redis_abs s)"
  shows "\<exists>E'. represents (snd (redis_search cosine now ns q k low s)) E' \<and>
    spec_step cosine (Search_entries now ns q k low) (redis_abs s)
      = (fst (redis_search cosine now ns q k low s), redis_abs (snd (redis_search cosine now ns q k low s)))"
proof -
  let ?hits = "spec_hits cosine q k low (E ns)"
  note abs = redis_abs_represents[OF rep]
  have all: "list_all (entry_stored s ns) (E ns)" using representsD(3)[OF rep] by (simp add: list_all_iff)
  have run: "redis_search cosine now ns q k low s = (Hits ?hits, fold (\<lambda>h. touch_hash now ns (sh_id h)) ?hits s)"
    using collect_stored[OF all, of q cosine low] ok
    by (simp add: redis_search_def representsD(1)[OF rep] abs spec_hits_def Let_def)
  have rep': "represents (fold (\<lambda>h. touch_hash now ns (sh_id h)) ?hits s) (E(ns := touch_ids now (sh_id ` set ?hits) (E ns)))"
    by (rule represents_touches[OF rep spec_hit_ids])
  show ?thesis
    unfolding run fst_conv snd_conv redis_abs_represents[OF rep'] abs
    using rep' by (auto simp: Let_def dims_frame)
qed

lemma redis_upsert_refines:
  assumes rep: "represents s E" and ok: "op_ok narrow (Upsert_entry e) (redis_abs s)"
  shows "\<exists>E'. represents (snd (redis_upsert narrow e s)) E' \<and>
    spec_step cosine (Upsert_entry e) (redis_abs s) = (fst (redis_upsert narrow e s), redis_abs (snd (redis_upsert narrow e s)))"
proof -
  let ?ns = "me_namespace e"
  obtain d s1 where d: "get_dimension ?ns s = (d, s1)" by fastforce
  have s1: "rs_hashes s1 = rs_hashes s" "rs_index s1 = rs_index s" "fst (get_dimension ms s1) = fst (get_dimension ms s)" for ms
    using get_dimension_frame[where ns = ?ns and s = s] d by simp_all
  note abs = redis_abs_represents[OF rep]
  have rep1: "represents s1 E" using represents_same_tables[OF rep s1(1,2)] .
  show ?thesis
  proof (cases "d \<noteq> None \<and> d \<noteq> Some (length (me_vector e))")
    case True
    then have "redis_upsert narrow e s = (Failed, s1)" by (simp add: redis_upsert_def d)
    then show ?thesis
      using rep1 redis_abs_represents[OF rep1] True d by (auto simp: abs s1(3))
  next
    case False
    define s2 where "s2 = (if d = None then set_dimension ?ns (length (me_vector e)) s1 else s1)"
    define s3 where "s3 = index_add (build_index_key ?ns) (me_id e)
      (hset (build_entry_key ?ns (me_id e)) (entry_fields narrow e) s2)"
    have run: "redis_upsert narrow e s = (Done, s3)"
      using False by (simp add: redis_upsert_def d s2_def s3_def)
    have "represents s2 E" using rep1 by (intro represents_same_tables[OF rep1]) (simp_all add: s2_def set_dimension_def)
    then have rep3: "represents s3 (E(?ns := put_entry e (E ?ns)))"
      unfolding s3_def by (rule represents_put) (use ok in simp_all)
    have "fst (get_dimension ms s3) = (if ms = ?ns then Some (length (me_vector e)) else fst (get_dimension ms s))" for ms
      using False d s1(3)[of ms] s1(3)[of ?ns] by (auto simp: s3_def s2_def get_dimension_tables get_dimension_set)
    then show ?thesis
      using rep3 redis_abs_represents[OF rep3] False d run by (intro exI[of _ "E(?ns := put_entry e (E ?ns))"]) (auto simp: abs Let_def fun_upd_def)
  qed
qed

lemma represents_drops:
  "represents s E \<Longrightarrow> list_all (\<lambda>i. CHR '':'' \<notin> set i) ids \<Longrightarrow>
   represents (fold (drop_entry ns) ids s) (E(ns := filter (\<lambda>e. me_id e \<notin> set ids) (E ns)))"
proof (induction ids arbitrary: s E)
  case (Cons i is')
  let ?E = "E(ns := filter (\<lambda>e. me_id e \<noteq> i) (E ns))"
  have "represents (drop_entry ns i s) ?E" using Cons.prems by (intro represents_drop) auto
  moreover have "list_all (\<lambda>i. CHR '':'' \<notin> set i) is'" using Cons.prems(2) by simp
  ultimately have "represents (fold (drop_entry ns) is' (drop_entry ns i s)) (?E(ns := filter (\<lambda>e. me_id e \<notin> set is') (?E ns)))"
    by (rule Cons.IH)
  moreover have "?E(ns := filter (\<lambda>e. me_id e \<notin> set is') (?E ns)) = E(ns := filter (\<lambda>e. me_id e \<notin> set (i # is')) (E ns))"
    by (auto simp: fun_eq_iff intro!: filter_cong)
  ultimately show ?case by (simp only: fold_simps)
qed simp

lemma redis_prune_refines:
  assumes rep: "represents s E"
  shows "\<exists>E'. represents (snd (redis_prune ns older s)) E' \<and>
    spec_step cosine (Prune_entries ns older) (redis_abs s) = (fst (redis_prune ns older s), redis_abs (snd (redis_prune ns older s)))"
proof -
  let ?gone = "map me_id (filter (\<lambda>e. me_accessed e < older) (E ns))"
  have old: "is_old older (rs_hashes s (build_entry_key ns (me_id e))) \<longleftrightarrow> me_accessed e < older" if "e \<in> set (E ns)" for e
    using representsD(3)[OF rep that] by (simp add: entry_stored_def is_old_def entry_fields_def text_of_def)
  have run: "redis_prune ns older s = (Number (length ?gone), fold (drop_entry ns) ?gone s)"
    using old by (simp add: redis_prune_def representsD(1)[OF rep] filter_map comp_def cong: filter_cong)
  have "filter (\<lambda>e. me_id e \<notin> set ?gone) (E ns) = filter (\<lambda>e. \<not> me_accessed e < older) (E ns)"
    using same_id[OF representsD(2)[OF rep, of ns]] by (intro filter_cong) auto
  moreover have "list_all (\<lambda>i. CHR '':'' \<notin> set i) ?gone"
    using representsD(3)[OF rep] by (auto simp: list_all_iff entry_stored_def)
  ultimately have rep': "represents (fold (drop_entry ns) ?gone s) (E(ns := filter (\<lambda>e. \<not> me_accessed e < older) (E ns)))"
    using represents_drops[OF rep] by metis
  show ?thesis
    using rep' redis_abs_represents[OF rep'] redis_abs_represents[OF rep]
    by (intro exI[of _ "E(ns := filter (\<lambda>e. \<not> me_accessed e < older) (E ns))"]) (simp add: run dims_frame)
qed

lemma redis_delete_refines:
  assumes rep: "represents s E" and i: "CHR '':'' \<notin> set i"
  shows "\<exists>E'. represents (snd (redis_delete i ns s)) E' \<and>
    spec_step cosine (Delete_entry i ns) (redis_abs s) = (fst (redis_delete i ns s), redis_abs (snd (redis_delete i ns s)))"
proof (cases "i \<in> me_id ` set (E ns)")
  case True
  note rep' = represents_drop[OF rep i, of ns]
  show ?thesis
    using True rep' redis_abs_represents[OF rep'] redis_abs_represents[OF rep] representsD(1)[OF rep, of ns]
    by (intro exI[of _ "E(ns := filter (\<lambda>e. me_id e \<noteq> i) (E ns))"]) (simp add: redis_delete_def get_dimension_tables)
next
  case False
  then have "filter (\<lambda>e. me_id e \<noteq> i) (E ns) = E ns" by (auto intro!: filter_True)
  then show ?thesis
    using False rep redis_abs_represents[OF rep] representsD(1)[OF rep, of ns]
    by (intro exI[of _ E]) (auto simp: redis_delete_def)
qed

lemma redis_touch_refines:
  assumes rep: "represents s E" and i: "CHR '':'' \<notin> set i"
  shows "\<exists>E'. represents (touch_access now i ns s) E' \<and>
    spec_step cosine (Touch_entry now i ns) (redis_abs s) = (Done, redis_abs (touch_access now i ns s))"
proof (cases "i \<in> me_id ` set (E ns)")
  case True
  note rep' = represents_touch[OF rep True, of now]
  obtain e where "e \<in> set (E ns)" "me_id e = i" using True by auto
  then have "rs_hashes s (build_entry_key ns i) \<noteq> []"
    using representsD(3)[OF rep, of e ns] by (auto simp: entry_stored_def entry_fields_def)
  then show ?thesis
    using rep' redis_abs_represents[OF rep'] redis_abs_represents[OF rep]
    by (intro exI[of _ "E(ns := touch_ids now {i} (E ns))"]) (simp add: touch_access_def touch_hash_def get_dimension_tables)
next
  case False
  then have "touch_ids now {i} (E ns) = E ns" by (auto simp: touch_ids_def intro!: map_idI)
  then show ?thesis
    using False rep redis_abs_represents[OF rep] representsD(4)[OF rep i, of ns]
    by (intro exI[of _ E]) (auto simp: touch_access_def)
qed

interpretation redis_vectors: vector_store cosine narrow "redis_step cosine narrow" redis_abs redis_inv
  for cosine narrow
proof
  fix s op assume inv: "redis_inv s" and ok: "op_ok narrow op (redis_abs s)"
  obtain E where rep: "represents s E" using inv by (auto simp: redis_inv_def)
  have "\<exists>E'. represents (snd (redis_step cosine narrow op s)) E' \<and>
      spec_step cosine op (redis_abs s) = (fst (redis_step cosine narrow op s), redis_abs (snd (redis_step cosine narrow op s)))"
  proof (cases op)
    case (Upsert_entry e)
    then show ?thesis using redis_upsert_refines[OF rep] ok by (simp del: spec_step.simps op_ok.simps)
  next
    case (Search_entries now ns q k low)
    then show ?thesis using redis_search_refines[OF rep] ok by (simp del: spec_step.simps op_ok.simps)
  next
    case (Touch_entry now i ns)
    then show ?thesis using redis_touch_refines[OF rep] ok by (simp del: spec_step.simps)
  next
    case (Prune_entries ns older)
    then show ?thesis using redis_prune_refines[OF rep] by (simp del: spec_step.simps)
  next
    case (Count_entries ns)
    then show ?thesis
      using rep redis_abs_represents[OF rep] representsD(1)[OF rep, of ns] by (intro exI[of _ E]) simp
  next
    case (Delete_entry i ns)
    then show ?thesis using redis_delete_refines[OF rep] ok by (simp del: spec_step.simps)
  qed
  then show "redis_inv (snd (redis_step cosine narrow op s)) \<and>
      spec_step cosine op (redis_abs s) = (fst (redis_step cosine narrow op s), redis_abs (snd (redis_step cosine narrow op s)))"
    by (auto simp: redis_inv_def)
qed

section \<open>The two stores answer alike\<close>

lemma empty_stores:
  "redis_inv redis_fresh" "redis_abs redis_fresh = spec_empty" "mem_inv mem_empty" "mem_abs mem_empty = spec_empty"
proof -
  have "represents redis_fresh (\<lambda>_. [])" by (simp add: represents_def redis_fresh_def)
  then show "redis_inv redis_fresh" "redis_abs redis_fresh = spec_empty"
    by (auto simp: redis_inv_def redis_abs_represents spec_empty_def get_dimension_def redis_fresh_def)
qed (simp_all add: mem_inv_def mem_empty_def mem_abs_def spec_empty_def)


definition sample_memory :: "string \<Rightarrow> string \<Rightarrow> vector \<Rightarrow> memory_entry" where
  "sample_memory i t v = \<lparr>me_id = i, me_namespace = ''chats'', me_text = t, me_metadata = JObj [(''source'', JStr ''s'')],
     me_vector = v, me_created = 5, me_accessed = 5\<rparr>"

definition sample_cosine :: cosine where
  "sample_cosine v w = (if v = w then 1 else 1 / 2)"

definition sample_vs_ops :: "vs_op list" where
  "sample_vs_ops = [Upsert_entry (sample_memory ''a'' ''cat'' [1, 0]), Upsert_entry (sample_memory ''b'' ''dog'' [0, 1]),
     Search_entries 9 ''chats'' [0, 1] 1 (7 / 10), Prune_entries ''chats'' 6, Count_entries ''chats'']"


lemma sample_answers:
  "fst (run_ops (mem_step sample_cosine) sample_vs_ops mem_empty)
     = [Done, Done, Hits [hit_of (sample_memory ''b'' ''dog'' [0, 1]) 1], Number 1, Number 1]"
  by code_simp

end
