(* ===== verification/Memory.thy ===== *)
theory Memory
  imports RedisVectorStore Extract LibText
begin

text \<open>
  The memory service (\<open>services/memory/memory.service.ts\<close>) over the registered embedding providers
  and vector stores: the store budget of a run, store, search, delete and prune with their
  events; the namespaces collected at startup (\<open>bootstrap.ts\<close>), the pruning tick
  (\<open>pruning.service.ts\<close>), thread enrichment (\<open>thread-enrichment.ts\<close>) and the HTTP handlers
  (\<open>controllers/memory.controller.ts\<close>). Embeddings are a parameter; a vector store is any
  implementation of the contract in VectorStore. An operation reads the clock once.
\<close>

section \<open>Namespaces and state\<close>

record namespace_config =
  nc_name :: string
  nc_embedding :: string
  nc_store :: string
  nc_prune_after :: millis
  nc_max_stores :: nat

record run_counter =
  ct_counts :: "(string, nat) jsmap"
  ct_touched :: millis

record 's memory_service =
  sv_namespaces :: "(string, namespace_config) jsmap"
  sv_counters :: "(string, run_counter) jsmap"
  sv_stores :: "(string, 's) jsmap"
  sv_bus :: bus

text \<open>An embedding provider turns a text into a vector, or throws with a message.\<close>

record 's memory_env =
  mv_embed :: "string \<Rightarrow> (string \<Rightarrow> string + vector) option"
  mv_step :: "vs_op \<Rightarrow> 's \<Rightarrow> vs_answer \<times> 's"
  mv_refusal :: "vs_op \<Rightarrow> string"

datatype provider_kind = Embedding_provider | Vector_store_provider

datatype memory_error =
    Unknown_namespace string
  | Rate_limit_exceeded string string nat
  | Provider_not_registered provider_kind string
  | Backend_error string

definition quoted :: "string \<Rightarrow> string" where "quoted s = CHR 0x27 # s @ [CHR 0x27]"

definition memory_error_text :: "memory_error \<Rightarrow> string" where
  "memory_error_text e =
     (case e of
        Unknown_namespace ns \<Rightarrow> ''Unknown memory namespace: '' @ ns
      | Rate_limit_exceeded ns t n \<Rightarrow>
          ''Memory store rate limit exceeded for namespace '' @ quoted ns @ '' (traceId='' @ t @ '', limit='' @ string_of_nat n @ '')''
      | Provider_not_registered k n \<Rightarrow>
          ''No '' @ (case k of Embedding_provider \<Rightarrow> ''embedding'' | Vector_store_provider \<Rightarrow> ''vector-store'') @
          '' provider registered with name '' @ quoted n
      | Backend_error m \<Rightarrow> m)"

definition counter_ttl :: millis where "counter_ttl = 600000"

definition new_memory_service :: "namespace_config list \<Rightarrow> (string, 's) jsmap \<Rightarrow> bus \<Rightarrow> 's memory_service" where
  "new_memory_service ncs stores b =
     \<lparr>sv_namespaces = fold (\<lambda>n. AList.update (nc_name n) n) ncs [], sv_counters = [], sv_stores = stores, sv_bus = b\<rparr>"

section \<open>The store budget\<close>

definition evict_stale_counters :: "millis \<Rightarrow> (string, run_counter) jsmap \<Rightarrow> (string, run_counter) jsmap" where
  "evict_stale_counters now cs = filter (\<lambda>(t, c). \<not> ct_touched c < now - counter_ttl) cs"

definition count_in :: "string \<Rightarrow> run_counter \<Rightarrow> nat" where
  "count_in ns c = (case map_of (ct_counts c) ns of Some n \<Rightarrow> n | None \<Rightarrow> 0)"

definition consume_rate_budget ::
  "millis \<Rightarrow> string \<Rightarrow> string \<Rightarrow> nat \<Rightarrow> (string, run_counter) jsmap \<Rightarrow> (memory_error + unit) \<times> (string, run_counter) jsmap" where
  "consume_rate_budget now trace ns limit cs =
     (let kept = evict_stale_counters now cs;
          c = (case map_of kept trace of Some c \<Rightarrow> c | None \<Rightarrow> \<lparr>ct_counts = [], ct_touched = now\<rparr>);
          entered = AList.update trace c kept
      in if limit \<le> count_in ns c then (Inl (Rate_limit_exceeded ns trace limit), entered)
         else (Inr (), AList.update trace \<lparr>ct_counts = AList.update ns (count_in ns c + 1) (ct_counts c), ct_touched = now\<rparr> entered))"

section \<open>Operations\<close>

definition publish_memory :: "memory_event \<Rightarrow> 's memory_service \<Rightarrow> 's memory_service" where
  "publish_memory e s = s\<lparr>sv_bus := publish (Memory_ev e) (sv_bus s)\<rparr>"

definition publish_error ::
  "memory_op \<Rightarrow> string \<Rightarrow> string \<Rightarrow> millis \<Rightarrow> memory_error \<Rightarrow> 's memory_service \<Rightarrow> 's memory_service" where
  "publish_error op ns trace now e = publish_memory (Memory_error now trace (Some ns) op (memory_error_text e))"

definition require_embedding :: "'s memory_env \<Rightarrow> namespace_config \<Rightarrow> memory_error + (string \<Rightarrow> string + vector)" where
  "require_embedding env c =
     (case mv_embed env (nc_embedding c) of
        None \<Rightarrow> Inl (Provider_not_registered Embedding_provider (nc_embedding c)) | Some f \<Rightarrow> Inr f)"

definition require_store :: "namespace_config \<Rightarrow> 's memory_service \<Rightarrow> memory_error + 's" where
  "require_store c s =
     (case map_of (sv_stores s) (nc_store c) of
        None \<Rightarrow> Inl (Provider_not_registered Vector_store_provider (nc_store c)) | Some v \<Rightarrow> Inr v)"

definition embed_text :: "(string \<Rightarrow> string + vector) \<Rightarrow> string \<Rightarrow> memory_error + vector" where
  "embed_text f t = (case f t of Inl m \<Rightarrow> Inl (Backend_error m) | Inr v \<Rightarrow> Inr v)"

text \<open>An operation on the namespace's store: its answer, or the exception it ends with.\<close>

definition use_store ::
  "'s memory_env \<Rightarrow> namespace_config \<Rightarrow> vs_op \<Rightarrow> 's memory_service \<Rightarrow> (memory_error + vs_answer) \<times> 's memory_service" where
  "use_store env c op s =
     (case require_store c s of
        Inl e \<Rightarrow> (Inl e, s)
      | Inr v \<Rightarrow>
          (case mv_step env op v of
             (a, v') \<Rightarrow> (if a = Failed then Inl (Backend_error (mv_refusal env op)) else Inr a,
                        s\<lparr>sv_stores := AList.update (nc_store c) v' (sv_stores s)\<rparr>)))"

definition store_memory ::
  "'s memory_env \<Rightarrow> millis \<Rightarrow> string \<Rightarrow> string \<Rightarrow> string \<Rightarrow> props option \<Rightarrow> string \<Rightarrow> 's memory_service \<Rightarrow>
   (memory_error + string) \<times> 's memory_service" where
  "store_memory env now trace ns t meta uuid s =
     (case map_of (sv_namespaces s) ns of
        None \<Rightarrow> (Inl (Unknown_namespace ns), s)
      | Some c \<Rightarrow>
          (case consume_rate_budget now trace ns (nc_max_stores c) (sv_counters s) of
             (Inl e, cs) \<Rightarrow> (Inl e, s\<lparr>sv_counters := cs\<rparr>)
           | (Inr _, cs) \<Rightarrow>
               (let s1 = s\<lparr>sv_counters := cs\<rparr> in
                case and_then (require_embedding env c) (\<lambda>f. and_then (require_store c s1) (\<lambda>_. embed_text f t)) of
                  Inl e \<Rightarrow> (Inl e, publish_error Op_store ns trace now e s1)
                | Inr v \<Rightarrow>
                    (case use_store env c (Upsert_entry \<lparr>me_id = uuid, me_namespace = ns, me_text = t,
                            me_metadata = JObj (case meta of Some m \<Rightarrow> m | None \<Rightarrow> []), me_vector = v,
                            me_created = now, me_accessed = now\<rparr>) s1 of
                       (Inl e, s2) \<Rightarrow> (Inl e, publish_error Op_store ns trace now e s2)
                     | (Inr _, s2) \<Rightarrow> (Inr uuid, publish_memory (Memory_stored now trace ns uuid (length t)) s2)))))"

definition default_top_k :: nat where "default_top_k = 5"
definition default_min_similarity :: rat where "default_min_similarity = 7 / 10"

definition search_memory ::
  "'s memory_env \<Rightarrow> millis \<Rightarrow> string option \<Rightarrow> string \<Rightarrow> string \<Rightarrow> nat option \<Rightarrow> rat option \<Rightarrow> 's memory_service \<Rightarrow>
   (memory_error + search_hit list) \<times> 's memory_service" where
  "search_memory env now trace ns q k low s =
     (let tr = (case trace of Some x \<Rightarrow> x | None \<Rightarrow> ''no-trace'');
          top_k = (case k of Some n \<Rightarrow> n | None \<Rightarrow> default_top_k);
          least = (case low of Some x \<Rightarrow> x | None \<Rightarrow> default_min_similarity)
      in case map_of (sv_namespaces s) ns of
           None \<Rightarrow> (Inl (Unknown_namespace ns), s)
         | Some c \<Rightarrow>
             (case and_then (require_embedding env c) (\<lambda>f. and_then (require_store c s) (\<lambda>_. embed_text f q)) of
                Inl e \<Rightarrow> (Inl e, publish_error Op_search ns tr now e s)
              | Inr v \<Rightarrow>
                  (case use_store env c (Search_entries now ns v top_k least) s of
                     (Inl e, s1) \<Rightarrow> (Inl e, publish_error Op_search ns tr now e s1)
                   | (Inr a, s1) \<Rightarrow>
                       (let hits = (case a of Hits hs \<Rightarrow> hs | _ \<Rightarrow> []) in
                        (Inr hits, publish_memory (Memory_retrieved now tr ns (length q) (length hits)
                           (case hits of [] \<Rightarrow> None | h # _ \<Rightarrow> Some (sh_score h))) s1)))))"

definition delete_memory ::
  "'s memory_env \<Rightarrow> millis \<Rightarrow> string \<Rightarrow> string \<Rightarrow> 's memory_service \<Rightarrow> (memory_error + bool) \<times> 's memory_service" where
  "delete_memory env now ns i s =
     (case map_of (sv_namespaces s) ns of
        None \<Rightarrow> (Inl (Unknown_namespace ns), s)
      | Some c \<Rightarrow>
          (case use_store env c (Delete_entry i ns) s of
             (Inl e, s1) \<Rightarrow> (Inl e, publish_error Op_delete ns ''admin'' now e s1)
           | (Inr a, s1) \<Rightarrow> (Inr (a = Removed True), s1)))"

text \<open>\<open>finish\<close> is the clock after the store has answered.\<close>

definition prune_memory ::
  "'s memory_env \<Rightarrow> millis \<Rightarrow> millis \<Rightarrow> string \<Rightarrow> 's memory_service \<Rightarrow> (memory_error + nat) \<times> 's memory_service" where
  "prune_memory env now finish ns s =
     (case map_of (sv_namespaces s) ns of
        None \<Rightarrow> (Inl (Unknown_namespace ns), s)
      | Some c \<Rightarrow>
          (case use_store env c (Prune_entries ns (now - nc_prune_after c)) s of
             (Inl e, s1) \<Rightarrow> (Inl e, publish_error Op_prune ns ''pruning'' finish e s1)
           | (Inr a, s1) \<Rightarrow>
               (let n = (case a of Number k \<Rightarrow> k | _ \<Rightarrow> 0) in
                (Inr n, publish_memory (Memory_pruned finish ''pruning'' ns n (finish - now)) s1))))"

text \<open>One tick of the pruning scheduler: a namespace that fails does not stop the others.\<close>

definition prune_all :: "'s memory_env \<Rightarrow> millis \<Rightarrow> namespace_config list \<Rightarrow> 's memory_service \<Rightarrow> 's memory_service" where
  "prune_all env now ncs s = fold (\<lambda>n s. snd (prune_memory env now now (nc_name n) s)) ncs s"

section \<open>Runs\<close>

datatype memory_call =
    Store_call string string string "props option" string
  | Search_call "string option" string string "nat option" "rat option"
  | Delete_call string string
  | Prune_call string

datatype memory_reply =
    Stored_reply "memory_error + string"
  | Found_reply "memory_error + search_hit list"
  | Deleted_reply "memory_error + bool"
  | Pruned_reply "memory_error + nat"

fun serve_memory :: "'s memory_env \<Rightarrow> millis \<times> memory_call \<Rightarrow> 's memory_service \<Rightarrow> memory_reply \<times> 's memory_service" where
  "serve_memory env (now, Store_call trace ns t meta uuid) s =
     (case store_memory env now trace ns t meta uuid s of (r, s') \<Rightarrow> (Stored_reply r, s'))"
| "serve_memory env (now, Search_call trace ns q k low) s =
     (case search_memory env now trace ns q k low s of (r, s') \<Rightarrow> (Found_reply r, s'))"
| "serve_memory env (now, Delete_call ns i) s = (case delete_memory env now ns i s of (r, s') \<Rightarrow> (Deleted_reply r, s'))"
| "serve_memory env (now, Prune_call ns) s = (case prune_memory env now now ns s of (r, s') \<Rightarrow> (Pruned_reply r, s'))"

lemma publish_memory_frame [simp]:
  "sv_namespaces (publish_memory e s) = sv_namespaces s" "sv_counters (publish_memory e s) = sv_counters s"
  "sv_stores (publish_memory e s) = sv_stores s" "sv_namespaces (publish_error op ns tr now x s) = sv_namespaces s"
  "sv_counters (publish_error op ns tr now x s) = sv_counters s" "sv_stores (publish_error op ns tr now x s) = sv_stores s"
  by (simp_all add: publish_memory_def publish_error_def)

lemma use_store_frame:
  assumes "use_store env c op s = (r, s')" shows "sv_namespaces s' = sv_namespaces s" "sv_counters s' = sv_counters s"
  using assms by (auto simp: use_store_def split: sum.splits prod.splits)

lemma serve_namespaces: "sv_namespaces (snd (serve_memory env x s)) = sv_namespaces s"
proof (cases x)
  case (Pair now call)
  show ?thesis unfolding Pair
    by (cases call) (auto simp: store_memory_def search_memory_def delete_memory_def prune_memory_def Let_def
        split: option.split sum.split prod.split dest: use_store_frame)
qed

section \<open>The budget of a run\<close>

text \<open>A store call that the budget of its run and namespace let through.\<close>

fun admitted :: "string \<Rightarrow> string \<Rightarrow> memory_call \<Rightarrow> memory_reply \<Rightarrow> bool" where
  "admitted trace ns (Store_call tr n t meta uuid) (Stored_reply r) \<longleftrightarrow> tr = trace \<and> n = ns \<and>
     (case r of Inl (Unknown_namespace _) \<Rightarrow> False | Inl (Rate_limit_exceeded _ _ _) \<Rightarrow> False | _ \<Rightarrow> True)"
| "admitted trace ns _ _ \<longleftrightarrow> False"

definition admissions :: "'s memory_env \<Rightarrow> string \<Rightarrow> string \<Rightarrow> (millis \<times> memory_call) list \<Rightarrow> 's memory_service \<Rightarrow> nat" where
  "admissions env trace ns calls s =
     length (filter (\<lambda>(x, r). admitted trace ns (snd x) r) (zip calls (fst (run_ops (serve_memory env) calls s))))"

text \<open>The count that cannot be evicted before ten minutes after \<open>start\<close>.\<close>

definition live_count :: "millis \<Rightarrow> string \<Rightarrow> string \<Rightarrow> (string, run_counter) jsmap \<Rightarrow> nat" where
  "live_count start trace ns cs =
     (case map_of cs trace of Some c \<Rightarrow> if start \<le> ct_touched c then count_in ns c else 0 | None \<Rightarrow> 0)"

lemma map_of_evict:
  "distinct (map fst cs) \<Longrightarrow> map_of (evict_stale_counters now cs) t =
     (case map_of cs t of Some c \<Rightarrow> if ct_touched c < now - counter_ttl then None else Some c | None \<Rightarrow> None)"
proof (induction cs)
  case (Cons p cs)
  obtain k c where p: "p = (k, c)" by (cases p)
  have "map_of cs k = None" using Cons.prems by (simp add: p map_of_eq_None_iff)
  then show ?case using Cons by (auto simp: p evict_stale_counters_def)
qed (simp add: evict_stale_counters_def)

lemma evict_distinct: "distinct (map fst cs) \<Longrightarrow> distinct (map fst (evict_stale_counters now cs))"
  by (simp add: evict_stale_counters_def distinct_map_filter)

lemma count_in_update: "count_in ns \<lparr>ct_counts = AList.update m k f, ct_touched = t\<rparr> = (if ns = m then k else (case map_of f ns of Some n \<Rightarrow> n | None \<Rightarrow> 0))"
  by (simp add: count_in_def)

lemma consume_cases:
  assumes "consume_rate_budget now tr n limit cs = (r, cs')" "distinct (map fst cs)"
  obtains c where "distinct (map fst cs')" "map_of cs' = (map_of (evict_stale_counters now cs))(tr \<mapsto> c)"
    "r = Inr () \<Longrightarrow> ct_touched c = now"
    "map_of (evict_stale_counters now cs) tr = None \<Longrightarrow> ct_touched c = now"
    "count_in n c \<le> max limit (case map_of (evict_stale_counters now cs) tr of Some b \<Rightarrow> count_in n b | None \<Rightarrow> 0)"
    "r = Inr () \<Longrightarrow> count_in n c \<le> limit"
    "\<And>m. count_in m c = (case map_of (evict_stale_counters now cs) tr of Some b \<Rightarrow> count_in m b | None \<Rightarrow> 0)
       + (if m = n \<and> r = Inr () then 1 else 0)"
    "\<And>b. map_of (evict_stale_counters now cs) tr = Some b \<Longrightarrow> ct_touched c \<in> {now, ct_touched b}"
proof -
  let ?kept = "evict_stale_counters now cs"
  define b where "b = (case map_of ?kept tr of Some c \<Rightarrow> c | None \<Rightarrow> \<lparr>ct_counts = [], ct_touched = now\<rparr>)"
  have none: "count_in m \<lparr>ct_counts = [], ct_touched = now\<rparr> = 0" for m by (simp add: count_in_def)
  have cb: "count_in m b = (case map_of ?kept tr of Some b \<Rightarrow> count_in m b | None \<Rightarrow> 0)" for m
    by (auto simp: b_def none split: option.split)
  have d: "distinct (map fst ?kept)" by (rule evict_distinct[OF assms(2)])
  show thesis
  proof (cases "limit \<le> count_in n b")
    case True
    then have r: "r = Inl (Rate_limit_exceeded n tr limit)" "cs' = AList.update tr b ?kept"
      using assms(1) by (auto simp: consume_rate_budget_def Let_def b_def[symmetric])
    show thesis
      by (rule that[of b]) (use r d cb in \<open>auto simp: distinct_update b_def split: option.splits\<close>)
  next
    case False
    define c where "c = \<lparr>ct_counts = AList.update n (count_in n b + 1) (ct_counts b), ct_touched = now\<rparr>"
    have r: "r = Inr ()" "cs' = AList.update tr c (AList.update tr b ?kept)"
      using assms(1) False by (auto simp: consume_rate_budget_def Let_def b_def[symmetric] c_def)
    have cc: "count_in m c = count_in m b + (if m = n then 1 else 0)" for m
      by (simp add: c_def count_in_def)
    show thesis
      by (rule that[of c]) (use r d cb cc False in \<open>auto simp: distinct_update c_def\<close>)
  qed
qed

lemma consume_live:
  assumes "distinct (map fst cs)" "start \<le> now" "now \<le> start + counter_ttl"
    and "consume_rate_budget now tr n limit cs = (r, cs')"
  shows "distinct (map fst cs')"
    and "live_count start trace ns cs + (if tr = trace \<and> n = ns \<and> r = Inr () then 1 else 0) \<le> live_count start trace ns cs'"
    and "tr = trace \<Longrightarrow> n = ns \<Longrightarrow> r = Inr () \<Longrightarrow> live_count start trace ns cs' \<le> limit"
proof -
  from assms(4,1) obtain c where c: "distinct (map fst cs')" "map_of cs' = (map_of (evict_stale_counters now cs))(tr \<mapsto> c)"
    "r = Inr () \<Longrightarrow> ct_touched c = now" "r = Inr () \<Longrightarrow> count_in n c \<le> limit"
    "\<And>m. count_in m c = (case map_of (evict_stale_counters now cs) tr of Some b \<Rightarrow> count_in m b | None \<Rightarrow> 0)
       + (if m = n \<and> r = Inr () then 1 else 0)"
    "\<And>b. map_of (evict_stale_counters now cs) tr = Some b \<Longrightarrow> ct_touched c \<in> {now, ct_touched b}"
    by (rule consume_cases) blast
  show "distinct (map fst cs')" by (rule c(1))
  have kept: "map_of (evict_stale_counters now cs) t = map_of cs t" if "map_of cs t = Some b" "start \<le> ct_touched b" for t b
    using that assms(1,3) by (auto simp: map_of_evict)
  have le: "live_count start trace ns cs \<le> (case map_of (evict_stale_counters now cs) trace of Some b \<Rightarrow> count_in ns b | None \<Rightarrow> 0)"
    using kept by (auto simp: live_count_def split: option.split)
  show "live_count start trace ns cs + (if tr = trace \<and> n = ns \<and> r = Inr () then 1 else 0) \<le> live_count start trace ns cs'"
  proof (cases "tr = trace")
    case True
    show ?thesis
    proof (cases "start \<le> ct_touched c")
      case True
      then show ?thesis using le \<open>tr = trace\<close> c(2) c(5)[of ns] by (auto simp: live_count_def)
    next
      case False
      then have "r \<noteq> Inr ()" using c(3) assms(2) by auto
      moreover have "live_count start trace ns cs = 0"
        using kept c(6) False \<open>tr = trace\<close> assms(2) by (fastforce simp: live_count_def split: option.split)
      ultimately show ?thesis by simp
    qed
  next
    case False
    then show ?thesis using kept c(2) by (auto simp: live_count_def split: option.split)
  qed
  show "tr = trace \<Longrightarrow> n = ns \<Longrightarrow> r = Inr () \<Longrightarrow> live_count start trace ns cs' \<le> limit"
    using c(2,4) by (auto simp: live_count_def)
qed

lemma serve_counters:
  assumes "serve_memory env (now, call) s = (r, s')"
  obtains (same) "sv_counters s' = sv_counters s" "\<And>trace ns. \<not> admitted trace ns call r"
    | (consumed) tr n t meta uuid c x where "call = Store_call tr n t meta uuid" "map_of (sv_namespaces s) n = Some c"
      "consume_rate_budget now tr n (nc_max_stores c) (sv_counters s) = (x, sv_counters s')"
      "\<And>trace ns. admitted trace ns call r \<longleftrightarrow> tr = trace \<and> n = ns \<and> x = Inr ()"
proof (cases call)
  case (Store_call tr n t meta uuid)
  show thesis
  proof (cases "map_of (sv_namespaces s) n")
    case None
    then show thesis using assms by (intro same) (auto simp: Store_call store_memory_def)
  next
    case (Some c)
    obtain x cs where x: "consume_rate_budget now tr n (nc_max_stores c) (sv_counters s) = (x, cs)" by fastforce
    have err: "e = Rate_limit_exceeded n tr (nc_max_stores c)" if "x = Inl e" for e
      using x that by (auto simp: consume_rate_budget_def Let_def split: if_splits)
    show thesis
    proof (rule consumed[OF Store_call Some])
      show "consume_rate_budget now tr n (nc_max_stores c) (sv_counters s) = (x, sv_counters s')"
        using assms x by (auto simp: Store_call store_memory_def Some Let_def split: sum.splits prod.splits dest: use_store_frame)
      show "admitted trace ns call r \<longleftrightarrow> tr = trace \<and> n = ns \<and> x = Inr ()" for trace ns
        using assms x err
        by (cases x) (auto simp: Store_call store_memory_def Some Let_def use_store_def require_embedding_def require_store_def
            embed_text_def and_then_Inr split: sum.splits prod.splits option.splits if_splits)
    qed
  qed
qed (use assms that(1) in \<open>auto simp: search_memory_def delete_memory_def prune_memory_def Let_def
      split: option.splits sum.splits prod.splits dest: use_store_frame\<close>)

lemma admissions_Cons:
  "serve_memory env x s = (r, s') \<Longrightarrow> admissions env trace ns (x # calls) s =
     (if admitted trace ns (snd x) r then 1 else 0) + admissions env trace ns calls s'"
  by (cases "run_ops (serve_memory env) calls s'") (simp add: admissions_def)

lemma budget_from:
  assumes "distinct (map fst (sv_counters s))" "map_of (sv_namespaces s) ns = Some c"
    and "list_all (\<lambda>(now, _). start \<le> now \<and> now \<le> start + counter_ttl) calls"
  shows "admissions env trace ns calls s \<le> nc_max_stores c - live_count start trace ns (sv_counters s)"
  using assms
proof (induction calls arbitrary: s)
  case Nil
  then show ?case by (simp add: admissions_def)
next
  case (Cons x calls)
  obtain now call where x: "x = (now, call)" by (cases x)
  obtain r s' where run: "serve_memory env (now, call) s = (r, s')" by fastforce
  have ns': "map_of (sv_namespaces s') ns = Some c"
    using serve_namespaces[of env "(now, call)" s] Cons.prems(2) by (simp add: run)
  have window: "start \<le> now" "now \<le> start + counter_ttl" using Cons.prems(3) by (simp_all add: x)
  have rest: "distinct (map fst (sv_counters s')) \<Longrightarrow>
      admissions env trace ns calls s' \<le> nc_max_stores c - live_count start trace ns (sv_counters s')"
    using Cons.IH[OF _ ns'] Cons.prems(3) by simp
  from run show ?case
  proof (cases rule: serve_counters)
    case same
    then show ?thesis using rest Cons.prems(1) by (simp add: admissions_Cons[OF run] x)
  next
    case (consumed tr n t meta uuid c' y)
    note live = consume_live[OF Cons.prems(1) window consumed(3)]
    show ?thesis
    proof (cases "tr = trace \<and> n = ns \<and> y = Inr ()")
      case True
      then have "c' = c" using consumed(2) Cons.prems(2) by simp
      then show ?thesis
        using rest live(1) live(2)[of trace ns] live(3)[of trace ns] True consumed(4)[of trace ns]
        by (simp add: admissions_Cons[OF run] x)
    next
      case False
      show ?thesis
      proof -
        have "admissions env trace ns calls s' \<le> nc_max_stores c - live_count start trace ns (sv_counters s')"
          by (rule rest[OF live(1)])
        also have "\<dots> \<le> nc_max_stores c - live_count start trace ns (sv_counters s)"
          using live(2)[of trace ns] by (intro diff_le_mono2) simp
        finally show ?thesis using False consumed(4)[of trace ns] by (auto simp: admissions_Cons[OF run] x)
      qed
    qed
  qed
qed

lemma run_counters:
  "distinct (map fst (sv_counters s)) \<Longrightarrow> distinct (map fst (sv_counters (snd (run_ops (serve_memory env) calls s)))) \<and>
   sv_namespaces (snd (run_ops (serve_memory env) calls s)) = sv_namespaces s"
proof (induction calls arbitrary: s)
  case (Cons x calls)
  obtain now call where x: "x = (now, call)" by (cases x)
  obtain r s' where run: "serve_memory env (now, call) s = (r, s')" by fastforce
  have "distinct (map fst (sv_counters s'))"
    using run
  proof (cases rule: serve_counters)
    case (consumed tr n t meta uuid c y)
    from consumed(3) Cons.prems show ?thesis by (rule consume_cases)
  qed (use Cons.prems in simp)
  from Cons.IH[OF this] show ?case
    using serve_namespaces[of env "(now, call)" s] run
    by (cases "run_ops (serve_memory env) calls s'") (simp add: x)
qed simp

text \<open>C36: Whatever the service has done before, the calls of any ten minutes let through at most
  \<open>maxStoresPerRun\<close> stores of one run into one namespace, however the calls of other runs and
  other namespaces come in between and whether or not the stores succeed.\<close>

theorem store_budget:
  assumes "s = snd (run_ops (serve_memory env) before (new_memory_service ncs stores b))"
    and "map_of (sv_namespaces s) ns = Some c"
    and "list_all (\<lambda>(now, _). start \<le> now \<and> now \<le> start + counter_ttl) calls"
  shows "admissions env trace ns calls s \<le> nc_max_stores c"
proof -
  have "distinct (map fst (sv_counters s))"
    using run_counters[of "new_memory_service ncs stores b" env before] by (simp add: assms(1) new_memory_service_def)
  from budget_from[OF this assms(2,3)] show ?thesis by (meson diff_le_self le_trans)
qed

definition sample_namespace :: namespace_config where
  "sample_namespace = \<lparr>nc_name = ''chats'', nc_embedding = ''null-fake'', nc_store = ''store'',
     nc_prune_after = 1000, nc_max_stores = 1\<rparr>"

definition sample_memory_env :: "mem_store memory_env" where
  "sample_memory_env = \<lparr>mv_embed = (\<lambda>n. if n = ''null-fake'' then Some (\<lambda>t. Inr [int (length t)]) else None),
     mv_step = mem_step sample_cosine, mv_refusal = (\<lambda>_. ''dimensions'')\<rparr>"

definition sample_memory_service :: "mem_store memory_service" where
  "sample_memory_service = new_memory_service [sample_namespace] [(''store'', mem_empty)] (new_bus (Some 5) None)"

definition sample_store_call :: "string \<Rightarrow> memory_call" where
  "sample_store_call uuid = Store_call ''run'' ''chats'' ''hello'' None uuid"

theorem store_budget_witness:
  "admissions sample_memory_env ''run'' ''chats'' [(5, sample_store_call ''a''), (600005, sample_store_call ''b'')] sample_memory_service \<le> 1"
proof -
  have ns: "map_of (sv_namespaces sample_memory_service) ''chats'' = Some sample_namespace"
    by (simp add: sample_memory_service_def new_memory_service_def sample_namespace_def)
  have "sample_memory_service = snd (run_ops (serve_memory sample_memory_env) []
      (new_memory_service [sample_namespace] [(''store'', mem_empty)] (new_bus (Some 5) None)))"
    by (simp add: sample_memory_service_def)
  from store_budget[OF this ns, where start = 5 and calls = "[(5, sample_store_call ''a''), (600005, sample_store_call ''b'')]"]
  show ?thesis by (simp add: counter_ttl_def sample_namespace_def)
qed

text \<open>A later call finds the counter evicted and the budget of the same run renewed; a call that
  was refused has not renewed it.\<close>

lemma budget_renewed:
  "fst (run_ops (serve_memory sample_memory_env)
     [(5, sample_store_call ''a''), (600005, sample_store_call ''b''), (600006, sample_store_call ''c'')] sample_memory_service)
   = [Stored_reply (Inr ''a''), Stored_reply (Inl (Rate_limit_exceeded ''chats'' ''run'' 1)), Stored_reply (Inr ''c'')]"
  by code_simp

section \<open>What was retrieved is kept\<close>

text \<open>Calls of the shape the service's callers make: ids without colons, metadata that JSON can
  carry; and calls that neither delete nor replace an entry.\<close>

fun call_wf :: "memory_call \<Rightarrow> bool" where
  "call_wf (Store_call trace ns t meta uuid) \<longleftrightarrow> CHR '':'' \<notin> set uuid \<and> (case meta of None \<Rightarrow> True | Some m \<Rightarrow> wf_json (JObj m))"
| "call_wf (Delete_call ns i) \<longleftrightarrow> CHR '':'' \<notin> set i"
| "call_wf _ \<longleftrightarrow> True"

fun call_spares :: "string \<Rightarrow> string \<Rightarrow> memory_call \<Rightarrow> bool" where
  "call_spares ns i (Store_call trace n t meta uuid) \<longleftrightarrow> uuid \<noteq> i"
| "call_spares ns i (Delete_call n j) \<longleftrightarrow> n \<noteq> ns \<or> j \<noteq> i"
| "call_spares ns i _ \<longleftrightarrow> True"

text \<open>Every embedding has the same number of dimensions and survives as 32-bit floats.\<close>

definition embeds :: "'s memory_env \<Rightarrow> (vector \<Rightarrow> vector) \<Rightarrow> nat \<Rightarrow> bool" where
  "embeds env narrow d \<longleftrightarrow> (\<forall>p f t v. mv_embed env p = Some f \<longrightarrow> f t = Inr v \<longrightarrow> length v = d \<and> narrow v = v)"

definition uniform :: "nat \<Rightarrow> store_spec \<Rightarrow> bool" where
  "uniform d p \<longleftrightarrow> (\<forall>ns. list_all (\<lambda>e. length (me_vector e) = d) (sp_entries p ns))"

definition remembered :: "millis \<Rightarrow> string \<Rightarrow> string \<Rightarrow> string \<Rightarrow> store_spec \<Rightarrow> bool" where
  "remembered t ns i tx p \<longleftrightarrow> (\<exists>e \<in> set (sp_entries p ns). me_id e = i \<and> me_text e = tx \<and> t \<le> me_accessed e)"

text \<open>The operation a call asks of a store, when it gets that far.\<close>

fun asks :: "'s memory_env \<Rightarrow> namespace_config \<Rightarrow> millis \<Rightarrow> memory_call \<Rightarrow> vs_op \<Rightarrow> bool" where
  "asks env c now (Store_call trace ns t meta uuid) op \<longleftrightarrow>
     (\<exists>f v. mv_embed env (nc_embedding c) = Some f \<and> f t = Inr v \<and>
       op = Upsert_entry \<lparr>me_id = uuid, me_namespace = ns, me_text = t,
         me_metadata = JObj (case meta of Some m \<Rightarrow> m | None \<Rightarrow> []), me_vector = v, me_created = now, me_accessed = now\<rparr>)"
| "asks env c now (Search_call trace ns q k low) op \<longleftrightarrow>
     (\<exists>f v n x. mv_embed env (nc_embedding c) = Some f \<and> f q = Inr v \<and> op = Search_entries now ns v n x)"
| "asks env c now (Delete_call ns i) op \<longleftrightarrow> op = Delete_entry i ns"
| "asks env c now (Prune_call ns) op \<longleftrightarrow> op = Prune_entries ns (now - nc_prune_after c)"

fun call_namespace :: "memory_call \<Rightarrow> string" where
  "call_namespace (Store_call trace ns t meta uuid) = ns"
| "call_namespace (Search_call trace ns q k low) = ns"
| "call_namespace (Delete_call ns i) = ns"
| "call_namespace (Prune_call ns) = ns"

text \<open>The change a call makes to the stores: none, or one operation on its namespace's store.\<close>

definition store_change :: "'s memory_env \<Rightarrow> namespace_config \<Rightarrow> vs_op \<Rightarrow> 's memory_service \<Rightarrow> 's memory_service \<Rightarrow> bool" where
  "store_change env c op s s' \<longleftrightarrow> sv_stores s' = sv_stores s \<or>
     (\<exists>v. map_of (sv_stores s) (nc_store c) = Some v \<and>
       sv_stores s' = AList.update (nc_store c) (snd (mv_step env op v)) (sv_stores s))"

lemma use_store_change:
  "use_store env c op s = (r, s') \<Longrightarrow> store_change env c op s s'"
  by (auto simp: use_store_def require_store_def store_change_def split: option.splits prod.splits if_splits)

lemma store_change_cong:
  "store_change env c op s0 s1 \<Longrightarrow> sv_stores s0 = sv_stores s \<Longrightarrow> sv_stores s' = sv_stores s1 \<Longrightarrow> store_change env c op s s'"
  by (simp add: store_change_def)

lemma serve_change:
  assumes "serve_memory env (now, call) s = (r, s')"
  shows "sv_stores s' = sv_stores s \<or>
    (\<exists>c op. map_of (sv_namespaces s) (call_namespace call) = Some c \<and> asks env c now call op \<and> store_change env c op s s')"
proof (cases "map_of (sv_namespaces s) (call_namespace call)")
  case None
  then show ?thesis
    using assms by (cases call) (auto simp: store_memory_def search_memory_def delete_memory_def prune_memory_def Let_def)
next
  case (Some c)
  have via: "sv_stores s' = sv_stores s \<or> (\<exists>op. asks env c now call op \<and> store_change env c op s s')"
    if "asks env c now call op" "use_store env c op s0 = (x, s1)" "sv_stores s0 = sv_stores s" "sv_stores s' = sv_stores s1" for op s0 x s1
    using that store_change_cong[OF use_store_change] by blast
  have "sv_stores s' = sv_stores s \<or> (\<exists>op. asks env c now call op \<and> store_change env c op s s')"
  proof (cases call)
    case (Store_call trace ns t meta uuid)
    obtain x cs where x: "consume_rate_budget now trace ns (nc_max_stores c) (sv_counters s) = (x, cs)" by fastforce
    let ?s1 = "s\<lparr>sv_counters := cs\<rparr>"
    show ?thesis
    proof (cases "isl x \<or> isl (and_then (require_embedding env c) (\<lambda>f. and_then (require_store c ?s1) (\<lambda>_. embed_text f t)))")
      case True
      then show ?thesis
        using assms Some x by (cases x) (auto simp: Store_call store_memory_def Let_def isl_def)
    next
      case False
      then obtain v where v: "and_then (require_embedding env c) (\<lambda>f. and_then (require_store c ?s1) (\<lambda>_. embed_text f t)) = Inr v"
        and xr: "x = Inr ()"
        by (cases x; cases "and_then (require_embedding env c) (\<lambda>f. and_then (require_store c ?s1) (\<lambda>_. embed_text f t))") simp_all
      let ?op = "Upsert_entry \<lparr>me_id = uuid, me_namespace = ns, me_text = t,
         me_metadata = JObj (case meta of Some m \<Rightarrow> m | None \<Rightarrow> []), me_vector = v, me_created = now, me_accessed = now\<rparr>"
      obtain y s2 where u: "use_store env c ?op ?s1 = (y, s2)" by fastforce
      have "asks env c now call ?op"
        using v by (auto simp: Store_call and_then_Inr require_embedding_def embed_text_def split: option.splits sum.splits)
      moreover have "sv_stores s' = sv_stores s2"
        using assms Some x xr v u by (cases y) (auto simp: Store_call store_memory_def Let_def)
      ultimately show ?thesis using via[OF _ u] by simp
    qed
  next
    case (Search_call trace ns q k low)
    show ?thesis
    proof (cases "and_then (require_embedding env c) (\<lambda>f. and_then (require_store c s) (\<lambda>_. embed_text f q))")
      case (Inl e)
      then show ?thesis using assms Some by (auto simp: Search_call search_memory_def Let_def)
    next
      case (Inr v)
      let ?op = "Search_entries now ns v (case k of Some n \<Rightarrow> n | None \<Rightarrow> default_top_k) (case low of Some x \<Rightarrow> x | None \<Rightarrow> default_min_similarity)"
      obtain y s2 where u: "use_store env c ?op s = (y, s2)" by fastforce
      have "asks env c now call ?op"
        using Inr by (auto simp: Search_call and_then_Inr require_embedding_def embed_text_def split: option.splits sum.splits)
      moreover have "sv_stores s' = sv_stores s2"
        using assms Some Inr u by (cases y) (auto simp: Search_call search_memory_def Let_def)
      ultimately show ?thesis using via[OF _ u] by simp
    qed
  next
    case (Delete_call ns i)
    obtain y s2 where u: "use_store env c (Delete_entry i ns) s = (y, s2)" by fastforce
    have "sv_stores s' = sv_stores s2"
      using assms Some u by (cases y) (auto simp: Delete_call delete_memory_def)
    then show ?thesis using via[OF _ u] by (simp add: Delete_call)
  next
    case (Prune_call ns)
    obtain y s2 where u: "use_store env c (Prune_entries ns (now - nc_prune_after c)) s = (y, s2)" by fastforce
    have "sv_stores s' = sv_stores s2"
      using assms Some u by (cases y) (auto simp: Prune_call prune_memory_def Let_def)
    then show ?thesis using via[OF _ u] by (simp add: Prune_call)
  qed
  then show ?thesis using Some by blast
qed

lemma spec_uniform:
  assumes "uniform d p" and "\<And>e. op = Upsert_entry e \<Longrightarrow> length (me_vector e) = d"
  shows "uniform d (snd (spec_step cosine op p))"
  using assms by (cases op) (auto simp: uniform_def Let_def list_all_iff put_entry_def touch_ids_def split: if_splits)

lemma asks_ok:
  assumes "asks env c now call op" "embeds env narrow d" "call_wf call" "uniform d p"
  shows "op_ok narrow op p" "uniform d (snd (spec_step cosine op p))"
proof -
  have emb: "length v = d" "narrow v = v" if "mv_embed env q = Some f" "f t = Inr v" for q f t v
    using that assms(2) by (auto simp: embeds_def)
  show "op_ok narrow op p"
    using assms(1,3,4) by (cases call) (auto simp: uniform_def emb split: option.splits)
  show "uniform d (snd (spec_step cosine op p))"
    using assms(1) by (intro spec_uniform[OF assms(4)]) (cases call, auto simp: emb)
qed

lemma asks_remembers:
  assumes "asks env c now call op" "call_spares ns i call" "remembered t ns i tx p"
    and "t \<le> now" "call_namespace call = ns \<Longrightarrow> now - nc_prune_after c \<le> t"
  shows "remembered t ns i tx (snd (spec_step cosine op p))"
proof -
  obtain e where e: "e \<in> set (sp_entries p ns)" "me_id e = i" "me_text e = tx" "t \<le> me_accessed e"
    using assms(3) by (auto simp: remembered_def)
  have touch: "remembered t ns i tx (p\<lparr>sp_entries := (sp_entries p)(n := touch_ids now I (sp_entries p n))\<rparr>)" for n I
  proof (cases "n = ns")
    case True
    show ?thesis unfolding remembered_def
      by (rule bexI[of _ "if me_id e \<in> I then e\<lparr>me_accessed := now\<rparr> else e"])
        (use e assms(4) True in \<open>auto simp: touch_ids_def\<close>)
  qed (use assms(3) in \<open>simp add: remembered_def\<close>)
  show ?thesis
    using assms(1,2,3,5) e touch
    by (cases call) (force simp: remembered_def Let_def put_entry_def)+
qed

definition sound_stores :: "('s \<Rightarrow> bool) \<Rightarrow> ('s \<Rightarrow> store_spec) \<Rightarrow> nat \<Rightarrow> 's memory_service \<Rightarrow> bool" where
  "sound_stores good view d s \<longleftrightarrow> (\<forall>k v. map_of (sv_stores s) k = Some v \<longrightarrow> good v \<and> uniform d (view v))"

definition held :: "('s \<Rightarrow> store_spec) \<Rightarrow> string \<Rightarrow> millis \<Rightarrow> string \<Rightarrow> string \<Rightarrow> string \<Rightarrow> 's memory_service \<Rightarrow> bool" where
  "held view store t ns i tx s \<longleftrightarrow> (\<exists>v. map_of (sv_stores s) store = Some v \<and> remembered t ns i tx (view v))"

lemma spec_hit_entry:
  "h \<in> set (spec_hits cosine q k low xs) \<Longrightarrow> \<exists>e \<in> set xs. sh_id h = me_id e \<and> sh_text h = me_text e"
  using top_ranked_subset by (force simp: spec_hits_ranked hit_of_def)

context vector_store begin

lemma serve_sound:
  assumes "mv_step env = step" "embeds env narrow d" "call_wf call" "sound_stores inv abs d s"
    and "serve_memory env (now, call) s = (r, s')"
  shows "sound_stores inv abs d s'"
  using serve_change[OF assms(5)]
proof (elim disjE exE conjE)
  fix c op assume op: "asks env c now call op" "store_change env c op s s'"
  show ?thesis
    using op(2) unfolding store_change_def
  proof (elim disjE exE conjE)
    fix v assume v: "map_of (sv_stores s) (nc_store c) = Some v"
      "sv_stores s' = AList.update (nc_store c) (snd (mv_step env op v)) (sv_stores s)"
    have ok: "inv v" "uniform d (abs v)" using assms(4) v(1) by (auto simp: sound_stores_def)
    note refines = step_refines[OF ok(1) asks_ok(1)[OF op(1) assms(2,3) ok(2)]]
    have "uniform d (abs (snd (step op v)))"
      using asks_ok(2)[OF op(1) assms(2,3) ok(2), of cosine] refines by simp
    then show ?thesis using assms(4) refines by (simp add: sound_stores_def v(2) assms(1))
  qed (use assms(4) in \<open>simp add: sound_stores_def\<close>)
qed (use assms(4) in \<open>simp add: sound_stores_def\<close>)

lemma serve_held:
  assumes "mv_step env = step" "embeds env narrow d" "call_wf call" "sound_stores inv abs d s"
    and "serve_memory env (now, call) s = (r, s')"
    and "map_of (sv_namespaces s) ns = Some c" "held abs store t ns i tx s" "call_spares ns i call"
    and "t \<le> now" "now \<le> t + nc_prune_after c"
  shows "held abs store t ns i tx s'"
  using serve_change[OF assms(5)]
proof (elim disjE exE conjE)
  fix b op assume b: "map_of (sv_namespaces s) (call_namespace call) = Some b"
    and op: "asks env b now call op" "store_change env b op s s'"
  obtain w where w: "map_of (sv_stores s) store = Some w" "remembered t ns i tx (abs w)"
    using assms(7) by (auto simp: held_def)
  show ?thesis
    using op(2) unfolding store_change_def
  proof (elim disjE exE conjE)
    fix v assume v: "map_of (sv_stores s) (nc_store b) = Some v"
      "sv_stores s' = AList.update (nc_store b) (snd (mv_step env op v)) (sv_stores s)"
    have ok: "inv v" "uniform d (abs v)" using assms(4) v(1) by (auto simp: sound_stores_def)
    note refines = step_refines[OF ok(1) asks_ok(1)[OF op(1) assms(2,3) ok(2)]]
    have "call_namespace call = ns \<Longrightarrow> now - nc_prune_after b \<le> t" using b assms(6,10) by simp
    from asks_remembers[OF op(1) assms(8) _ assms(9) this]
    have "remembered t ns i tx (abs v) \<Longrightarrow> remembered t ns i tx (abs (snd (step op v)))"
      using refines by (metis snd_conv)
    then show ?thesis using w v(1) by (auto simp: held_def v(2) assms(1))
  qed (use assms(7) in \<open>simp add: held_def\<close>)
qed (use assms(7) in \<open>simp add: held_def\<close>)

lemma run_held:
  assumes "mv_step env = step" "embeds env narrow d" "sound_stores inv abs d s"
    and "map_of (sv_namespaces s) ns = Some c" "held abs store t ns i tx s"
    and "list_all (\<lambda>(now, call). t \<le> now \<and> now \<le> t + nc_prune_after c \<and> call_wf call \<and> call_spares ns i call) calls"
  shows "held abs store t ns i tx (snd (run_ops (serve_memory env) calls s))"
  using assms(3-6)
proof (induction calls arbitrary: s)
  case (Cons x calls)
  obtain now call where x: "x = (now, call)" by (cases x)
  obtain r s' where run: "serve_memory env (now, call) s = (r, s')" by fastforce
  have "held abs store t ns i tx s'"
    using serve_held[OF assms(1,2) _ Cons.prems(1) run Cons.prems(2,3)] Cons.prems(4) by (simp add: x)
  moreover have "sound_stores inv abs d s'"
    using serve_sound[OF assms(1,2) _ Cons.prems(1) run] Cons.prems(4) by (simp add: x)
  moreover have "map_of (sv_namespaces s') ns = Some c"
    using serve_namespaces[of env "(now, call)" s] Cons.prems(2) run by simp
  ultimately have "held abs store t ns i tx (snd (run_ops (serve_memory env) calls s'))"
    using Cons.IH Cons.prems(4) by simp
  then show ?case by (cases "run_ops (serve_memory env) calls s'") (simp add: x run)
qed simp

lemma run_sound:
  assumes "mv_step env = step" "embeds env narrow d" "sound_stores inv abs d s"
    and "list_all (\<lambda>(now, call). call_wf call) calls"
  shows "sound_stores inv abs d (snd (run_ops (serve_memory env) calls s))"
  using assms(3,4)
proof (induction calls arbitrary: s)
  case (Cons x calls)
  obtain now call where x: "x = (now, call)" by (cases x)
  obtain r s' where run: "serve_memory env (now, call) s = (r, s')" by fastforce
  have "sound_stores inv abs d s'"
    using serve_sound[OF assms(1,2) _ Cons.prems(1) run] Cons.prems(2) by (simp add: x)
  then have "sound_stores inv abs d (snd (run_ops (serve_memory env) calls s'))"
    using Cons.IH Cons.prems(2) by simp
  then show ?case by (cases "run_ops (serve_memory env) calls s'") (simp add: x run)
qed simp

lemma search_held:
  assumes "mv_step env = step" "embeds env narrow d" "sound_stores inv abs d s"
    and "search_memory env t trace ns q k low s = (Inr hits, s')" "h \<in> set hits"
    and "map_of (sv_namespaces s) ns = Some c"
  shows "held abs (nc_store c) t ns (sh_id h) (sh_text h) s'"
proof -
  let ?op = "\<lambda>v. Search_entries t ns v (case k of Some n \<Rightarrow> n | None \<Rightarrow> default_top_k) (case low of Some x \<Rightarrow> x | None \<Rightarrow> default_min_similarity)"
  obtain v where v: "and_then (require_embedding env c) (\<lambda>f. and_then (require_store c s) (\<lambda>_. embed_text f q)) = Inr v"
    using assms(4,6)
    by (cases "and_then (require_embedding env c) (\<lambda>f. and_then (require_store c s) (\<lambda>_. embed_text f q))")
      (auto simp: search_memory_def Let_def)
  then obtain f w where f: "mv_embed env (nc_embedding c) = Some f" "f q = Inr v" and w: "map_of (sv_stores s) (nc_store c) = Some w"
    by (auto simp: and_then_Inr require_embedding_def require_store_def embed_text_def split: option.splits sum.splits)
  obtain a w' where a: "step (?op v) w = (a, w')" by fastforce
  have ok: "inv w" "uniform d (abs w)" using assms(3) w by (auto simp: sound_stores_def)
  have "asks env c t (Search_call trace ns q k low) (?op v)" using f by auto
  from step_refines[OF ok(1) asks_ok(1)[OF this assms(2) _ ok(2)]]
  have refines: "spec_step cosine (?op v) (abs w) = (a, abs w')" by (simp add: a)
  let ?hits = "spec_hits cosine v (case k of Some n \<Rightarrow> n | None \<Rightarrow> default_top_k)
      (case low of Some x \<Rightarrow> x | None \<Rightarrow> default_min_similarity) (sp_entries (abs w) ns)"
  from refines have ans: "a = Hits ?hits"
    and abs': "abs w' = (abs w)\<lparr>sp_entries := (sp_entries (abs w))(ns := touch_ids t (sh_id ` set ?hits) (sp_entries (abs w) ns))\<rparr>"
    by (simp_all add: Let_def)
  have hits: "hits = ?hits" and stores: "map_of (sv_stores s') (nc_store c) = Some w'"
    using assms(4,6) v w a assms(1) ans
    by (auto simp: search_memory_def use_store_def Let_def require_store_def)
  obtain e where e: "e \<in> set (sp_entries (abs w) ns)" "sh_id h = me_id e" "sh_text h = me_text e"
    using spec_hit_entry assms(5) unfolding hits by blast
  have "me_id e \<in> sh_id ` set ?hits" using assms(5) e(2) unfolding hits by force
  then have "remembered t ns (sh_id h) (sh_text h) (abs w')"
    unfolding remembered_def abs' using e
    by (intro bexI[of _ "e\<lparr>me_accessed := t\<rparr>"]) (auto simp: touch_ids_def)
  then show ?thesis using stores by (auto simp: held_def)
qed

end

text \<open>What a search has found stays found: over the Redis store, an entry a search returned is still
  held with its text after any further calls of the service, prunes of any namespace included,
  until the namespace's retention has passed since that search, unless a call deletes it. Ids
  are fresh and embeddings of one length, which Redis keeps exactly.\<close>

theorem retrieved_kept:
  assumes "mv_step env = redis_step cosine narrow" and "embeds env narrow d"
    and "s = snd (run_ops (serve_memory env) before (new_memory_service ncs [(''redis'', redis_fresh)] b))"
    and "list_all (\<lambda>(now, call). call_wf call) before"
    and "map_of (sv_namespaces s) ns = Some c"
    and "search_memory env t trace ns q k low s = (Inr hits, s1)" and "h \<in> set hits"
    and "list_all (\<lambda>(now, call). t \<le> now \<and> now \<le> t + nc_prune_after c \<and> call_wf call \<and> call_spares ns (sh_id h) call) later"
  shows "held redis_abs (nc_store c) t ns (sh_id h) (sh_text h) (snd (run_ops (serve_memory env) later s1))"
proof -
  let ?new = "new_memory_service ncs [(''redis'', redis_fresh)] b"
  have "sound_stores redis_inv redis_abs d ?new"
    using empty_stores by (auto simp: sound_stores_def new_memory_service_def uniform_def spec_empty_def split: if_splits)
  then have s: "sound_stores redis_inv redis_abs d s"
    unfolding assms(3) by (rule redis_vectors.run_sound[OF assms(1,2) _ assms(4)])
  have serve: "serve_memory env (t, Search_call trace ns q k low) s = (Found_reply (Inr hits), s1)" by (simp add: assms(6))
  have "sound_stores redis_inv redis_abs d s1"
    by (rule redis_vectors.serve_sound[OF assms(1,2) _ s serve]) simp
  moreover have "map_of (sv_namespaces s1) ns = Some c"
    using serve_namespaces[of env "(t, Search_call trace ns q k low)" s, unfolded serve snd_conv] assms(5) by simp
  moreover have "held redis_abs (nc_store c) t ns (sh_id h) (sh_text h) s1"
    by (rule redis_vectors.search_held[OF assms(1,2) s assms(6,7,5)])
  ultimately show ?thesis by (rule redis_vectors.run_held[OF assms(1,2) _ _ _ assms(8)])
qed

definition redis_env :: "redis_store memory_env" where
  "redis_env = \<lparr>mv_embed = (\<lambda>n. Some (\<lambda>t. Inr [1])), mv_step = redis_step sample_cosine (\<lambda>v. v), mv_refusal = (\<lambda>_. ''dimensions'')\<rparr>"

definition kept_namespace :: namespace_config where
  "kept_namespace = sample_namespace\<lparr>nc_store := ''redis''\<rparr>"

definition redis_service :: "redis_store memory_service" where
  "redis_service = snd (run_ops (serve_memory redis_env) [(5, sample_store_call ''a'')]
     (new_memory_service [kept_namespace] [(''redis'', redis_fresh)] (new_bus (Some 5) None)))"

definition hello_entry :: memory_entry where
  "hello_entry = \<lparr>me_id = ''a'', me_namespace = ''chats'', me_text = ''hello'', me_metadata = JObj [], me_vector = [1],
     me_created = 5, me_accessed = 5\<rparr>"

definition hello_search :: vs_op where
  "hello_search = Search_entries 7 ''chats'' [1] default_top_k default_min_similarity"

text \<open>The answers of Redis, computed on the contract it implements.\<close>

lemma hello_answers:
  "fst (run_ops (redis_step sample_cosine (\<lambda>v. v)) [Upsert_entry hello_entry, hello_search] redis_fresh)
     = [Done, Hits [hit_of hello_entry 1]]"
proof -
  have ok: "ops_ok sample_cosine (\<lambda>v. v) [Upsert_entry hello_entry, hello_search] spec_empty" by code_simp
  have "fst (run_ops (spec_step sample_cosine) [Upsert_entry hello_entry, hello_search] spec_empty) = [Done, Hits [hit_of hello_entry 1]]"
    by code_simp
  moreover have "run_ops (spec_step sample_cosine) [Upsert_entry hello_entry, hello_search] spec_empty
      = (fst (run_ops (redis_step sample_cosine (\<lambda>v. v)) [Upsert_entry hello_entry, hello_search] redis_fresh),
         redis_abs (snd (run_ops (redis_step sample_cosine (\<lambda>v. v)) [Upsert_entry hello_entry, hello_search] redis_fresh)))"
    using redis_vectors.run_refines[of redis_fresh sample_cosine "\<lambda>v. v" "[Upsert_entry hello_entry, hello_search]"] ok empty_stores
    by (simp del: run_ops.simps)
  ultimately show ?thesis by (simp del: run_ops.simps)
qed

lemma redis_search_found:
  "fst (search_memory redis_env 7 None ''chats'' ''hi'' None None redis_service) = Inr [hit_of hello_entry 1]"
proof -
  obtain st1 where st1: "redis_step sample_cosine (\<lambda>v. v) (Upsert_entry hello_entry) redis_fresh = (Done, st1)"
      "fst (redis_step sample_cosine (\<lambda>v. v) hello_search st1) = Hits [hit_of hello_entry 1]"
    using hello_answers by (auto split: prod.splits simp del: redis_step.simps)
  have svc: "sv_namespaces redis_service = [(''chats'', kept_namespace)] \<and> sv_stores redis_service = [(''redis'', st1)]"
    using st1(1)
    by (simp add: redis_service_def redis_env_def sample_store_call_def store_memory_def new_memory_service_def hello_entry_def
      kept_namespace_def sample_namespace_def consume_rate_budget_def evict_stale_counters_def count_in_def Let_def
      require_embedding_def require_store_def embed_text_def use_store_def publish_memory_def del: redis_step.simps)
  obtain st2 where st2: "redis_step sample_cosine (\<lambda>v. v) hello_search st1 = (Hits [hit_of hello_entry 1], st2)"
    using st1(2) by (cases "redis_step sample_cosine (\<lambda>v. v) hello_search st1") simp
  show ?thesis
    using svc st2
    by (simp add: search_memory_def redis_env_def kept_namespace_def sample_namespace_def Let_def hello_search_def
      require_embedding_def require_store_def embed_text_def use_store_def publish_memory_def del: redis_step.simps)
qed

theorem retrieved_kept_witness:
  "\<exists>h :: search_hit. sh_text h = ''hello'' \<and> held redis_abs ''redis'' 7 ''chats'' (sh_id h) (sh_text h)
     (snd (run_ops (serve_memory redis_env) [(1007, Prune_call ''chats'')]
       (snd (search_memory redis_env 7 None ''chats'' ''hi'' None None redis_service))))"
proof -
  define h where "h = hit_of hello_entry 1"
  have ns: "map_of (sv_namespaces redis_service) ''chats'' = Some kept_namespace"
    using run_counters[of "new_memory_service [kept_namespace] [(''redis'', redis_fresh)] (new_bus (Some 5) None)" redis_env
        "[(5, sample_store_call ''a'')]"]
    by (simp add: redis_service_def new_memory_service_def kept_namespace_def sample_namespace_def)
  have found: "search_memory redis_env 7 None ''chats'' ''hi'' None None redis_service
      = (Inr [h], snd (search_memory redis_env 7 None ''chats'' ''hi'' None None redis_service))"
    using redis_search_found by (simp add: h_def prod_eq_iff)
  have "held redis_abs (nc_store kept_namespace) 7 ''chats'' (sh_id h) (sh_text h)
      (snd (run_ops (serve_memory redis_env) [(1007, Prune_call ''chats'')]
        (snd (search_memory redis_env 7 None ''chats'' ''hi'' None None redis_service))))"
    by (rule retrieved_kept[OF _ _ redis_service_def _ ns found, where d = 1 and cosine = sample_cosine and narrow = "\<lambda>v. v"])
      (simp_all add: redis_env_def embeds_def sample_store_call_def kept_namespace_def sample_namespace_def h_def hit_of_def)
  moreover have "nc_store kept_namespace = ''redis''" by (simp add: kept_namespace_def)
  ultimately have kept: "held redis_abs ''redis'' 7 ''chats'' (sh_id h) (sh_text h)
      (snd (run_ops (serve_memory redis_env) [(1007, Prune_call ''chats'')]
        (snd (search_memory redis_env 7 None ''chats'' ''hi'' None None redis_service))))" by (simp only:)
  show ?thesis by (rule exI[of _ h], rule conjI, simp add: h_def hit_of_def hello_entry_def, rule kept)
qed

end
