(* ===== verification/MemoryApi.thy ===== *)
theory MemoryApi
  imports Memory
begin

text \<open>
  Around the memory service: the namespaces collected from the agents at startup
  (\<open>services/memory/bootstrap.ts\<close>), thread enrichment of a query (\<open>thread-enrichment.ts\<close>), the recall
  block's list (\<open>prompt-fragments.ts\<close>), and the HTTP handlers (\<open>controllers/memory.controller.ts\<close>).
  JSON numbers are integers here, so a request's \<open>minSimilarity\<close> is -1, 0 or 1.
\<close>

section \<open>Startup\<close>

record namespace_policy =
  np_embedding :: string
  np_store :: string
  np_prune_after :: millis
  np_max_stores :: nat

datatype bootstrap_error = Openai_key_missing

text \<open>The \<open>memory.namespaces\<close> block of every agent that has one, in the order of the agents.\<close>

definition collect_namespaces :: "(string, namespace_policy) jsmap option list \<Rightarrow> namespace_config list" where
  "collect_namespaces blocks =
     concat (map (\<lambda>b. case b of None \<Rightarrow> [] | Some ns \<Rightarrow>
       map (\<lambda>(n, p). \<lparr>nc_name = n, nc_embedding = np_embedding p, nc_store = np_store p,
                       nc_prune_after = np_prune_after p, nc_max_stores = np_max_stores p\<rparr>) ns) blocks)"

definition bootstrap_memory ::
  "(string, namespace_policy) jsmap option list \<Rightarrow> (string \<Rightarrow> bool) \<Rightarrow> (string, 's) jsmap \<Rightarrow> 's \<Rightarrow> bus \<Rightarrow>
   bootstrap_error + (namespace_config list \<times> 's memory_service)" where
  "bootstrap_memory blocks has_secret stores redis b =
     (let ncs = collect_namespaces blocks in
      if ncs = [] then Inr ([], new_memory_service [] stores b)
      else if list_ex (\<lambda>n. nc_embedding n = ''openai'') ncs \<and> \<not> has_secret ''openai_api_key'' then Inl Openai_key_missing
      else Inr (ncs, new_memory_service ncs
        (if list_ex (\<lambda>n. nc_store n = ''redis'') ncs then AList.update ''redis'' redis stores else stores) b))"

lemma last_namespace_wins:
  "map_of (sv_namespaces (new_memory_service ncs stores b)) n = find (\<lambda>c. nc_name c = n) (rev ncs)"
proof -
  have "map_of (fold (\<lambda>n. AList.update (nc_name n) n) ncs m) n
      = (case find (\<lambda>c. nc_name c = n) (rev ncs) of Some c \<Rightarrow> Some c | None \<Rightarrow> map_of m n)" for m
    by (induction ncs rule: rev_induct) auto
  then show ?thesis by (simp add: new_memory_service_def split: option.split)
qed

section \<open>Thread enrichment\<close>

record enrichment_config =
  te_thread_field :: string
  te_account_field :: string
  te_max_messages :: nat

definition max_query_chars :: nat where "max_query_chars = 15000"

text \<open>\<open>fetch\<close> answers with the bodies of a thread, or \<open>None\<close> when it throws.\<close>

definition enrich_query_with_thread ::
  "(string \<Rightarrow> string \<Rightarrow> nat \<Rightarrow> string list option) \<Rightarrow> jsval \<Rightarrow> enrichment_config \<Rightarrow> string \<Rightarrow> string" where
  "enrich_query_with_thread fetch payload config fallback =
     (case (get_optional_string_field payload (te_thread_field config), get_optional_string_field payload (te_account_field config)) of
        (Some thread, Some account) \<Rightarrow>
          (case fetch account thread (te_max_messages config) of
             None \<Rightarrow> fallback
           | Some bodies \<Rightarrow>
               if bodies = [] then fallback
               else (let joined = join (newline @ newline) bodies in
                     if length joined > max_query_chars then drop (length joined - max_query_chars) joined else joined))
      | _ \<Rightarrow> fallback)"

lemma enriched_length:
  "enrich_query_with_thread fetch payload config fallback = fallback \<or>
   length (enrich_query_with_thread fetch payload config fallback) \<le> max_query_chars"
  by (auto simp: enrich_query_with_thread_def Let_def split: option.splits)

text \<open>The list of the recall block; \<open>fixed2\<close> is \<open>toFixed(2)\<close>.\<close>

definition format_memories :: "(rat \<Rightarrow> string) \<Rightarrow> search_hit list \<Rightarrow> string" where
  "format_memories fixed2 hits =
     (if hits = [] then ''(no relevant memories)''
      else join newline (map (\<lambda>h. ''- '' @ sh_text h @ '' [score: '' @ fixed2 (sh_score h) @ '']'') hits))"

section \<open>Requests\<close>

definition authenticate :: "string option \<Rightarrow> request \<Rightarrow> bool" where
  "authenticate token r =
     (case token of
        None \<Rightarrow> False
      | Some expected \<Rightarrow>
          if expected = [] then False
          else (case get_string_header r ''authorization'' of
                  None \<Rightarrow> False
                | Some h \<Rightarrow> prefix ''Bearer '' h \<and> drop (length ''Bearer '') h = expected))"

definition parse_store_body :: "jsval \<Rightarrow> (string \<times> string \<times> props option \<times> string) option" where
  "parse_store_body body =
     (case body of
        Val (JObj ps) \<Rightarrow>
          (case (required_string ps ''namespace'', required_string ps ''text'', optional_record ps ''metadata'', required_string ps ''traceId'') of
             (Some ns, Some t, Some m, Some tr) \<Rightarrow> Some (ns, t, m, tr)
           | _ \<Rightarrow> None)
      | _ \<Rightarrow> None)"

definition bounded_number :: "props \<Rightarrow> string \<Rightarrow> int \<Rightarrow> int \<Rightarrow> int option option" where
  "bounded_number ps k lo hi =
     (case map_of ps k of
        None \<Rightarrow> Some None
      | Some (JNum n) \<Rightarrow> if lo \<le> n \<and> n \<le> hi then Some (Some n) else None
      | Some _ \<Rightarrow> None)"

definition parse_search_body ::
  "jsval \<Rightarrow> (string \<times> string \<times> nat option \<times> rat option \<times> string option) option" where
  "parse_search_body body =
     (case body of
        Val (JObj ps) \<Rightarrow>
          (case (required_string ps ''namespace'', required_string ps ''query'', bounded_number ps ''topK'' 1 50,
                 bounded_number ps ''minSimilarity'' (- 1) 1, optional_string ps ''traceId'') of
             (Some ns, Some q, Some k, Some low, Some tr) \<Rightarrow> Some (ns, q, map_option nat k, map_option of_int low, tr)
           | _ \<Rightarrow> None)
      | _ \<Rightarrow> None)"

definition memory_status :: "memory_error \<Rightarrow> nat" where
  "memory_status e =
     (case e of Unknown_namespace _ \<Rightarrow> 400 | Provider_not_registered _ _ \<Rightarrow> 500
              | Rate_limit_exceeded _ _ _ \<Rightarrow> 429 | Backend_error _ \<Rightarrow> 500)"

text \<open>A response: its status, and the result of the service when there is one.\<close>

definition respond :: "(memory_error + 'a) \<Rightarrow> nat \<times> 'a option" where
  "respond r = (case r of Inl e \<Rightarrow> (memory_status e, None) | Inr x \<Rightarrow> (200, Some x))"

definition post_memory_store ::
  "'s memory_env \<Rightarrow> string option \<Rightarrow> millis \<Rightarrow> string \<Rightarrow> request \<Rightarrow> jsval \<Rightarrow> 's memory_service \<Rightarrow>
   (nat \<times> string option) \<times> 's memory_service" where
  "post_memory_store env token now uuid r body s =
     (if \<not> authenticate token r then ((401, None), s)
      else (case parse_store_body body of
              None \<Rightarrow> ((400, None), s)
            | Some (ns, t, m, tr) \<Rightarrow> (case store_memory env now tr ns t m uuid s of (x, s') \<Rightarrow> (respond x, s'))))"

definition post_memory_search ::
  "'s memory_env \<Rightarrow> string option \<Rightarrow> millis \<Rightarrow> request \<Rightarrow> jsval \<Rightarrow> 's memory_service \<Rightarrow>
   (nat \<times> search_hit list option) \<times> 's memory_service" where
  "post_memory_search env token now r body s =
     (if \<not> authenticate token r then ((401, None), s)
      else (case parse_search_body body of
              None \<Rightarrow> ((400, None), s)
            | Some (ns, q, k, low, tr) \<Rightarrow> (case search_memory env now tr ns q k low s of (x, s') \<Rightarrow> (respond x, s'))))"

definition delete_memory_entry ::
  "'s memory_env \<Rightarrow> string option \<Rightarrow> millis \<Rightarrow> request \<Rightarrow> jsval \<Rightarrow> 's memory_service \<Rightarrow> (nat \<times> bool option) \<times> 's memory_service" where
  "delete_memory_entry env token now r body s =
     (if \<not> authenticate token r then ((401, None), s)
      else (case (case body of Val (JObj ps) \<Rightarrow> required_string ps ''namespace'' | _ \<Rightarrow> None) of
              None \<Rightarrow> ((400, None), s)
            | Some ns \<Rightarrow>
                (case get_string_parameter r ''id'' of
                   None \<Rightarrow> ((400, None), s)
                 | Some i \<Rightarrow> (case delete_memory env now ns i s of (x, s') \<Rightarrow> (respond x, s')))))"

text \<open>A token that is not configured, or empty, refuses every request.\<close>

lemma no_token_no_access: "\<not> authenticate None r" "\<not> authenticate (Some []) r"
  by (simp_all add: authenticate_def)

text \<open>A request answered with 400 or 401 leaves the service as it was.\<close>

lemma refused_memory_request:
  assumes "post_memory_store env token now uuid r body s = ((status, x), s')" "status \<in> {400, 401}"
  shows "s' = s"
  using assms
  by (auto simp: post_memory_store_def store_memory_def respond_def memory_status_def consume_rate_budget_def Let_def
      use_store_def require_embedding_def require_store_def embed_text_def and_then_Inr
      split: if_splits option.splits sum.splits prod.splits memory_error.splits)

end
