(* ===== verification/Tasks.thy ===== *)
theory Tasks
  imports ScheduledTasks Worker MemoryApi
begin

text \<open>
  Internal and scheduled tasks: creation, status and waiting over the agent's task queue
  (\<open>services/task.service.ts\<close>, \<open>controllers/task.controller.ts\<close>) and the task worker
  (\<open>services/task-worker.service.ts\<close>), which runs an internal task through the first rule that holds,
  a scheduled one through the rule it names or, when it carries a direct prompt, through the runner
  with the prompt as it is and the memories recalled above it. The worker's state is the registry
  of scheduled tasks, the memory service and the runs it has handed to a runner.
\<close>

section \<open>Envelopes\<close>

datatype task_envelope =
    Scheduled_envelope "string option" string props
  | Internal_envelope string string props

definition parse_scheduled_envelope :: "props \<Rightarrow> task_envelope option" where
  "parse_scheduled_envelope ps =
     (if map_of ps ''kind'' \<noteq> Some (JStr ''scheduled'') then None
      else (case (optional_string ps ''taskId'', string_member ps ''rule'', record_field ps ''context'') of
              (Some i, Some r, Some c) \<Rightarrow> Some (Scheduled_envelope i r c)
            | _ \<Rightarrow> None))"

definition parse_internal_envelope :: "props \<Rightarrow> task_envelope option" where
  "parse_internal_envelope ps =
     (case (string_member ps ''taskId'', string_member ps ''taskType'', record_field ps ''context'') of
        (Some i, Some t, Some c) \<Rightarrow> Some (Internal_envelope i t c)
      | _ \<Rightarrow> None)"

text \<open>\<open>None\<close>: the data is not JSON, or neither schema of the union accepts it.\<close>

definition parse_task_envelope :: "string \<Rightarrow> task_envelope option" where
  "parse_task_envelope data =
     (case json_parse data of
        Some (JObj ps) \<Rightarrow>
          (case parse_scheduled_envelope ps of Some e \<Rightarrow> Some e | None \<Rightarrow> parse_internal_envelope ps)
      | _ \<Rightarrow> None)"

definition internal_envelope_json :: "string \<Rightarrow> string \<Rightarrow> props \<Rightarrow> json" where
  "internal_envelope_json i t c = JObj [(''taskId'', JStr i), (''taskType'', JStr t), (''context'', JObj c)]"

text \<open>What the registry hands to the queue for a task.\<close>

definition scheduled_data :: "sched_task \<Rightarrow> string" where
  "scheduled_data t =
     json_stringify (JObj [(''kind'', JStr ''scheduled''), (''taskId'', JStr (ts_id t)),
       (''rule'', JStr (case ts_name t of Some n \<Rightarrow> n | None \<Rightarrow> ts_id t)),
       (''context'', case ts_payload t of Some p \<Rightarrow> p | None \<Rightarrow> JObj [])])"

lemma parse_internal_data:
  assumes "wf_json (JObj c)"
  shows "parse_task_envelope (json_stringify (internal_envelope_json i t c)) = Some (Internal_envelope i t c)"
proof -
  have "wf_json (internal_envelope_json i t c)" using assms by (simp add: internal_envelope_json_def)
  from json_parse_stringify[OF this] show ?thesis
    by (simp add: parse_task_envelope_def internal_envelope_json_def parse_scheduled_envelope_def
        parse_internal_envelope_def string_member_def record_field_def)
qed

lemma parse_scheduled_data:
  assumes "ts_payload t = Some (JObj c)" "wf_json (JObj c)" "ts_id t \<noteq> []"
  shows "parse_task_envelope (scheduled_data t) =
     Some (Scheduled_envelope (Some (ts_id t)) (case ts_name t of Some n \<Rightarrow> n | None \<Rightarrow> ts_id t) c)"
proof -
  let ?v = "JObj [(''kind'', JStr ''scheduled''), (''taskId'', JStr (ts_id t)),
       (''rule'', JStr (case ts_name t of Some n \<Rightarrow> n | None \<Rightarrow> ts_id t)), (''context'', JObj c)]"
  have "wf_json ?v" using assms(2) by simp
  from json_parse_stringify[OF this] show ?thesis using assms(1,3)
    by (simp add: parse_task_envelope_def scheduled_data_def parse_scheduled_envelope_def
        optional_string_def string_member_def record_field_def)
qed

section \<open>The queue of an agent\<close>

record task_job =
  tj_id :: string
  tj_data :: string
  tj_state :: string
  tj_return :: "json option"
  tj_failed :: "string option"

text \<open>The task queues, by the name of the agent. Adding a job under an id the queue knows is
  ignored.\<close>

type_synonym task_queues = "(string, task_job list) jsmap"

definition jobs_of :: "task_queues \<Rightarrow> string \<Rightarrow> task_job list" where
  "jobs_of qs a = (case map_of qs a of Some js \<Rightarrow> js | None \<Rightarrow> [])"

definition get_job :: "task_queues \<Rightarrow> string \<Rightarrow> string \<Rightarrow> task_job option" where
  "get_job qs a i = find (\<lambda>j. tj_id j = i) (jobs_of qs a)"

definition add_task_job :: "string \<Rightarrow> string \<Rightarrow> string \<Rightarrow> task_queues \<Rightarrow> task_queues" where
  "add_task_job a data i qs =
     (case get_job qs a i of
        Some j \<Rightarrow> qs
      | None \<Rightarrow> AList.update a (jobs_of qs a @ [\<lparr>tj_id = i, tj_data = data, tj_state = ''waiting'',
                   tj_return = None, tj_failed = None\<rparr>]) qs)"

definition build_task_queue_name :: "string option \<Rightarrow> string \<Rightarrow> queue_name_error + string" where
  "build_task_queue_name pre a = build_queue_name pre (''tasks-'' @ a)"

record task_request =
  tq_agent :: string
  tq_type :: string
  tq_context :: "props option"

definition unknown_agent_text :: "string \<Rightarrow> string" where
  "unknown_agent_text a = ''Unknown agent: '' @ a"

definition create_task :: "string \<Rightarrow> task_request \<Rightarrow> agent list \<Rightarrow> task_queues \<Rightarrow>
    (string + string \<times> string) \<times> task_queues" where
  "create_task uuid r agents qs =
     (case find (\<lambda>a. agent_name a = tq_agent r) agents of
        None \<Rightarrow> (Inl (unknown_agent_text (tq_agent r)), qs)
      | Some a \<Rightarrow>
          (Inr (uuid, agent_name a),
           add_task_job (agent_name a)
             (json_stringify (internal_envelope_json uuid (tq_type r)
                (case tq_context r of Some c \<Rightarrow> c | None \<Rightarrow> []))) uuid qs))"

datatype task_status = Task_queued | Task_running | Task_completed | Task_failed | Task_unknown

definition map_bull_state_to_task_status :: "string \<Rightarrow> task_status" where
  "map_bull_state_to_task_status state =
     (if state \<in> {''waiting'', ''delayed'', ''paused''} then Task_queued
      else if state = ''active'' then Task_running
      else if state = ''completed'' then Task_completed
      else if state = ''failed'' then Task_failed
      else Task_unknown)"

record task_response =
  tp_id :: string
  tp_status :: task_status
  tp_error :: "string option"
  tp_return :: "json option"

definition get_task_status :: "string \<Rightarrow> string \<Rightarrow> task_queues \<Rightarrow> task_response" where
  "get_task_status a i qs =
     (case get_job qs a i of
        None \<Rightarrow> \<lparr>tp_id = i, tp_status = Task_unknown, tp_error = None, tp_return = None\<rparr>
      | Some j \<Rightarrow>
          \<lparr>tp_id = i, tp_status = map_bull_state_to_task_status (tj_state j),
           tp_error = (case tj_failed j of Some (c # e) \<Rightarrow> Some (c # e) | _ \<Rightarrow> None), tp_return = tj_return j\<rparr>)"

text \<open>\<open>finished\<close> is how \<open>job.waitUntilFinished\<close> ends, \<open>later\<close> the state of the job after it threw.\<close>

definition wait_for_task :: "string \<Rightarrow> string \<Rightarrow> (string + json option) \<Rightarrow> string \<Rightarrow> task_queues \<Rightarrow> task_response" where
  "wait_for_task a i finished later qs =
     (case get_job qs a i of
        None \<Rightarrow> \<lparr>tp_id = i, tp_status = Task_unknown, tp_error = None, tp_return = None\<rparr>
      | Some j \<Rightarrow>
          (case finished of
             Inr v \<Rightarrow> \<lparr>tp_id = i, tp_status = Task_completed, tp_error = None, tp_return = v\<rparr>
           | Inl e \<Rightarrow> \<lparr>tp_id = i, tp_status = map_bull_state_to_task_status later, tp_error = Some e, tp_return = None\<rparr>))"

section \<open>Requests\<close>

definition parse_task_request :: "jsval \<Rightarrow> task_request option" where
  "parse_task_request body =
     (case body of
        Val (JObj ps) \<Rightarrow>
          (case (required_string ps ''agent'', required_string ps ''taskType'', optional_record ps ''context'') of
             (Some a, Some t, Some c) \<Rightarrow> Some \<lparr>tq_agent = a, tq_type = t, tq_context = c\<rparr>
           | _ \<Rightarrow> None)
      | _ \<Rightarrow> None)"

record task_created =
  tc_task :: string
  tc_agent :: string
  tc_status_url :: string
  tc_wait_url :: string

definition create_task_handler :: "string \<Rightarrow> jsval \<Rightarrow> agent list \<Rightarrow> task_queues \<Rightarrow>
    (nat \<times> (string + task_created)) \<times> task_queues" where
  "create_task_handler uuid body agents qs =
     (case parse_task_request body of
        None \<Rightarrow> ((400, Inl ''Invalid task request''), qs)
      | Some r \<Rightarrow>
          (case create_task uuid r agents qs of
             (Inl e, qs') \<Rightarrow> ((404, Inl e), qs')
           | (Inr (i, a), qs') \<Rightarrow>
               ((202, Inr \<lparr>tc_task = i, tc_agent = a, tc_status_url = ''/api/tasks/'' @ a @ ''/'' @ i,
                  tc_wait_url = ''/api/tasks/'' @ a @ ''/'' @ i @ ''/wait''\<rparr>), qs')))"

definition default_wait_timeout :: millis where "default_wait_timeout = 60000"
definition max_wait_timeout :: millis where "max_wait_timeout = 600000"

definition clamp_timeout :: "string option \<Rightarrow> millis" where
  "clamp_timeout raw =
     (case raw of
        None \<Rightarrow> default_wait_timeout
      | Some s \<Rightarrow> (case parse_int10 s of
                    None \<Rightarrow> default_wait_timeout
                  | Some n \<Rightarrow> if n \<le> 0 then default_wait_timeout else min n max_wait_timeout))"

lemma clamp_timeout_bounds: "0 < clamp_timeout raw \<and> clamp_timeout raw \<le> max_wait_timeout"
  by (simp add: clamp_timeout_def default_wait_timeout_def max_wait_timeout_def split: option.split)

section \<open>The worker: state and collaborators\<close>

text \<open>What a run is handed to: a registered runner, or a shell runner built for the rule.\<close>

datatype task_runner = Registered_runner string | Shell_of_rule runner_config string

record task_dispatch =
  td_runner :: task_runner
  td_options :: run_options
  td_tools :: "tool_ref list"

record 's task_state =
  tk_sched :: sched_state
  tk_memory :: "'s memory_service"
  tk_runs :: "task_dispatch list"

text \<open>The answers of the collaborators: clock, files, template renderer, the registered runners,
  the preparation of tools (an error when it throws), the runs, the ISO form of an instant, the
  fixed text of the recall block around its list, and the settings.\<close>

record 's task_world =
  tw_rx :: regex_engine
  tw_now :: millis
  tw_read :: "string \<Rightarrow> string option"
  tw_render :: "string \<Rightarrow> json \<Rightarrow> agent_rule \<Rightarrow> (string \<times> string) option"
  tw_runner_known :: "string \<Rightarrow> bool"
  tw_bundle :: "tool_ref list \<Rightarrow> string option"
  tw_run :: "task_dispatch \<Rightarrow> string + run_result"
  tw_iso :: "millis \<Rightarrow> string"
  tw_sched :: sched_env
  tw_memory :: "'s memory_env"
  tw_namespaces :: "string \<Rightarrow> string list option"
  tw_recall_head :: string
  tw_recall_tail :: string
  tw_fixed2 :: "rat \<Rightarrow> string"
  tw_top_k :: nat
  tw_min_similarity :: rat

datatype task_failure =
    Envelope_invalid
  | No_internal_rule string
  | No_schedule_rule string string
  | Condition_threw eval_error
  | Task_turn turn_error
  | Task_run_failed string
  | Task_run_timed_out string
  | Task_quota string

fun task_failure_text :: "task_failure \<Rightarrow> string" where
  "task_failure_text Envelope_invalid = ''Invalid task envelope''"
| "task_failure_text (No_internal_rule t) = ''No internal routing rule matched taskType='' @ t"
| "task_failure_text (No_schedule_rule r a) =
     ''No schedule rule named \"'' @ r @ ''\" found for agent '' @ a"
| "task_failure_text (Condition_threw e) = ''Condition evaluation failed''"
| "task_failure_text (Task_turn e) = turn_message e"
| "task_failure_text (Task_run_failed e) = ''Task run failed: '' @ e"
| "task_failure_text (Task_run_timed_out i) = ''Task run timed out (runId: '' @ i @ '')''"
| "task_failure_text (Task_quota t) = ''Task run hit upstream quota limit (resets at '' @ t @ '')''"

text \<open>The summary of a run that ended well is its run id.\<close>

definition map_run_result :: "(millis \<Rightarrow> string) \<Rightarrow> run_result \<Rightarrow> task_failure + string" where
  "map_run_result iso_of r =
     (case rr_status r of
        Run_error \<Rightarrow> Inl (Task_run_failed (case rr_error r of Some e \<Rightarrow> e | None \<Rightarrow> ''unknown''))
      | Run_timeout \<Rightarrow> Inl (Task_run_timed_out (id_text (rr_run_id r)))
      | Run_quota_exceeded \<Rightarrow>
          Inl (Task_quota (case rr_quota_reset r of None \<Rightarrow> ''unknown'' | Some t \<Rightarrow> iso_of t))
      | Run_ok \<Rightarrow> Inr (id_text (rr_run_id r)))"

definition dispatch_task :: "'s task_world \<Rightarrow> task_dispatch \<Rightarrow> 's task_state \<Rightarrow> (task_failure + string) \<times> 's task_state" where
  "dispatch_task w d s =
     (let s' = s\<lparr>tk_runs := tk_runs s @ [d]\<rparr> in
      case tw_run w d of
        Inl e \<Rightarrow> (Inl (Task_turn (Runner_threw e)), s')
      | Inr r \<Rightarrow> (map_run_result (tw_iso w) r, s'))"

definition task_options :: "string \<Rightarrow> string \<Rightarrow> string \<Rightarrow> string \<Rightarrow> string \<Rightarrow> string option \<Rightarrow> run_options" where
  "task_options prompt key a trace job system =
     \<lparr>ro_prompt = prompt, ro_session_key = key, ro_agent = a, ro_model = None, ro_trace = trace,
      ro_job = job, ro_env = None, ro_system_prompt = system, ro_resume = None, ro_max_turns = None\<rparr>"

definition prepare_tools :: "'s task_world \<Rightarrow> tool_ref list option \<Rightarrow> task_failure + tool_ref list" where
  "prepare_tools w tools =
     (case tools of
        None \<Rightarrow> Inr []
      | Some [] \<Rightarrow> Inr []
      | Some refs \<Rightarrow> (case tw_bundle w refs of Some e \<Rightarrow> Inl (Task_turn (Tools_failed e)) | None \<Rightarrow> Inr refs))"

section \<open>Running a rule\<close>

definition resolve_runner_and_prompt ::
  "'s task_world \<Rightarrow> agent_rule \<Rightarrow> json \<Rightarrow> agent \<Rightarrow> task_failure + task_runner \<times> string \<times> string" where
  "resolve_runner_and_prompt w rule payload a =
     (if map_option config_type (rule_runner rule) = Some ''shell''
      then Inr (Shell_of_rule (the (rule_runner rule)) (agent_dir a), [], [])
      else and_then
        (case rule_template rule of
           Some (c # path) \<Rightarrow>
             (case tw_read w (agent_dir a @ ''/'' @ c # path) of
                None \<Rightarrow> Inl (Task_turn (Template_unreadable (c # path)))
              | Some template \<Rightarrow>
                  (case tw_render w template payload rule of
                     None \<Rightarrow> Inl (Task_turn Render_failed)
                   | Some (system, body) \<Rightarrow> Inr (body, system)))
         | _ \<Rightarrow> Inr (json_stringify payload, []))
        (\<lambda>(prompt, system).
           let name = (case rule_runner rule of Some c \<Rightarrow> config_type c | None \<Rightarrow> ''claude-cli'') in
           if tw_runner_known w name then Inr (Registered_runner name, prompt, system)
           else Inl (Task_turn (Unknown_runner name))))"

definition run_rule :: "'s task_world \<Rightarrow> agent_rule \<Rightarrow> json \<Rightarrow> agent \<Rightarrow> string \<Rightarrow> string \<Rightarrow> string \<Rightarrow>
    's task_state \<Rightarrow> (task_failure + string) \<times> 's task_state" where
  "run_rule w rule payload a key trace job s =
     (case resolve_runner_and_prompt w rule payload a of
        Inl e \<Rightarrow> (Inl e, s)
      | Inr (runner, prompt, system) \<Rightarrow>
          (case prepare_tools w (rule_tools rule) of
             Inl e \<Rightarrow> (Inl e, s)
           | Inr tools \<Rightarrow>
               dispatch_task w \<lparr>td_runner = runner,
                 td_options = task_options prompt key (agent_name a) trace job
                   (if length system > 0 then Some system else None), td_tools = tools\<rparr> s))"

text \<open>\<open>rules.find\<close> over the rules that have a condition; a condition may throw.\<close>

fun find_holding :: "regex_engine \<Rightarrow> jsval \<Rightarrow> agent_rule list \<Rightarrow> eval_error + agent_rule option" where
  "find_holding rx p [] = Inr None"
| "find_holding rx p (r # rs) =
     (case rule_condition r of
        None \<Rightarrow> find_holding rx p rs
      | Some c \<Rightarrow>
          (case evaluate_condition rx c p of
             Inl e \<Rightarrow> Inl e
           | Inr b \<Rightarrow> if b then Inr (Some r) else find_holding rx p rs))"

definition rules_of :: "agent \<Rightarrow> string \<Rightarrow> agent_rule list" where
  "rules_of a provider = (case map_of (agent_routing a) provider of Some rs \<Rightarrow> rs | None \<Rightarrow> [])"

text \<open>An object literal with the context spread over its first members.\<close>

definition spread_context :: "props \<Rightarrow> props \<Rightarrow> json" where
  "spread_context members c = JObj (fold (\<lambda>(k, v). AList.update k v) c members)"

definition process_internal_task :: "'s task_world \<Rightarrow> agent \<Rightarrow> string \<Rightarrow> string \<Rightarrow> props \<Rightarrow> 's task_state \<Rightarrow>
    (task_failure + string) \<times> 's task_state" where
  "process_internal_task w a i t c s =
     (let payload = spread_context [(''taskType'', JStr t)] c in
      case find_holding (tw_rx w) (Val payload) (rules_of a ''internal'') of
        Inl e \<Rightarrow> (Inl (Condition_threw e), s)
      | Inr None \<Rightarrow> (Inl (No_internal_rule t), s)
      | Inr (Some rule) \<Rightarrow>
          run_rule w rule payload a (''agent:'' @ agent_name a @ '':task-'' @ i) i i s)"

section \<open>Direct prompts\<close>

datatype use_memory = Memory_flag bool | Memory_overrides "string option" "nat option" "rat option"

definition unit_interval :: "json \<Rightarrow> rat option" where
  "unit_interval v = (case v of JNum n \<Rightarrow> if 0 \<le> n \<and> n \<le> 1 then Some (of_int n) else None | _ \<Rightarrow> None)"

fun parse_use_memory :: "json \<Rightarrow> use_memory option" where
  "parse_use_memory (JBool b) = Some (Memory_flag b)"
| "parse_use_memory (JObj ps) =
     (case (optional_string ps ''namespace'', optional_member positive_int ps ''topK'',
            optional_member unit_interval ps ''minSimilarity'') of
        (Some n, Some k, Some m) \<Rightarrow> Some (Memory_overrides n k m)
      | _ \<Rightarrow> None)"
| "parse_use_memory _ = None"

definition read_direct_prompt :: "props \<Rightarrow> string option" where
  "read_direct_prompt c = read_string (object_read c ''directPrompt'')"

definition read_use_memory :: "props \<Rightarrow> use_memory option" where
  "read_use_memory c = (case map_of c ''useMemory'' of None \<Rightarrow> None | Some v \<Rightarrow> parse_use_memory v)"

definition read_scheduled_tools :: "props \<Rightarrow> tool_ref list option" where
  "read_scheduled_tools c = (case map_of c ''tools'' of None \<Rightarrow> None | Some v \<Rightarrow> parse_rule_tools v)"

definition default_memory_namespace :: "string list option \<Rightarrow> string option" where
  "default_memory_namespace names = (case names of Some (n # ns) \<Rightarrow> Some n | _ \<Rightarrow> None)"

definition render_memory_recall_block :: "'s task_world \<Rightarrow> search_hit list \<Rightarrow> string" where
  "render_memory_recall_block w hits = tw_recall_head w @ format_memories (tw_fixed2 w) hits @ tw_recall_tail w"

definition build_recall_block :: "'s task_world \<Rightarrow> use_memory option \<Rightarrow> string \<Rightarrow> agent \<Rightarrow> string \<Rightarrow>
    's memory_service \<Rightarrow> string option \<times> 's memory_service" where
  "build_recall_block w um query a trace m =
     (if um = None \<or> um = Some (Memory_flag False) then (None, m)
      else (let (n, k, low) = (case um of Some (Memory_overrides n k low) \<Rightarrow> (n, k, low) | _ \<Rightarrow> (None, None, None)) in
        case (case n of Some x \<Rightarrow> Some x | None \<Rightarrow> default_memory_namespace (tw_namespaces w (agent_name a))) of
          None \<Rightarrow> (None, m)
        | Some namespace \<Rightarrow>
            (case search_memory (tw_memory w) (tw_now w) (Some trace) namespace query
                (Some (case k of Some x \<Rightarrow> x | None \<Rightarrow> tw_top_k w))
                (Some (case low of Some x \<Rightarrow> x | None \<Rightarrow> tw_min_similarity w)) m of
               (Inl e, m') \<Rightarrow> (None, m')
             | (Inr hits, m') \<Rightarrow> (Some (render_memory_recall_block w hits), m'))))"

definition run_direct_prompt :: "'s task_world \<Rightarrow> string \<Rightarrow> props \<Rightarrow> agent \<Rightarrow> string \<Rightarrow> string \<Rightarrow>
    's task_state \<Rightarrow> (task_failure + string) \<times> 's task_state" where
  "run_direct_prompt w direct c a key trace s =
     (case build_recall_block w (read_use_memory c) direct a trace (tk_memory s) of
        (block, m) \<Rightarrow>
          (let s1 = s\<lparr>tk_memory := m\<rparr>;
               prompt = (case block of Some b \<Rightarrow> b @ newline @ direct | None \<Rightarrow> direct)
           in case prepare_tools w (read_scheduled_tools c) of
                Inl e \<Rightarrow> (Inl e, s1)
              | Inr tools \<Rightarrow>
                  if \<not> tw_runner_known w ''claude-cli'' then (Inl (Task_turn (Unknown_runner ''claude-cli'')), s1)
                  else dispatch_task w \<lparr>td_runner = Registered_runner ''claude-cli'',
                    td_options = task_options prompt key (agent_name a) trace trace None, td_tools = tools\<rparr> s1))"

section \<open>Scheduled tasks and the worker\<close>

definition schedule_trace :: "'s task_world \<Rightarrow> agent \<Rightarrow> string \<Rightarrow> string" where
  "schedule_trace w a rule = ''schedule-'' @ agent_name a @ ''-'' @ rule @ ''-'' @ string_of_int (tw_now w)"

definition fire_scheduled :: "'s task_world \<Rightarrow> string option \<Rightarrow> string \<Rightarrow> string option \<Rightarrow> 's task_state \<Rightarrow>
    bool \<times> 's task_state" where
  "fire_scheduled w task trace job_id s =
     (case task of
        None \<Rightarrow> (True, s)
      | Some i \<Rightarrow>
          (case record_fire (tw_sched w) i (case job_id of Some j \<Rightarrow> j | None \<Rightarrow> trace) (Some trace) (tw_now w) (tk_sched s) of
             (fire, r) \<Rightarrow> (fire, s\<lparr>tk_sched := r\<rparr>)))"

definition run_scheduled :: "'s task_world \<Rightarrow> agent \<Rightarrow> string option \<Rightarrow> string \<Rightarrow> props \<Rightarrow> string \<Rightarrow>
    's task_state \<Rightarrow> (task_failure + string) \<times> 's task_state" where
  "run_scheduled w a task rule c trace s =
     (case read_direct_prompt c of
        Some direct \<Rightarrow>
          run_direct_prompt w direct c a
            (''agent:'' @ agent_name a @ '':schedule-'' @ (case task of Some i \<Rightarrow> i | None \<Rightarrow> rule) @ ''-'' @ trace) trace s
      | None \<Rightarrow>
          (case find (\<lambda>r. rule_name r = Some rule) (rules_of a ''schedule'') of
             None \<Rightarrow> (Inl (No_schedule_rule rule (agent_name a)), s)
           | Some r \<Rightarrow>
               run_rule w r (spread_context [(''kind'', JStr ''scheduled''), (''rule'', JStr rule)] c) a
                 (''agent:'' @ agent_name a @ '':schedule-'' @ rule @ ''-'' @ trace) trace trace s))"

definition process_scheduled_task :: "'s task_world \<Rightarrow> agent \<Rightarrow> string option \<Rightarrow> string option \<Rightarrow> string \<Rightarrow> props \<Rightarrow>
    's task_state \<Rightarrow> (task_failure + string) \<times> 's task_state" where
  "process_scheduled_task w a job_id task rule c s =
     (let trace = schedule_trace w a rule in
      case fire_scheduled w task trace job_id s of
        (fire, s1) \<Rightarrow> if \<not> fire then (Inr trace, s1) else run_scheduled w a task rule c trace s1)"

definition process_task :: "'s task_world \<Rightarrow> agent \<Rightarrow> job \<Rightarrow> 's task_state \<Rightarrow> (task_failure + string) \<times> 's task_state" where
  "process_task w a j s =
     (case parse_task_envelope (jb_data j) of
        None \<Rightarrow> (Inl Envelope_invalid, s)
      | Some (Scheduled_envelope task rule c) \<Rightarrow> process_scheduled_task w a (jb_id j) task rule c s
      | Some (Internal_envelope i t c) \<Rightarrow> process_internal_task w a i t c s)"

text \<open>A worker exists for an agent with internal or schedule rules.\<close>

definition task_worker_starts :: "agent \<Rightarrow> bool" where
  "task_worker_starts a \<longleftrightarrow> rules_of a ''internal'' \<noteq> [] \<or> rules_of a ''schedule'' \<noteq> []"

section \<open>What a run leaves in place\<close>

lemma dispatch_task_runs: "tk_runs (snd (dispatch_task w d s)) = tk_runs s @ [d]"
  "tk_sched (snd (dispatch_task w d s)) = tk_sched s" "tk_memory (snd (dispatch_task w d s)) = tk_memory s"
  by (simp_all add: dispatch_task_def Let_def split: sum.split)

lemma run_rule_runs:
  "tk_sched (snd (run_rule w r p a k t j s)) = tk_sched s \<and> tk_memory (snd (run_rule w r p a k t j s)) = tk_memory s \<and>
   (\<exists>ds. tk_runs (snd (run_rule w r p a k t j s)) = tk_runs s @ ds \<and> length ds \<le> 1 \<and>
      list_all (\<lambda>d. ro_session_key (td_options d) = k \<and> ro_agent (td_options d) = agent_name a \<and>
        ro_max_turns (td_options d) = None) ds)"
  by (auto simp: run_rule_def dispatch_task_runs task_options_def split: sum.split prod.split)

lemma run_direct_prompt_runs:
  "\<exists>ds. tk_runs (snd (run_direct_prompt w direct c a k t s)) = tk_runs s @ ds \<and> length ds \<le> 1 \<and>
     tk_sched (snd (run_direct_prompt w direct c a k t s)) = tk_sched s"
  by (auto simp: run_direct_prompt_def Let_def dispatch_task_runs split: sum.split prod.split)

lemma run_scheduled_runs:
  "\<exists>ds. tk_runs (snd (run_scheduled w a task rule c t s)) = tk_runs s @ ds \<and> length ds \<le> 1 \<and>
     tk_sched (snd (run_scheduled w a task rule c t s)) = tk_sched s"
  using run_direct_prompt_runs run_rule_runs by (fastforce simp: run_scheduled_def split: option.split)

section \<open>Internal tasks run the first rule that holds\<close>

lemma find_holding_first:
  "list_all (rule_declines rx p) pre \<Longrightarrow> rule_matches rx p rule \<Longrightarrow>
   find_holding rx p (pre @ rule # post) = Inr (Some rule)"
  by (induction pre) (auto simp: rule_declines_def rule_matches_def split: option.splits)

lemma find_append: "find P (xs @ ys) = (case find P xs of None \<Rightarrow> find P ys | Some x \<Rightarrow> Some x)"
  by (induction xs) auto

lemma added_job_found:
  assumes "get_job qs a i = None"
  shows "get_job (add_task_job a data i qs) a i =
     Some \<lparr>tj_id = i, tj_data = data, tj_state = ''waiting'', tj_return = None, tj_failed = None\<rparr>"
proof -
  have "jobs_of (add_task_job a data i qs) a =
      jobs_of qs a @ [\<lparr>tj_id = i, tj_data = data, tj_state = ''waiting'', tj_return = None, tj_failed = None\<rparr>]"
    using assms by (simp add: add_task_job_def jobs_of_def)
  then show ?thesis using assms by (simp add: get_job_def find_append)
qed

text \<open>An internal task that was accepted is queued under its id for the agent it names, and whoever
  works that job runs the first internal rule that holds of the task type and context, on exactly
  that payload.\<close>

theorem created_task_runs:
  assumes "create_task uuid r agents qs = (Inr (i, name), qs')"
    and "get_job qs name uuid = None" and "tq_context r = Some c" and "wf_json (JObj c)"
    and "find (\<lambda>a. agent_name a = tq_agent r) agents = Some a"
    and "rules_of a ''internal'' = pre @ rule # post"
    and "p = spread_context [(''taskType'', JStr (tq_type r))] c"
    and "list_all (rule_declines (tw_rx w) (Val p)) pre" "rule_matches (tw_rx w) (Val p) rule"
  shows "i = uuid \<and> name = tq_agent r \<and> tp_status (get_task_status name i qs') = Task_queued \<and>
    (\<exists>j. get_job qs' name i = Some j \<and>
       process_task w a \<lparr>jb_id = Some i, jb_data = tj_data j\<rparr> s =
         run_rule w rule p a (''agent:'' @ name @ '':task-'' @ i) i i s)"
proof -
  have a: "agent_name a = tq_agent r" using assms(5) by (auto simp: find_Some_iff)
  have made: "i = uuid" "name = tq_agent r"
    "qs' = add_task_job name (json_stringify (internal_envelope_json uuid (tq_type r) c)) uuid qs"
    using assms(1,3,5) a by (auto simp: create_task_def)
  have job: "get_job qs' name i = Some \<lparr>tj_id = uuid, tj_data = json_stringify (internal_envelope_json uuid (tq_type r) c),
      tj_state = ''waiting'', tj_return = None, tj_failed = None\<rparr>"
    using added_job_found[OF assms(2)] made by simp
  have "find_holding (tw_rx w) (Val p) (rules_of a ''internal'') = Inr (Some rule)"
    using find_holding_first[OF assms(8,9)] assms(6) by simp
  then have "process_task w a \<lparr>jb_id = Some i, jb_data = json_stringify (internal_envelope_json uuid (tq_type r) c)\<rparr> s =
      run_rule w rule p a (''agent:'' @ name @ '':task-'' @ i) i i s"
    using assms(7) made(1,2) a
    by (simp add: process_task_def parse_internal_data[OF assms(4)] process_internal_task_def)
  moreover have "tp_status (get_task_status name i qs') = Task_queued"
    by (simp add: get_task_status_def job map_bull_state_to_task_status_def)
  ultimately show ?thesis using made(1,2) job by auto
qed

definition plain_rule :: "string \<Rightarrow> condition option \<Rightarrow> agent_rule" where
  "plain_rule n c = \<lparr>rule_name = Some n, rule_id = None, rule_condition = c, rule_template = None,
     rule_session = None, rule_memory = None, rule_max_turns = Some 300, rule_runner = None, rule_tools = None,
     rule_cron = None, rule_timezone = None, rule_context = None\<rparr>"

definition task_agent :: agent where
  "task_agent = \<lparr>agent_name = ''patch'', agent_dir = ''/w'', agent_routing =
     [(''internal'', [plain_rule ''none'' None, plain_rule ''draft'' (Some (Equals ''taskType'' ''draft''))])],
     agent_model_rules = []\<rparr>"

definition task_world_of :: "'s memory_env \<Rightarrow> 's task_world" where
  "task_world_of env = \<lparr>tw_rx = (\<lambda>_ _. None), tw_now = 5, tw_read = (\<lambda>_. None), tw_render = (\<lambda>_ _ _. None),
     tw_runner_known = (\<lambda>n. n = ''claude-cli''), tw_bundle = (\<lambda>_. None),
     tw_run = (\<lambda>_. Inr \<lparr>rr_status = Run_ok, rr_run_id = Some ''r'', rr_error = None, rr_quota_reset = None, rr_session = None\<rparr>),
     tw_iso = (\<lambda>_. []), tw_sched = sample_sched_env 3, tw_memory = env, tw_namespaces = (\<lambda>_. None),
     tw_recall_head = ''['', tw_recall_tail = '']'', tw_fixed2 = (\<lambda>_. []), tw_top_k = 5, tw_min_similarity = 0\<rparr>"

definition task_state_of :: "'s memory_service \<Rightarrow> 's task_state" where
  "task_state_of m = \<lparr>tk_sched = sched_empty, tk_memory = m, tk_runs = []\<rparr>"

definition draft_request :: task_request where
  "draft_request = \<lparr>tq_agent = ''patch'', tq_type = ''draft'', tq_context = Some [(''k'', JNum 1)]\<rparr>"

lemma draft_rule_first:
  "rule_declines (tw_rx (task_world_of env)) (Val p) (plain_rule ''none'' None)"
  "rule_matches (tw_rx (task_world_of env)) (Val (JObj [(''taskType'', JStr ''draft''), (''k'', JNum 1)]))
     (plain_rule ''draft'' (Some (Equals ''taskType'' ''draft'')))"
  by (simp_all add: rule_declines_def rule_matches_def plain_rule_def evaluate_equals_def resolve_field_path_def
      object_read_def test_resolved_def)

theorem created_task_runs_witness:
  "''u'' = ''u'' \<and> ''patch'' = tq_agent draft_request \<and>
   tp_status (get_task_status ''patch'' ''u'' (snd (create_task ''u'' draft_request [task_agent] []))) = Task_queued \<and>
   (\<exists>j. get_job (snd (create_task ''u'' draft_request [task_agent] [])) ''patch'' ''u'' = Some j \<and>
      process_task (task_world_of redis_env) task_agent \<lparr>jb_id = Some ''u'', jb_data = tj_data j\<rparr> (task_state_of redis_service) =
        run_rule (task_world_of redis_env) (plain_rule ''draft'' (Some (Equals ''taskType'' ''draft'')))
          (JObj [(''taskType'', JStr ''draft''), (''k'', JNum 1)]) task_agent
          (''agent:'' @ ''patch'' @ '':task-'' @ ''u'') ''u'' ''u'' (task_state_of redis_service))"
  by (rule created_task_runs[where qs = "[]" and agents = "[task_agent]" and c = "[(''k'', JNum 1)]"
        and pre = "[plain_rule ''none'' None]" and post = "[]"])
    (simp_all add: draft_rule_first, simp_all add: create_task_def draft_request_def task_agent_def get_job_def
      jobs_of_def rules_of_def spread_context_def)

section \<open>The budget of a registered task\<close>

text \<open>A fire the registry allows is published as one, and nothing else of a job changes the registry.\<close>

lemma record_fire_counts:
  assumes "sched_inv (ss_redis s)" "record_fire env i job_id tr now s = (fire, s')"
  shows "fires i s' = (if fire then Suc (fires i s) else fires i s)"
proof (cases "get_by_id s i")
  case None
  then show ?thesis using assms(2) by (auto simp: record_fire_def)
next
  case (Some t)
  have "ts_id t = i" using sched_invD(1)[OF assms(1)] Some by (simp add: get_by_id_def)
  then show ?thesis using assms(2) Some
    by (auto simp: record_fire_def fires_def drop_task_def Let_def split: option.splits)
qed

datatype 's task_action =
    Work "'s task_world" agent job
  | Registry sched_env "int \<times> sched_action"
  | Memory_becomes "'s memory_service"

fun task_step :: "'s task_action \<Rightarrow> 's task_state \<Rightarrow> 's task_state" where
  "task_step (Work w a j) s = snd (process_task w a j s)"
| "task_step (Registry env op) s = s\<lparr>tk_sched := sched_step env op (tk_sched s)\<rparr>"
| "task_step (Memory_becomes m) s = s\<lparr>tk_memory := m\<rparr>"

definition names_task :: "string \<Rightarrow> job \<Rightarrow> bool" where
  "names_task i j = (case parse_task_envelope (jb_data j) of
     Some (Scheduled_envelope (Some k) rule c) \<Rightarrow> k = i | _ \<Rightarrow> False)"

text \<open>The runs that jobs naming a task hand to a runner.\<close>

fun runs_in_step :: "string \<Rightarrow> 's task_action \<Rightarrow> 's task_state \<Rightarrow> nat" where
  "runs_in_step i (Work w a j) s =
     (if names_task i j then length (tk_runs (snd (process_task w a j s))) - length (tk_runs s) else 0)"
| "runs_in_step i _ s = 0"

fun runs_of_task :: "string \<Rightarrow> 's task_action list \<Rightarrow> 's task_state \<Rightarrow> nat" where
  "runs_of_task i [] s = 0"
| "runs_of_task i (x # xs) s = runs_in_step i x s + runs_of_task i xs (task_step x s)"

fun recreates :: "string \<Rightarrow> 's task_action \<Rightarrow> bool" where
  "recreates i (Registry env op) = creates i op"
| "recreates i _ = False"

lemma process_scheduled_sched:
  "tk_sched (snd (process_scheduled_task w a job_id task rule c s)) =
     tk_sched (snd (fire_scheduled w task (schedule_trace w a rule) job_id s))"
  using run_scheduled_runs by (fastforce simp: process_scheduled_task_def Let_def split: prod.split)

lemma process_scheduled_runs:
  "length (tk_runs (snd (process_scheduled_task w a job_id task rule c s))) - length (tk_runs s) \<le>
     (if fst (fire_scheduled w task (schedule_trace w a rule) job_id s) then 1 else 0)"
proof (cases "fire_scheduled w task (schedule_trace w a rule) job_id s")
  case (Pair fire s1)
  have same: "tk_runs s1 = tk_runs s" using Pair by (auto simp: fire_scheduled_def split: option.splits prod.splits)
  obtain ds where "tk_runs (snd (run_scheduled w a task rule c (schedule_trace w a rule) s1)) = tk_runs s1 @ ds" "length ds \<le> 1"
    using run_scheduled_runs by blast
  then show ?thesis using Pair same by (simp add: process_scheduled_task_def Let_def)
qed

lemma process_internal_sched: "tk_sched (snd (process_internal_task w a i t c s)) = tk_sched s"
  by (simp add: process_internal_task_def Let_def run_rule_runs[THEN conjunct1] split: sum.split option.split)

lemma fire_within:
  assumes "limited i (tk_sched s)"
  shows "within_budget i (tk_sched s) (tk_sched (snd (fire_scheduled w task trace job_id s)))"
proof (cases task)
  case None
  then show ?thesis using assms by (simp add: fire_scheduled_def within_budget_def)
next
  case (Some k)
  show ?thesis
    using within_budget_fire[OF assms, of "tw_sched w" k "case job_id of Some j \<Rightarrow> j | None \<Rightarrow> trace" "Some trace" "tw_now w"]
    unfolding fire_scheduled_def Some by (simp add: case_prod_unfold)
qed

lemma fire_counts:
  assumes "limited i (tk_sched s)"
  shows "(if fst (fire_scheduled w (Some i) trace job_id s) then 1 else 0) + fires i (tk_sched s) =
     fires i (tk_sched (snd (fire_scheduled w (Some i) trace job_id s)))"
  using record_fire_counts[of "tk_sched s" "tw_sched w" i] assms
  by (auto simp: fire_scheduled_def limited_def split: prod.split)

lemma work_within:
  assumes "limited i (tk_sched s)"
  shows "within_budget i (tk_sched s) (tk_sched (snd (process_task w a j s))) \<and>
     runs_in_step i (Work w a j) s + budget i (tk_sched (snd (process_task w a j s))) \<le> budget i (tk_sched s)"
proof (cases "parse_task_envelope (jb_data j)")
  case None
  then show ?thesis using assms by (simp add: process_task_def names_task_def within_budget_def)
next
  case (Some e)
  show ?thesis
  proof (cases e)
    case (Internal_envelope k t c)
    then show ?thesis using assms Some
      by (simp add: process_task_def names_task_def within_budget_def process_internal_sched)
  next
    case (Scheduled_envelope task rule c)
    let ?f = "fire_scheduled w task (schedule_trace w a rule) (jb_id j) s"
    have step: "snd (process_task w a j s) = snd (process_scheduled_task w a (jb_id j) task rule c s)"
      using Some Scheduled_envelope by (simp add: process_task_def)
    have budget: "within_budget i (tk_sched s) (tk_sched (snd ?f))" by (rule fire_within[OF assms])
    have "runs_in_step i (Work w a j) s + fires i (tk_sched s) \<le> fires i (tk_sched (snd ?f))" if "names_task i j"
    proof -
      have task: "task = Some i" using that Some Scheduled_envelope by (simp add: names_task_def split: option.splits)
      have "runs_in_step i (Work w a j) s \<le> (if fst ?f then 1 else 0)"
        using process_scheduled_runs[of w a "jb_id j" task rule c s] that step by simp
      then show ?thesis using fire_counts[OF assms] unfolding task by (metis add_le_mono1)
    qed
    moreover have "fires i (tk_sched (snd ?f)) + budget i (tk_sched (snd ?f)) \<le> fires i (tk_sched s) + budget i (tk_sched s)"
      using budget by (simp add: within_budget_def)
    moreover have "fires i (tk_sched s) \<le> fires i (tk_sched (snd ?f))"
      by (auto simp: fire_scheduled_def record_fire_def drop_task_def fires_def Let_def split: option.split prod.split)
    ultimately show ?thesis using budget unfolding step process_scheduled_sched by fastforce
  qed
qed

lemma task_step_within:
  assumes "limited i (tk_sched s)" "\<not> recreates i x"
  shows "limited i (tk_sched (task_step x s)) \<and>
     runs_in_step i x s + budget i (tk_sched (task_step x s)) \<le> budget i (tk_sched s)"
proof (cases x)
  case (Work w a j)
  then show ?thesis using work_within[OF assms(1)] by (simp add: within_budget_def)
next
  case (Registry env op)
  have "fires i (tk_sched s) \<le> fires i (sched_step env op (tk_sched s))" by (rule fires_mono)
  then show ?thesis using within_budget_step[of i "tk_sched s" op env] assms Registry by (simp add: within_budget_def)
next
  case (Memory_becomes m)
  then show ?thesis using assms by simp
qed

text \<open>C11: A registered task starts no more runs than it has left: whatever jobs the worker picks up,
  however often it picks up the same one, and whatever the registry and the memory do in between,
  the jobs that name a one-shot task hand a runner at most one run, and those of a recurring one at
  most its remaining runs.\<close>

theorem task_runs_within_budget:
  assumes "limited i (tk_sched s)" and "list_all (\<lambda>x. \<not> recreates i x) xs"
  shows "runs_of_task i xs s \<le> budget i (tk_sched s)"
  using assms
proof (induction xs arbitrary: s)
  case (Cons x xs)
  have x: "limited i (tk_sched (task_step x s))"
    "runs_in_step i x s + budget i (tk_sched (task_step x s)) \<le> budget i (tk_sched s)"
    using task_step_within[of i s x] Cons.prems by auto
  have "runs_of_task i xs (task_step x s) \<le> budget i (tk_sched (task_step x s))" using Cons x(1) by simp
  then show ?case using x(2) by simp
qed simp

definition cron_state :: "sched_state" where
  "cron_state = sched_run (sample_sched_env 3)
     [(0, Upsert (sample_input (Some ''x'') ''a'' By_agent (Cron ''* * * * *'' None)) [])]"

definition fire_job :: job where
  "fire_job = \<lparr>jb_id = Some ''j'', jb_data = json_stringify (JObj [(''kind'', JStr ''scheduled''),
     (''taskId'', JStr ''x''), (''rule'', JStr ''x''), (''context'', JObj [(''directPrompt'', JStr ''go'')])])\<rparr>"

theorem task_runs_within_budget_witness:
  "runs_of_task ''x'' [Work (task_world_of redis_env) task_agent fire_job, Work (task_world_of redis_env) task_agent fire_job]
     ((task_state_of redis_service)\<lparr>tk_sched := cron_state\<rparr>) \<le>
   budget ''x'' (tk_sched ((task_state_of redis_service)\<lparr>tk_sched := cron_state\<rparr>))"
  by (rule task_runs_within_budget) (simp_all add: cron_state_def sample_cron_limited)

section \<open>Prompts agents leave for themselves\<close>

lemma map_of_spread:
  "map_of (fold (\<lambda>(k, v). AList.update k v) c m) k = (if k \<in> fst ` set c then map_of (rev c) k else map_of m k)"
  by (induction c rule: rev_induct) (auto simp: rev_image_eqI split: if_splits)

lemma build_recall_block_off: "build_recall_block w None q a t m = (None, m)"
  by (simp add: build_recall_block_def)

lemma direct_prompt_delivered:
  assumes "tw_runner_known w ''claude-cli''" "prepare_tools w (read_scheduled_tools c) = Inr tools"
  shows "\<exists>d. tk_runs (snd (run_direct_prompt w direct c a k t s)) = tk_runs s @ [d] \<and>
     td_runner d = Registered_runner ''claude-cli'' \<and> td_tools d = tools \<and> ro_agent (td_options d) = agent_name a \<and>
     suffix direct (ro_prompt (td_options d)) \<and>
     (read_use_memory c = None \<longrightarrow> ro_prompt (td_options d) = direct)"
  using assms
  by (auto simp: run_direct_prompt_def Let_def dispatch_task_runs task_options_def suffix_def build_recall_block_off
      split: prod.split option.split)

lemma commit_stored:
  assumes "commit env input i now e s = (Inr t, s')"
  shows "t = build_task env input i now e \<and> valid_task t \<and> get_by_id s' i = Some t"
  using assms by (auto simp: commit_def get_by_id_def Let_def build_task_def split: if_splits)

lemma upsert_stored:
  assumes "upsert env input random now s = (Inr t, s')"
  shows "get_by_id s' (task_id_of input random) = Some t \<and> ts_id t = task_id_of input random \<and> ts_id t \<noteq> [] \<and>
    ts_payload t = ci_payload input \<and> ts_agent t = ci_agent input"
proof -
  obtain e where "commit env input (task_id_of input random) now e s = (Inr t, s')"
    using assms by (auto simp: upsert_def Let_def split: sum.splits)
  from commit_stored[OF this] show ?thesis by (auto simp: build_task_def valid_task_def)
qed

lemma allowed_fire:
  assumes "get_by_id (tk_sched s) i = Some t" "check_expired t (tw_now w) = None"
  shows "\<exists>s1. fire_scheduled w (Some i) trace j s = (True, s1) \<and> tk_runs s1 = tk_runs s"
  using assms by (simp add: fire_scheduled_def record_fire_def Let_def)

lemma prompt_payload_members:
  assumes "prompt_payload q = JObj c" "fst ` set (case pr_context q of Some x \<Rightarrow> x | None \<Rightarrow> []) \<inter> {''directPrompt'', ''useMemory'', ''tools''} = {}"
  shows "map_of c ''directPrompt'' = Some (JStr (pr_prompt q))" "map_of c ''useMemory'' = pr_use_memory q"
    "map_of c ''tools'' = pr_tools q"
  using assms by (auto simp: prompt_payload_def map_of_spread split: option.splits)

lemma prepare_tools_total:
  "tw_bundle w = (\<lambda>_. None) \<Longrightarrow> prepare_tools w x = Inr (case x of Some r \<Rightarrow> r | None \<Rightarrow> [])"
  by (simp add: prepare_tools_def split: option.split list.split)


definition reminder :: prompt_request where
  "reminder = \<lparr>pr_agent = ''patch'', pr_prompt = ''check the build'', pr_use_memory = None, pr_tools = None,
     pr_context = Some [(''k'', JNum 1)], pr_name = None, pr_when = Fire_at 100, pr_ttl = None, pr_max_runs = None,
     pr_trace = ''tr''\<rparr>"

text \<open>The task the registry stores for it.\<close>

definition reminder_task :: "string \<Rightarrow> string \<Rightarrow> sched_task" where
  "reminder_task a dir = build_task (sample_sched_env 3)
     \<lparr>ci_id = None, ci_agent = a, ci_name = None, ci_when = Fire_at 100, ci_runner = ''claude-cli'',
      ci_config = JObj [(''type'', JStr ''claude-cli''), (''workDirectory'', JStr dir)],
      ci_payload = Some (prompt_payload (reminder\<lparr>pr_agent := a\<rparr>)), ci_created_by = By_agent,
      ci_trace = Some ''tr'', ci_ttl = None, ci_max_runs = None, ci_event_trace = None, ci_reason = Some Api_create\<rparr>
     (make_agent_task_id a ''z-1'') 0 None"

lemma reminder_accepted:
  "\<exists>s'. schedule_prompt (sample_sched_env 3) [(c # a, dir)] (reminder\<lparr>pr_agent := c # a\<rparr>) ''z-1'' 0 sched_empty = (201, s') \<and>
     get_by_id s' (make_agent_task_id (c # a) ''z-1'') = Some (reminder_task (c # a) dir)"
  by (simp add: schedule_prompt_def upsert_def task_id_of_def admit_def enforce_caps_def commit_def reminder_task_def
      reminder_def sample_sched_env_def sched_empty_def build_task_def valid_task_def make_agent_task_id_def get_by_id_def
      compute_next_fire_def Let_def)

definition reminded :: "string \<Rightarrow> string \<Rightarrow> sched_state" where
  "reminded a dir = snd (schedule_prompt (sample_sched_env 3) [(a, dir)] (reminder\<lparr>pr_agent := a\<rparr>) ''z-1'' 0 sched_empty)"

lemma reminded_facts:
  "schedule_prompt (sample_sched_env 3) [(c # a, dir)] (reminder\<lparr>pr_agent := c # a\<rparr>) ''z-1'' 0 sched_empty = (201, reminded (c # a) dir)"
  "get_by_id (reminded (c # a) dir) (make_agent_task_id (c # a) ''z-1'') = Some (reminder_task (c # a) dir)"
  using reminder_accepted[of c a dir] by (auto simp: reminded_def)

lemma reminder_alive: "check_expired (reminder_task a dir) now = None"
  by (simp add: check_expired_def reminder_task_def build_task_def)


text \<open>The context is spread over the task type and the rule name it comes with, so it may replace them.\<close>

lemma context_replaces_task_type:
  "spread_context [(''taskType'', JStr t)] [(''taskType'', v)] = JObj [(''taskType'', v)]"
  by (simp add: spread_context_def)

text \<open>No run of a task carries the turn limit of its rule.\<close>

lemma task_runs_drop_max_turns:
  "\<exists>ds. tk_runs (snd (process_internal_task w a i t c s)) = tk_runs s @ ds \<and>
     list_all (\<lambda>d. ro_max_turns (td_options d) = None) ds"
  using run_rule_runs[of w _ _ a]
  by (auto simp: process_internal_task_def Let_def list_all_iff split: sum.split option.split) blast

text \<open>A prompt is accepted for an agent that has neither internal nor schedule rules, whose task queue
  no worker serves.\<close>

lemma prompt_without_worker:
  "schedule_prompt (sample_sched_env 3) [(c # a, dir)] (reminder\<lparr>pr_agent := c # a\<rparr>) ''z-1'' 0 sched_empty = (201, reminded (c # a) dir)"
  "\<not> task_worker_starts \<lparr>agent_name = c # a, agent_dir = dir, agent_routing = [], agent_model_rules = []\<rparr>"
  by (simp_all add: reminded_facts task_worker_starts_def rules_of_def)

text \<open>A one-shot task whose run fails is gone from the registry: working its job again reports success
  and runs nothing.\<close>

lemma failed_one_shot_skipped:
  assumes "get_by_id (tk_sched s) i = Some t" "ts_when t = Fire_at due" "check_expired t (tw_now w) = None" "ts_id t = i"
    and "fire_scheduled w (Some i) tr j s = (True, s1)"
  shows "fire_scheduled w' (Some i) tr' j' s1 = (False, s1)"
proof -
  have "get_by_id (tk_sched s1) i = None"
    using assms by (auto simp: fire_scheduled_def record_fire_def Let_def get_by_id_def)
  then show ?thesis by (simp add: fire_scheduled_def record_fire_def)
qed

end
