(* ===== verification/StreamParser.thy ===== *)
theory StreamParser
  imports Events Extract
begin

text \<open>
  The output stream of the command-line runner: \<open>runners/claude-cli-stream-parser.ts\<close> (lines to
  events, events to the bus, the subscription-limit message) and \<open>runners/claude-cli-usage.ts\<close>.
  JSON numbers are integers here, so is the cost of a run; a separator of the limit message is a
  hyphen or the middle dot, the em dash lies outside the eight-bit characters. The offset of a time
  zone at an instant is a parameter: \<open>zone_offset zone t\<close> is \<open>None\<close> for an unknown zone.
\<close>

section \<open>Lines and events\<close>

record content_block =
  cb_type :: "string option"
  cb_text :: "string option"
  cb_name :: "string option"
  cb_input :: "json option"

record stream_event =
  stm_type :: "string option"
  stm_subtype :: "string option"
  stm_session :: "string option"
  stm_content :: "content_block list option"
  stm_turns :: "int option"
  stm_cost :: "int option"
  stm_raw :: props

fun parse_num :: "json \<Rightarrow> int option" where
  "parse_num (JNum n) = Some n"
| "parse_num _ = None"

fun parse_content_block :: "json \<Rightarrow> content_block option" where
  "parse_content_block (JObj ps) =
     (case (optional_string_member ps ''type'', optional_string_member ps ''text'', optional_string_member ps ''name'') of
        (Some t, Some x, Some n) \<Rightarrow> Some \<lparr>cb_type = t, cb_text = x, cb_name = n, cb_input = map_of ps ''input''\<rparr>
      | _ \<Rightarrow> None)"
| "parse_content_block _ = None"

text \<open>The member \<open>message\<close>: absent, an object without content, or one with a list of blocks.\<close>

fun parse_message :: "json \<Rightarrow> content_block list option option" where
  "parse_message (JObj ps) = optional_member (parse_array parse_content_block) ps ''content''"
| "parse_message _ = None"

fun parse_stream_event :: "json \<Rightarrow> stream_event option" where
  "parse_stream_event (JObj ps) =
     (case (optional_string_member ps ''type'', optional_string_member ps ''subtype'',
            optional_string_member ps ''session_id'', optional_member parse_message ps ''message'',
            optional_member parse_num ps ''num_turns'', optional_member parse_num ps ''total_cost_usd'') of
        (Some t, Some u, Some i, Some m, Some n, Some c) \<Rightarrow>
          Some \<lparr>stm_type = t, stm_subtype = u, stm_session = i,
            stm_content = (case m of Some x \<Rightarrow> x | None \<Rightarrow> None), stm_turns = n, stm_cost = c, stm_raw = ps\<rparr>
      | _ \<Rightarrow> None)"
| "parse_stream_event _ = None"

definition parse_stream_line :: "string \<Rightarrow> stream_event option" where
  "parse_stream_line line =
     (let trimmed = trim line in
      if trimmed = [] then None
      else (case json_parse trimmed of None \<Rightarrow> None | Some v \<Rightarrow> parse_stream_event v))"

text \<open>Events carry the trace and the job of a run; without either (or with an empty one) nothing is
  published.\<close>

record stream_run =
  sr_run :: string
  sr_trace :: "string option"
  sr_job :: "string option"

definition run_ids :: "stream_run \<Rightarrow> (string \<times> string) option" where
  "run_ids r =
     (case (sr_trace r, sr_job r) of
        (Some (c # t), Some (d # j)) \<Rightarrow> Some (c # t, d # j)
      | _ \<Rightarrow> None)"

definition emit_block :: "stream_run \<Rightarrow> millis \<Rightarrow> content_block \<Rightarrow> clawndom_event list" where
  "emit_block r now b =
     (case run_ids r of
        None \<Rightarrow> []
      | Some (t, j) \<Rightarrow>
          if cb_type b = Some ''text'' \<and> cb_text b \<noteq> None
          then [Runner (Runner_assistant_text now t j (sr_run r) (the (cb_text b)))]
          else if cb_type b = Some ''tool_use''
          then [Runner (Runner_tool_call now t j (sr_run r) (case cb_name b of Some n \<Rightarrow> n | None \<Rightarrow> []) (cb_input b))]
          else [])"

definition emit_assistant_events :: "stream_run \<Rightarrow> millis \<Rightarrow> stream_event \<Rightarrow> clawndom_event list" where
  "emit_assistant_events r now e =
     (case stm_content e of None \<Rightarrow> [] | Some bs \<Rightarrow> concat (map (emit_block r now) bs))"

definition emit_result_event :: "stream_run \<Rightarrow> millis \<Rightarrow> stream_event \<Rightarrow> clawndom_event list" where
  "emit_result_event r now e =
     (case run_ids r of
        None \<Rightarrow> []
      | Some (t, j) \<Rightarrow>
          [Runner (Runner_result now t j (sr_run r) (case stm_turns e of Some n \<Rightarrow> n | None \<Rightarrow> 0)
             (case stm_cost e of Some c \<Rightarrow> of_int c | None \<Rightarrow> 0))])"

definition emit_stream_event :: "stream_run \<Rightarrow> millis \<Rightarrow> stream_event \<Rightarrow> clawndom_event list" where
  "emit_stream_event r now e =
     (if stm_type e = Some ''assistant'' then emit_assistant_events r now e
      else if stm_type e = Some ''result'' then emit_result_event r now e
      else [])"

definition extract_session_id_from_init_event :: "stream_event \<Rightarrow> string option" where
  "extract_session_id_from_init_event e =
     (if stm_type e \<noteq> Some ''system'' \<or> stm_subtype e \<noteq> Some ''init'' then None else stm_session e)"

section \<open>Usage\<close>

record usage_stats =
  us_input :: int
  us_cache_read :: int
  us_cache_creation :: int
  us_output :: int
  us_context :: int
  us_turns :: int
  us_cost :: int

definition read_number :: "props \<Rightarrow> string \<Rightarrow> int" where
  "read_number ps k = (case map_of ps k of Some (JNum n) \<Rightarrow> n | _ \<Rightarrow> 0)"

definition extract_usage_from_result_event :: "stream_event \<Rightarrow> usage_stats option" where
  "extract_usage_from_result_event e =
     (if stm_type e \<noteq> Some ''result'' then None
      else (case map_of (stm_raw e) ''usage'' of
              Some (JObj u) \<Rightarrow>
                (let i = read_number u ''input_tokens''; r = read_number u ''cache_read_input_tokens'';
                     c = read_number u ''cache_creation_input_tokens''
                 in Some \<lparr>us_input = i, us_cache_read = r, us_cache_creation = c,
                      us_output = read_number u ''output_tokens'', us_context = i + r + c,
                      us_turns = read_number (stm_raw e) ''num_turns'', us_cost = read_number (stm_raw e) ''total_cost_usd''\<rparr>)
            | _ \<Rightarrow> None))"

section \<open>The limit message\<close>

definition drop_spaces :: "string \<Rightarrow> string" where
  "drop_spaces = dropWhile is_space"

text \<open>A keyword of the pattern, in either case.\<close>

definition match_word :: "string \<Rightarrow> string \<Rightarrow> string option" where
  "match_word w s = (if map lower_char (take (length w) s) = w then Some (drop (length w) s) else None)"

definition match_any :: "string list \<Rightarrow> string \<Rightarrow> (string \<times> string) option" where
  "match_any ws s = (case filter (\<lambda>w. match_word w s \<noteq> None) ws of [] \<Rightarrow> None | w # _ \<Rightarrow> Some (w, the (match_word w s)))"

definition is_separator :: "char \<Rightarrow> bool" where
  "is_separator c \<longleftrightarrow> c = CHR ''-'' \<or> c = CHR 0xB7"

text \<open>\<open>\d{1,2}\<close> and the optional \<open>:\d{2}\<close>; the pattern never gives back a digit, since what follows
  a shorter match would have to be a digit.\<close>

definition match_hour :: "string \<Rightarrow> (nat \<times> string) option" where
  "match_hour s =
     (case s of
        a # b # r \<Rightarrow>
          (if is_digit a then (if is_digit b then Some (nat_of_digits [a, b], r) else Some (nat_of_digits [a], b # r)) else None)
      | [a] \<Rightarrow> (if is_digit a then Some (nat_of_digits [a], []) else None)
      | [] \<Rightarrow> None)"

definition match_minute :: "string \<Rightarrow> nat \<times> string" where
  "match_minute s =
     (case s of
        c # a # b # r \<Rightarrow> (if c = CHR '':'' \<and> is_digit a \<and> is_digit b then (nat_of_digits [a, b], r) else (0, s))
      | _ \<Rightarrow> (0, s))"

definition match_zone :: "string \<Rightarrow> string option" where
  "match_zone s =
     (case s of
        c # r \<Rightarrow>
          (let z = takeWhile (\<lambda>x. x \<noteq> CHR '')'') r in
           if c = CHR ''('' \<and> z \<noteq> [] \<and> length z < length r \<and> drop_spaces (drop (Suc (length z)) r) = [] then Some z else None)
      | [] \<Rightarrow> None)"

text \<open>The groups of the pattern: hour, minute (0 when left out), afternoon, zone.\<close>

definition match_limit :: "string \<Rightarrow> (nat \<times> nat \<times> bool \<times> string) option" where
  "match_limit text =
     (case match_any [''you've hit your limit'', ''youve hit your limit''] (drop_spaces text) of
        None \<Rightarrow> None
      | Some (_, r1) \<Rightarrow>
     (case drop_spaces r1 of
        [] \<Rightarrow> None
      | sep # r2 \<Rightarrow>
     if \<not> is_separator sep then None
     else (case match_word ''resets'' (drop_spaces r2) of
        None \<Rightarrow> None
      | Some r3 \<Rightarrow>
     if r3 = [] \<or> \<not> is_space (hd r3) then None
     else (case match_hour (drop_spaces r3) of
        None \<Rightarrow> None
      | Some (hour, r4) \<Rightarrow>
     (case match_minute r4 of
        (minute, r5) \<Rightarrow>
     (case match_any [''am'', ''pm''] (drop_spaces r5) of
        None \<Rightarrow> None
      | Some (half, r6) \<Rightarrow>
     (case match_zone (drop_spaces r6) of
        None \<Rightarrow> None
      | Some zone \<Rightarrow> Some (hour, minute, half = ''pm'', zone))))))))"

definition day_ms :: millis where "day_ms = 86400000"

definition hour24 :: "nat \<Rightarrow> bool \<Rightarrow> nat" where
  "hour24 hour afternoon = hour mod 12 + (if afternoon then 12 else 0)"

text \<open>The wall clock of the reset on the day of \<open>now\<close> in the zone, and the instant it stands for.\<close>

definition reset_instant :: "(string \<Rightarrow> millis \<Rightarrow> millis option) \<Rightarrow> string \<Rightarrow> nat \<Rightarrow> nat \<Rightarrow> millis \<Rightarrow> millis option" where
  "reset_instant zone_offset zone hour minute now =
     (case zone_offset zone now of
        None \<Rightarrow> None
      | Some off \<Rightarrow>
          (let wall = (now + off) div day_ms * day_ms + int hour * 3600000 + int minute * 60000 in
           case zone_offset zone (wall - off) of
             None \<Rightarrow> None
           | Some off' \<Rightarrow>
               (let reset = wall - off' in Some (if reset \<le> now then reset + day_ms else reset))))"

definition parse_quota_limit_message :: "(string \<Rightarrow> millis \<Rightarrow> millis option) \<Rightarrow> string \<Rightarrow> millis \<Rightarrow> millis option" where
  "parse_quota_limit_message zone_offset text now =
     (case match_limit text of
        None \<Rightarrow> None
      | Some (hour, minute, afternoon, zone) \<Rightarrow>
          if hour < 1 \<or> hour > 12 \<or> minute > 59 then None
          else reset_instant zone_offset (trim zone) (hour24 hour afternoon) minute now)"

definition quota_reset_of_event :: "(string \<Rightarrow> millis \<Rightarrow> millis option) \<Rightarrow> millis \<Rightarrow> stream_event \<Rightarrow> millis option" where
  "quota_reset_of_event zone_offset now e =
     (case stm_content e of
        None \<Rightarrow> None
      | Some bs \<Rightarrow>
          (case filter (\<lambda>r. r \<noteq> None) (map (\<lambda>b. if cb_type b = Some ''text'' \<and> cb_text b \<noteq> None
              then parse_quota_limit_message zone_offset (the (cb_text b)) now else None) bs) of
             [] \<Rightarrow> None
           | r # _ \<Rightarrow> r))"

section \<open>The announced time is the next one\<close>

text \<open>While the zone keeps its offset, the reset lies in the next twenty-four hours and is the time of
  day that was announced.\<close>

lemma reset_instant_next:
  assumes "zone_offset zone = (\<lambda>_. Some off)" "hour < 24" "minute < 60"
    and "reset_instant zone_offset zone hour minute now = Some reset"
  shows "now < reset \<and> reset \<le> now + day_ms \<and>
    (reset + off) mod day_ms = int hour * 3600000 + int minute * 60000"
proof -
  let ?tod = "int hour * 3600000 + int minute * 60000"
  let ?start = "(now + off) div day_ms * day_ms"
  have tod: "0 \<le> ?tod" "?tod < day_ms" using assms(2,3) by (auto simp: day_ms_def)
  have day: "?start \<le> now + off" "now + off < ?start + day_ms"
    using pos_mod_bound[of day_ms "now + off"] pos_mod_sign[of day_ms "now + off"] div_mult_mod_eq[of "now + off" day_ms]
    by (auto simp: day_ms_def)
  have r: "reset = (if ?start + ?tod - off \<le> now then ?start + ?tod - off + day_ms else ?start + ?tod - off)"
    using assms(1,4) by (auto simp: reset_instant_def Let_def)
  obtain k where "reset + off = ?tod + k * day_ms"
  proof
    show "reset + off = ?tod + (if ?start + ?tod - off \<le> now then (now + off) div day_ms + 1 else (now + off) div day_ms) * day_ms"
      unfolding r by (simp split: if_split) (simp add: ring_distribs)
  qed
  then have "(reset + off) mod day_ms = ?tod" using tod by simp
  then show ?thesis using r tod day by auto
qed

lemma parsed_limit:
  assumes "parse_quota_limit_message zone_offset text now = Some reset"
  obtains hour minute afternoon zone where "match_limit text = Some (hour, minute, afternoon, zone)"
    "hour24 hour afternoon < 24" "minute < 60"
    "reset_instant zone_offset (trim zone) (hour24 hour afternoon) minute now = Some reset"
  using assms by (auto simp: parse_quota_limit_message_def hour24_def split: option.splits prod.splits if_splits)

text \<open>Where the zone sets its clock back between the candidate and now, the corrected instant can lie
  in the past: a limit met half an hour before midnight is to be lifted half an hour ago.\<close>

lemma reset_in_the_past:
  "reset_instant (\<lambda>_ t. Some (if t < 20000000 then - 14400000 else - 18000000)) zone 0 0 102600000 = Some 100800000"
  by (simp add: reset_instant_def day_ms_def)

end
