(* ===== verification/CliRunner.thy ===== *)
theory CliRunner
  imports StreamParser Worker Sessions
begin

text \<open>
  The command-line runner: \<open>runners/claude-cli.runner.ts\<close> (arguments, environment, the subprocess
  from its first output to its result) and \<open>runners/claude-cli-session-mode.ts\<close> (one turn of a
  pooled session). A run is a sequence of actions of its subprocess and timers; the promise of the
  run keeps the first result it is given.
\<close>

section \<open>Lines of a stream\<close>

text \<open>A handler of \<open>data\<close> appends the chunk to its buffer, handles every complete line and keeps the
  rest. The runner and the session pool share the shape.\<close>

abbreviation line_feed :: char where "line_feed \<equiv> CHR 0x0A"

definition feed :: "(string \<Rightarrow> 's \<Rightarrow> 's) \<Rightarrow> string \<Rightarrow> string \<times> 's \<Rightarrow> string \<times> 's" where
  "feed handle chunk bs =
     (let lines = split_on line_feed (fst bs @ chunk) in (last lines, fold handle (butlast lines) (snd bs)))"

lemma split_on_append:
  "split_on c (xs @ ys) = butlast (split_on c xs) @ split_on c (last (split_on c xs) @ ys)"
proof (induction xs)
  case (Cons x xs)
  obtain w ws where w: "split_on c xs = w # ws" by (cases "split_on c xs") auto
  show ?case
  proof (cases ws)
    case Nil
    then have "c \<notin> set xs" "w = xs" using w split_on_no_sep[of _ c xs] join_split_on[of c xs] by auto
    then show ?thesis using Cons.IH w Nil by (auto split: list.split)
  next
    case (Cons v vs)
    then show ?thesis using Cons.IH w by (auto split: list.split)
  qed
qed simp

lemma feed_append: "feed handle c2 (feed handle c1 bs) = feed handle (c1 @ c2) bs"
proof -
  let ?ls = "split_on line_feed (fst bs @ c1)"
  have "split_on line_feed (fst bs @ c1 @ c2) = butlast ?ls @ split_on line_feed (last ?ls @ c2)"
    using split_on_append[of line_feed "fst bs @ c1" c2] by simp
  then show ?thesis by (simp add: feed_def Let_def butlast_append)
qed

lemma feed_chunks: "fold (feed handle) (c # cs) bs = feed handle (concat (c # cs)) bs"
proof (induction cs arbitrary: c bs)
  case (Cons d cs)
  have "fold (feed handle) (c # d # cs) bs = fold (feed handle) ((c @ d) # cs) bs" by (simp add: feed_append)
  then show ?case using Cons[of "c @ d" bs] by simp
qed simp

section \<open>Starting the subprocess\<close>

definition default_max_turns :: nat where "default_max_turns = 150"

text \<open>\<open>mcp\<close> is the path of the tool configuration, when the run has one.\<close>

definition combined_system :: "string option \<Rightarrow> string option \<Rightarrow> string" where
  "combined_system config per_run =
     join (newline @ newline) (filter (\<lambda>s. s \<noteq> []) (map (\<lambda>x. case x of Some s \<Rightarrow> s | None \<Rightarrow> []) [config, per_run]))"

definition build_run_args :: "run_options \<Rightarrow> string option \<Rightarrow> string option \<Rightarrow> string list" where
  "build_run_args opts system mcp =
     [''-p'', ro_prompt opts, ''--output-format'', ''stream-json'', ''--verbose'', ''--max-turns'',
      string_of_nat (case ro_max_turns opts of Some n \<Rightarrow> n | None \<Rightarrow> default_max_turns),
      ''--dangerously-skip-permissions'']
     @ (case ro_model opts of Some (c # m) \<Rightarrow> [''--model'', c # m] | _ \<Rightarrow> [])
     @ (case mcp of Some p \<Rightarrow> [''--mcp-config'', p, ''--strict-mcp-config''] | None \<Rightarrow> [])
     @ (case ro_resume opts of
          Some i \<Rightarrow> [''--resume'', i]
        | None \<Rightarrow>
            (let s = combined_system system (ro_system_prompt opts) in
             if length s > 0 then [''--system-prompt'', s] else []))"

type_synonym environment = "(string, string) jsmap"

definition overlay_env :: "environment \<Rightarrow> environment option \<Rightarrow> environment" where
  "overlay_env base extra = fold (\<lambda>(k, v). AList.update k v) (case extra of Some e \<Rightarrow> e | None \<Rightarrow> []) base"

record cli_runner =
  cr_directory :: string
  cr_binary :: string
  cr_system :: "string option"

text \<open>The constructor throws without a work directory.\<close>

definition new_cli_runner :: "runner_config \<Rightarrow> string + cli_runner" where
  "new_cli_runner c =
     (case c of
        Claude_cli_config (Some d) b p _ \<Rightarrow>
          Inr \<lparr>cr_directory = d, cr_binary = (case b of Some x \<Rightarrow> x | None \<Rightarrow> ''claude''), cr_system = p\<rparr>
      | _ \<Rightarrow> Inl ''claude-cli runner requires workDirectory (fill it at provider merge)'')"

record spawned =
  sp_binary :: string
  sp_args :: "string list"
  sp_cwd :: string
  sp_env :: environment

definition spawn_cli :: "cli_runner \<Rightarrow> run_options \<Rightarrow> string option \<Rightarrow> (string \<times> environment) option \<Rightarrow> environment \<Rightarrow> spawned" where
  "spawn_cli r opts override bundle process_env =
     \<lparr>sp_binary = cr_binary r, sp_args = build_run_args opts (cr_system r) (map_option fst bundle),
      sp_cwd = (case override of Some d \<Rightarrow> d | None \<Rightarrow> cr_directory r),
      sp_env = overlay_env (overlay_env process_env (ro_env opts)) (map_option snd bundle)\<rparr>"

definition cli_healthy :: "environment \<Rightarrow> bool \<Rightarrow> bool" where
  "cli_healthy process_env credentials_exist \<longleftrightarrow> map_of process_env ''CLAUDE_CODE_OAUTH_TOKEN'' \<noteq> None \<or> credentials_exist"

text \<open>A run with tools exposes nothing else, and a resumed run is never given a system prompt.\<close>

lemma run_args_strict:
  "mcp = Some p \<Longrightarrow> ''--strict-mcp-config'' \<in> set (build_run_args opts system mcp)"
  "ro_resume opts = Some i \<Longrightarrow> mcp = None \<Longrightarrow>
     build_run_args opts system mcp = butlast (butlast (build_run_args opts system mcp)) @ [''--resume'', i]"
  by (auto simp: build_run_args_def butlast_append)

section \<open>The subprocess\<close>

record cli_run =
  cl_buffer :: string
  cl_session :: "string option"
  cl_quota :: "millis option"
  cl_events :: "clawndom_event list"
  cl_stderr :: string
  cl_armed :: bool
  cl_timed_out :: bool
  cl_killed :: bool
  cl_signals :: "string list"
  cl_result :: "run_result option"

definition new_cli_run :: cli_run where
  "new_cli_run = \<lparr>cl_buffer = [], cl_session = None, cl_quota = None, cl_events = [], cl_stderr = [],
     cl_armed = True, cl_timed_out = False, cl_killed = False, cl_signals = [], cl_result = None\<rparr>"

record cli_env =
  ce_zone :: "string \<Rightarrow> millis \<Rightarrow> millis option"
  ce_run :: stream_run
  ce_timeout :: millis

text \<open>One line: the session id of the first init event, the first limit message, the events.\<close>

definition handle_line :: "cli_env \<Rightarrow> millis \<Rightarrow> string \<Rightarrow> cli_run \<Rightarrow> cli_run" where
  "handle_line env now line s =
     (case parse_stream_line line of
        None \<Rightarrow> s
      | Some e \<Rightarrow>
          s\<lparr>cl_session := (case cl_session s of Some i \<Rightarrow> Some i | None \<Rightarrow> extract_session_id_from_init_event e),
            cl_quota := (case cl_quota s of Some t \<Rightarrow> Some t | None \<Rightarrow> quota_reset_of_event (ce_zone env) now e),
            cl_events := cl_events s @ emit_stream_event (ce_run env) now e\<rparr>)"

definition on_stdout :: "cli_env \<Rightarrow> millis \<Rightarrow> string \<Rightarrow> cli_run \<Rightarrow> cli_run" where
  "on_stdout env now chunk s =
     (case feed (handle_line env now) chunk (cl_buffer s, s) of (rest, s') \<Rightarrow> s'\<lparr>cl_buffer := rest\<rparr>)"

text \<open>\<open>child.kill\<close> sets \<open>child.killed\<close> when the signal could be sent; it says nothing of the process
  having ended.\<close>

definition send_signal :: "string \<Rightarrow> bool \<Rightarrow> cli_run \<Rightarrow> cli_run" where
  "send_signal sig deliverable s =
     (if deliverable then s\<lparr>cl_signals := cl_signals s @ [sig], cl_killed := True\<rparr> else s)"

definition settle :: "run_result \<Rightarrow> cli_run \<Rightarrow> cli_run" where
  "settle r s = (case cl_result s of None \<Rightarrow> s\<lparr>cl_result := Some r\<rparr> | Some _ \<Rightarrow> s)"

text \<open>\<open>code\<close> is null when a signal ended the process.\<close>

definition exit_code_text :: "int option \<Rightarrow> string" where
  "exit_code_text code = (case code of Some n \<Rightarrow> string_of_int n | None \<Rightarrow> ''null'')"

definition close_result :: "cli_env \<Rightarrow> int option \<Rightarrow> cli_run \<Rightarrow> run_result" where
  "close_result env code s =
     (let r = \<lparr>rr_status = Run_ok, rr_run_id = Some (sr_run (ce_run env)), rr_error = None, rr_quota_reset = None,
               rr_session = cl_session s\<rparr> in
      if cl_timed_out s
      then r\<lparr>rr_status := Run_timeout, rr_error := Some (''Claude CLI timed out after '' @ string_of_int (ce_timeout env) @ ''ms'')\<rparr>
      else case cl_quota s of
             Some t \<Rightarrow> r\<lparr>rr_status := Run_quota_exceeded, rr_quota_reset := Some t\<rparr>
           | None \<Rightarrow>
               if code \<noteq> Some 0
               then r\<lparr>rr_status := Run_error,
                      rr_error := Some (if trim (cl_stderr s) \<noteq> [] then trim (cl_stderr s)
                                        else ''Claude CLI exited with code '' @ exit_code_text code)\<rparr>
               else r)"

datatype cli_action =
    Stdout string
  | Stderr string
  | Soft_timer bool
  | Grace_timer bool
  | Closed "int option"
  | Child_error string

fun cli_step :: "cli_env \<Rightarrow> millis \<times> cli_action \<Rightarrow> cli_run \<Rightarrow> cli_run" where
  "cli_step env (now, Stdout chunk) s = on_stdout env now chunk s"
| "cli_step env (now, Stderr chunk) s = s\<lparr>cl_stderr := cl_stderr s @ chunk\<rparr>"
| "cli_step env (now, Soft_timer deliverable) s =
     (if cl_armed s then send_signal ''SIGTERM'' deliverable (s\<lparr>cl_armed := False, cl_timed_out := True\<rparr>) else s)"
| "cli_step env (now, Grace_timer deliverable) s =
     (if cl_timed_out s \<and> \<not> cl_killed s then send_signal ''SIGKILL'' deliverable s else s)"
| "cli_step env (now, Closed code) s = settle (close_result env code s) (s\<lparr>cl_armed := False\<rparr>)"
| "cli_step env (now, Child_error message) s =
     settle \<lparr>rr_status = Run_error, rr_run_id = Some (sr_run (ce_run env)), rr_error = Some message,
              rr_quota_reset = None, rr_session = None\<rparr> (s\<lparr>cl_armed := False\<rparr>)"

definition cli_outcome :: "cli_env \<Rightarrow> (millis \<times> cli_action) list \<Rightarrow> cli_run" where
  "cli_outcome env xs = fold (cli_step env) xs new_cli_run"

section \<open>However the output is cut into chunks\<close>

lemma handle_line_buffer: "handle_line env now l (s\<lparr>cl_buffer := b\<rparr>) = (handle_line env now l s)\<lparr>cl_buffer := b\<rparr>"
  by (simp add: handle_line_def split: option.split)

lemma handle_lines_buffer:
  "fold (handle_line env now) ls (s\<lparr>cl_buffer := b\<rparr>) = (fold (handle_line env now) ls s)\<lparr>cl_buffer := b\<rparr>"
  by (induction ls arbitrary: s) (simp_all add: handle_line_buffer)

lemma on_stdout_feed:
  "on_stdout env now chunk s =
     (let ls = split_on line_feed (cl_buffer s @ chunk) in (fold (handle_line env now) (butlast ls) s)\<lparr>cl_buffer := last ls\<rparr>)"
  by (simp add: on_stdout_def feed_def Let_def)

lemma on_stdout_append: "on_stdout env now c2 (on_stdout env now c1 s) = on_stdout env now (c1 @ c2) s"
  using feed_append[of "handle_line env now" c2 c1 "(cl_buffer s, s)"]
  by (simp add: on_stdout_feed feed_def Let_def handle_lines_buffer)

lemma handle_line_stderr:
  "handle_line env now l (s\<lparr>cl_stderr := e\<rparr>) = (handle_line env now l s)\<lparr>cl_stderr := e\<rparr>"
  "cl_stderr (handle_line env now l s) = cl_stderr s"
  by (simp_all add: handle_line_def split: option.split)

lemma handle_lines_stderr:
  "fold (handle_line env now) ls (s\<lparr>cl_stderr := e\<rparr>) = (fold (handle_line env now) ls s)\<lparr>cl_stderr := e\<rparr>"
  "cl_stderr (fold (handle_line env now) ls s) = cl_stderr s"
  by (induction ls arbitrary: s) (simp_all add: handle_line_stderr)

lemma on_stdout_stderr:
  "on_stdout env now c (s\<lparr>cl_stderr := e\<rparr>) = (on_stdout env now c s)\<lparr>cl_stderr := e\<rparr>"
  "cl_stderr (on_stdout env now c s) = cl_stderr s"
  by (simp_all add: on_stdout_feed Let_def handle_lines_stderr)

fun stdout_of :: "(millis \<times> cli_action) list \<Rightarrow> string" where
  "stdout_of [] = []"
| "stdout_of ((t, Stdout c) # xs) = c @ stdout_of xs"
| "stdout_of (x # xs) = stdout_of xs"

fun stderr_of :: "(millis \<times> cli_action) list \<Rightarrow> string" where
  "stderr_of [] = []"
| "stderr_of ((t, Stderr c) # xs) = c @ stderr_of xs"
| "stderr_of (x # xs) = stderr_of xs"

fun is_output :: "cli_action \<Rightarrow> bool" where
  "is_output (Stdout c) = True"
| "is_output (Stderr c) = True"
| "is_output _ = False"

lemma output_from:
  "list_all (\<lambda>x. fst x = now \<and> is_output (snd x)) xs \<Longrightarrow>
   fold (cli_step env) xs (on_stdout env now c s) =
     (on_stdout env now (c @ stdout_of xs) s)\<lparr>cl_stderr := cl_stderr s @ stderr_of xs\<rparr>"
proof (induction xs arbitrary: c s)
  case Nil
  have "(on_stdout env now c s)\<lparr>cl_stderr := cl_stderr s\<rparr> = on_stdout env now c s"
    using on_stdout_stderr(2)[of env now c s] by (cases "on_stdout env now c s") simp
  then show ?case by simp
next
  case (Cons x xs)
  obtain a where x: "x = (now, a)" "is_output a" using Cons.prems by (cases x) auto
  show ?case
  proof (cases a)
    case (Stdout d)
    then show ?thesis using Cons x by (simp add: on_stdout_append)
  next
    case (Stderr d)
    have "cli_step env x (on_stdout env now c s) = on_stdout env now c (s\<lparr>cl_stderr := cl_stderr s @ d\<rparr>)"
      using x Stderr by (simp add: on_stdout_stderr)
    then have "fold (cli_step env) (x # xs) (on_stdout env now c s) =
        fold (cli_step env) xs (on_stdout env now c (s\<lparr>cl_stderr := cl_stderr s @ d\<rparr>))" by simp
    also have "\<dots> = (on_stdout env now (c @ stdout_of xs) (s\<lparr>cl_stderr := cl_stderr s @ d\<rparr>))
        \<lparr>cl_stderr := cl_stderr s @ d @ stderr_of xs\<rparr>"
      using Cons.IH[of c "s\<lparr>cl_stderr := cl_stderr s @ d\<rparr>"] Cons.prems by simp
    finally show ?thesis using x Stderr by (simp add: on_stdout_stderr)
  qed (use x in auto)
qed


section \<open>Limits, signals and results\<close>

definition line_quota :: "cli_env \<Rightarrow> millis \<Rightarrow> string \<Rightarrow> millis option" where
  "line_quota env now l =
     (case parse_stream_line l of None \<Rightarrow> None | Some e \<Rightarrow> quota_reset_of_event (ce_zone env) now e)"

lemma handle_line_quota:
  "cl_quota (handle_line env now l s) = (case cl_quota s of Some t \<Rightarrow> Some t | None \<Rightarrow> line_quota env now l)"
  by (simp add: handle_line_def line_quota_def split: option.split)

lemma handle_lines_quota_kept: "cl_quota s = Some t \<Longrightarrow> cl_quota (fold (handle_line env now) ls s) = Some t"
  by (induction ls arbitrary: s) (simp_all add: handle_line_quota)

lemma handle_lines_quota:
  "cl_quota s = None \<Longrightarrow> list_all (\<lambda>l. line_quota env now l = None) pre \<Longrightarrow> line_quota env now l = Some t \<Longrightarrow>
   cl_quota (fold (handle_line env now) (pre @ l # post) s) = Some t"
  by (induction pre arbitrary: s) (simp_all add: handle_line_quota handle_lines_quota_kept)

lemma handle_lines_frame:
  "cl_timed_out (fold (handle_line env now) ls s) = cl_timed_out s \<and> cl_result (fold (handle_line env now) ls s) = cl_result s"
  by (induction ls arbitrary: s) (auto simp: handle_line_def split: option.split)

lemma first_in: "(case ys of [] \<Rightarrow> None | r # _ \<Rightarrow> r) = Some x \<Longrightarrow> Some x \<in> set ys"
  by (cases ys) auto

lemma quota_event_next:
  assumes "quota_reset_of_event (\<lambda>z _. off z) now e = Some reset"
  shows "now < reset \<and> reset \<le> now + day_ms"
proof -
  let ?f = "\<lambda>b :: content_block. if cb_type b = Some ''text'' \<and> cb_text b \<noteq> None
    then parse_quota_limit_message (\<lambda>z _. off z) (the (cb_text b)) now else None"
  obtain bs where "stm_content e = Some bs" using assms by (auto simp: quota_reset_of_event_def split: option.splits)
  then have first: "(case filter (\<lambda>r. r \<noteq> None) (map ?f bs) of [] \<Rightarrow> None | r # _ \<Rightarrow> r) = Some reset"
    using assms unfolding quota_reset_of_event_def by simp
  from first_in[OF first] have "Some reset \<in> ?f ` set bs" by simp
  then obtain b where b: "Some reset = ?f b" by (rule imageE)
  have "parse_quota_limit_message (\<lambda>z _. off z) (the (cb_text b)) now = Some reset"
    using b by (auto split: if_splits)
  then obtain hour minute afternoon zone where h: "hour24 hour afternoon < 24" "minute < 60"
      "reset_instant (\<lambda>z _. off z) (trim zone) (hour24 hour afternoon) minute now = Some reset"
    by (rule parsed_limit)
  then obtain d where "off (trim zone) = Some d" by (auto simp: reset_instant_def split: option.splits)
  then show ?thesis using reset_instant_next[of "\<lambda>z _. off z" "trim zone" d, OF _ h(1,2,3)] by simp
qed


section \<open>The grace period\<close>

definition signal_inv :: "cli_run \<Rightarrow> bool" where
  "signal_inv s \<longleftrightarrow>
     (''SIGTERM'' \<in> set (cl_signals s) \<longrightarrow> cl_killed s \<and> ''SIGKILL'' \<notin> set (cl_signals s)) \<and>
     (cl_signals s \<noteq> [] \<longrightarrow> cl_killed s \<and> \<not> cl_armed s) \<and> (cl_armed s \<longrightarrow> \<not> cl_timed_out s)"

lemma handle_lines_signals:
  "cl_signals (fold (handle_line env now) ls s) = cl_signals s \<and> cl_killed (fold (handle_line env now) ls s) = cl_killed s \<and>
   cl_armed (fold (handle_line env now) ls s) = cl_armed s"
  by (induction ls arbitrary: s) (auto simp: handle_line_def split: option.split)

lemma signal_inv_step: "signal_inv s \<Longrightarrow> signal_inv (cli_step env x s)"
proof (induction env x s rule: cli_step.induct)
  case (1 env now chunk s)
  then show ?case using handle_lines_signals[of env now _ s] handle_lines_frame[of env now _ s]
    by (simp add: signal_inv_def on_stdout_feed Let_def)
qed (auto simp: signal_inv_def send_signal_def settle_def split: option.split)

interpretation cli_machine: invariant_machine signal_inv "cli_step env" for env
  by unfold_locales (rule signal_inv_step)

text \<open>A subprocess that was sent SIGTERM is never sent SIGKILL, however long it goes on: the grace
  timer asks whether a signal was sent, which \<open>kill\<close> has just made true.\<close>

theorem term_never_escalates:
  "''SIGTERM'' \<in> set (cl_signals (cli_outcome env xs)) \<Longrightarrow> ''SIGKILL'' \<notin> set (cl_signals (cli_outcome env xs))"
proof -
  have "signal_inv new_cli_run" by (simp add: signal_inv_def new_cli_run_def)
  from cli_machine.inv_run[OF this, of env xs] show ?thesis
    if "''SIGTERM'' \<in> set (cl_signals (cli_outcome env xs))" using that by (simp add: signal_inv_def cli_outcome_def)
qed

definition sample_cli_env :: cli_env where
  "sample_cli_env = \<lparr>ce_zone = (\<lambda>z _. if z = ''UTC'' then Some 0 else None),
     ce_run = \<lparr>sr_run = ''cli-1'', sr_trace = Some ''t'', sr_job = Some ''j''\<rparr>, ce_timeout = 1000\<rparr>"


theorem term_never_escalates_witness:
  "''SIGKILL'' \<notin> set (cl_signals (cli_outcome sample_cli_env [(1000, Soft_timer True), (6000, Grace_timer True)]))"
  by (rule term_never_escalates) (simp add: cli_outcome_def new_cli_run_def send_signal_def)

definition limit_event :: json where
  "limit_event = JObj [(''type'', JStr ''assistant''), (''message'', JObj [(''content'',
     JArr [JObj [(''type'', JStr ''text''), (''text'', JStr ''You've hit your limit - resets 6pm (UTC)'')]])])]"

lemma limit_event_line:
  "line_feed \<notin> set (json_stringify limit_event)" "trim (json_stringify limit_event) = json_stringify limit_event"
  "json_stringify limit_event \<noteq> []"
  by (simp_all add: limit_event_def quote_string_def escape_char_def Let_def trim_def is_space_def)

lemma limit_event_quota: "line_quota sample_cli_env 0 (json_stringify limit_event) = Some 64800000"
proof -
  have parse: "json_parse (json_stringify limit_event) = Some limit_event"
    by (rule json_parse_stringify) (simp add: limit_event_def)
  have m: "match_limit ''You've hit your limit - resets 6pm (UTC)'' = Some (6, 0, True, ''UTC'')"
    by code_simp
  show ?thesis
    by (simp add: line_quota_def parse_stream_line_def limit_event_line parse Let_def)
      (simp add: limit_event_def optional_string_member_def optional_member_def quota_reset_of_event_def
        parse_quota_limit_message_def m hour24_def sample_cli_env_def trim_def is_space_def reset_instant_def day_ms_def Let_def)
qed


section \<open>A turn of a pooled session\<close>

text \<open>How the pool answers \<open>acquire\<close>, and how the turn raced against its limit ends.\<close>

datatype session_acquired = Acquire_failed string | Acquired bool

datatype turn_outcome = Turn_events "stream_event list" | Turn_timed_out | Turn_failed string

record session_turn =
  st_result :: run_result
  st_prompt :: string
  st_events :: "clawndom_event list"
  st_usage :: "usage_stats option"

definition extract_turn_usage :: "stream_event list \<Rightarrow> usage_stats option" where
  "extract_turn_usage es =
     (case find (\<lambda>e. stm_type e = Some ''result'') es of None \<Rightarrow> None | Some e \<Rightarrow> extract_usage_from_result_event e)"

definition session_result :: "run_status \<Rightarrow> stream_run \<Rightarrow> string option \<Rightarrow> run_result" where
  "session_result st r e = \<lparr>rr_status = st, rr_run_id = Some (sr_run r), rr_error = e, rr_quota_reset = None, rr_session = None\<rparr>"

text \<open>A fresh session is sent the full template, any other only the message; \<open>turn\<close> answers to what
  is sent.\<close>

definition run_session_turn :: "stream_run \<Rightarrow> millis \<Rightarrow> millis \<Rightarrow> string \<Rightarrow> string \<Rightarrow> session_acquired \<Rightarrow> (string \<Rightarrow> turn_outcome) \<Rightarrow> session_turn" where
  "run_session_turn r now timeout first_prompt message acquired turn =
     (case acquired of
        Acquire_failed e \<Rightarrow> \<lparr>st_result = session_result Run_error r (Some e), st_prompt = message, st_events = [], st_usage = None\<rparr>
      | Acquired fresh \<Rightarrow>
          (let sent = (if fresh then first_prompt else message) in
           case turn sent of
             Turn_events es \<Rightarrow>
               \<lparr>st_result = session_result Run_ok r None, st_prompt = sent,
                st_events = concat (map (emit_stream_event r now) es), st_usage = extract_turn_usage es\<rparr>
           | Turn_timed_out \<Rightarrow>
               \<lparr>st_result = session_result Run_timeout r (Some (''Session turn timed out after '' @ string_of_int timeout @ ''ms'')),
                st_prompt = sent, st_events = [], st_usage = None\<rparr>
           | Turn_failed e \<Rightarrow>
               \<lparr>st_result = session_result Run_error r (Some e), st_prompt = sent, st_events = [], st_usage = None\<rparr>))"

text \<open>No session turn reports the limit: the message ends the turn as a completed one.\<close>

lemma session_turn_never_pauses:
  "rr_status (st_result (run_session_turn r now timeout p m acquired turn)) \<noteq> Run_quota_exceeded"
  by (simp add: run_session_turn_def session_result_def Let_def split: session_acquired.split turn_outcome.split)

lemma limit_in_session_completes:
  "\<exists>e. parse_stream_line (json_stringify limit_event) = Some e \<and>
     rr_status (st_result (run_session_turn r now timeout p m (Acquired fresh) (\<lambda>_. Turn_events [e]))) = Run_ok"
proof -
  have "json_parse (json_stringify limit_event) = Some limit_event"
    by (rule json_parse_stringify) (simp add: limit_event_def)
  then obtain e where "parse_stream_line (json_stringify limit_event) = Some e"
    by (simp add: parse_stream_line_def limit_event_line Let_def)
      (simp add: limit_event_def optional_string_member_def optional_member_def)
  then show ?thesis by (simp add: run_session_turn_def session_result_def Let_def)
qed

text \<open>The pool reads its subprocesses through the same lines.\<close>

definition pool_stdout :: "millis \<Rightarrow> nat \<Rightarrow> string \<Rightarrow> string \<times> pool \<Rightarrow> string \<times> pool" where
  "pool_stdout now i chunk bs =
     feed (\<lambda>line p. case parse_stream_line line of
        None \<Rightarrow> p | Some e \<Rightarrow> handle_stream_event now i (JObj (stm_raw e)) p) chunk bs"

lemma pool_stdout_chunks: "pool_stdout now i c2 (pool_stdout now i c1 bs) = pool_stdout now i (c1 @ c2) bs"
  by (simp add: pool_stdout_def feed_append)

text \<open>What a subprocess prints after its last line feed is never read.\<close>

lemma unterminated_line_ignored:
  "line_feed \<notin> set tail \<Longrightarrow> cl_quota (on_stdout env now tail s) = cl_quota s" if "cl_buffer s = []" for tail
  using that by (simp add: on_stdout_feed split_on_single)

end
