(* ===== verification/ShellRunner.thy ===== *)
theory ShellRunner
  imports CliRunner
begin

text \<open>
  The shell runner of schedule rules: \<open>runners/shell.runner.ts\<close>. Its bounded capture of a stream
  against the last bytes of everything appended, and a run as a sequence of actions of the child
  process and the two timers. Bytes are characters; a truncated multi-byte character is not modelled.
\<close>

section \<open>Bounded capture\<close>

record tail_buffer =
  tb_cap :: nat
  tb_chunks :: "string list"
  tb_size :: nat

definition new_tail_buffer :: "nat \<Rightarrow> tail_buffer" where
  "new_tail_buffer cap = \<lparr>tb_cap = cap, tb_chunks = [], tb_size = 0\<rparr>"

text \<open>The loop that gives up bytes from the front until the size fits.\<close>

fun drop_front :: "nat \<Rightarrow> string list \<Rightarrow> nat \<Rightarrow> string list \<times> nat" where
  "drop_front cap [] held_bytes = ([], held_bytes)"
| "drop_front cap (h # cs) held_bytes =
     (if held_bytes \<le> cap then (h # cs, held_bytes)
      else if length h \<le> held_bytes - cap then drop_front cap cs (held_bytes - length h)
      else drop_front cap (drop (held_bytes - cap) h # cs) cap)"

definition append_chunk :: "string \<Rightarrow> tail_buffer \<Rightarrow> tail_buffer" where
  "append_chunk c b =
     (case drop_front (tb_cap b) (tb_chunks b @ [c]) (tb_size b + length c) of
        (cs, n) \<Rightarrow> b\<lparr>tb_chunks := cs, tb_size := n\<rparr>)"

definition buffer_text :: "tail_buffer \<Rightarrow> string" where
  "buffer_text b = concat (tb_chunks b)"

definition buffer_tail :: "nat \<Rightarrow> tail_buffer \<Rightarrow> string" where
  "buffer_tail n b = (let full = concat (tb_chunks b) in drop (length full - n) full)"

text \<open>What is promised: the most recent bytes of everything appended.\<close>

definition last_bytes :: "nat \<Rightarrow> string \<Rightarrow> string" where
  "last_bytes n s = drop (length s - n) s"

definition buffer_ok :: "tail_buffer \<Rightarrow> bool" where
  "buffer_ok b \<longleftrightarrow> tb_size b = length (concat (tb_chunks b)) \<and> tb_size b \<le> tb_cap b"

lemma drop_front_fits: "held_bytes \<le> cap \<Longrightarrow> drop_front cap cs held_bytes = (cs, held_bytes)"
  by (cases cs) auto

lemma length_last_bytes [simp]: "length (last_bytes n s) = min n (length s)"
  by (simp add: last_bytes_def)

lemma last_bytes_all: "length s \<le> n \<Longrightarrow> last_bytes n s = s"
  by (simp add: last_bytes_def)

lemma last_bytes_skip: "n \<le> length s \<Longrightarrow> last_bytes n (r @ s) = last_bytes n s"
  by (simp add: last_bytes_def)

lemma last_bytes_append: "last_bytes n (last_bytes n s @ c) = last_bytes n (s @ c)"
proof (cases "length s \<le> n")
  case True
  then show ?thesis by (simp add: last_bytes_all)
next
  case False
  have s: "s = take (length s - n) s @ last_bytes n s" by (simp add: last_bytes_def)
  have "last_bytes n (s @ c) = last_bytes n (take (length s - n) s @ last_bytes n s @ c)"
    by (subst (1) s) simp
  also have "\<dots> = last_bytes n (last_bytes n s @ c)" by (rule last_bytes_skip) (use False in simp)
  finally show ?thesis by simp
qed

lemma last_bytes_last: "m \<le> n \<Longrightarrow> last_bytes m (last_bytes n s) = last_bytes m s"
  by (cases "length s \<le> n") (simp_all add: last_bytes_def)

lemma drop_front_spec:
  "held_bytes = length (concat cs) \<Longrightarrow>
   concat (fst (drop_front cap cs held_bytes)) = last_bytes cap (concat cs) \<and>
   snd (drop_front cap cs held_bytes) = min cap held_bytes"
proof (induction cap cs held_bytes rule: drop_front.induct)
  case (1 cap held_bytes)
  then show ?case by (simp add: last_bytes_def)
next
  case (2 cap h cs held_bytes)
  consider (fits) "held_bytes \<le> cap" | (whole) "\<not> held_bytes \<le> cap" "length h \<le> held_bytes - cap"
    | (part) "\<not> held_bytes \<le> cap" "\<not> length h \<le> held_bytes - cap" by blast
  then show ?case
  proof cases
    case fits
    then show ?thesis using "2.prems" by (simp add: last_bytes_all)
  next
    case whole
    have "cap \<le> length (concat cs)" using whole "2.prems" by simp
    then have "last_bytes cap (concat (h # cs)) = last_bytes cap (concat cs)" by (simp add: last_bytes_skip)
    then show ?thesis using "2.IH"(1)[OF whole] "2.prems" whole by simp
  next
    case part
    then have "drop_front cap (h # cs) held_bytes = (drop (held_bytes - cap) h # cs, cap)"
      by (simp add: drop_front_fits)
    then show ?thesis using part "2.prems" by (simp add: last_bytes_def)
  qed
qed

lemma append_chunk_spec:
  assumes "buffer_ok b"
  shows "buffer_ok (append_chunk c b) \<and> tb_cap (append_chunk c b) = tb_cap b \<and>
    buffer_text (append_chunk c b) = last_bytes (tb_cap b) (buffer_text b @ c)"
proof -
  have n: "tb_size b + length c = length (concat (tb_chunks b @ [c]))" using assms by (simp add: buffer_ok_def)
  show ?thesis using drop_front_spec[OF n, of "tb_cap b"] n
    by (simp add: buffer_ok_def append_chunk_def buffer_text_def case_prod_unfold)
qed

text \<open>C37: The capture keeps exactly the most recent bytes: after any chunks its text is the last
  \<open>cap\<close> bytes of their concatenation, and so is every shorter tail, however the output was cut.\<close>

theorem tail_buffer_refines:
  "buffer_text (fold append_chunk cs (new_tail_buffer cap)) = last_bytes cap (concat cs) \<and>
   buffer_tail (min n cap) (fold append_chunk cs (new_tail_buffer cap)) = last_bytes (min n cap) (concat cs) \<and>
   tb_size (fold append_chunk cs (new_tail_buffer cap)) = min cap (length (concat cs))"
proof -
  let ?b = "fold append_chunk cs (new_tail_buffer cap)"
  have "buffer_ok (fold append_chunk cs b) \<and> buffer_text (fold append_chunk cs b) = last_bytes (tb_cap b) (buffer_text b @ concat cs)"
    if "buffer_ok b" "length (buffer_text b) \<le> tb_cap b" for b
    using that
  proof (induction cs arbitrary: b)
    case (Cons c cs)
    let ?b = "append_chunk c b"
    have b: "buffer_ok ?b" "tb_cap ?b = tb_cap b" "buffer_text ?b = last_bytes (tb_cap b) (buffer_text b @ c)"
      using append_chunk_spec[OF Cons.prems(1)] by auto
    moreover have "length (buffer_text ?b) \<le> tb_cap ?b" using b by (simp add: last_bytes_def)
    ultimately show ?case using Cons.IH[of ?b] last_bytes_append[of "tb_cap b" "buffer_text b @ c" "concat cs"] by simp
  qed (simp add: last_bytes_def)
  moreover have "tb_cap (new_tail_buffer cap) = cap" "buffer_ok (new_tail_buffer cap)" "buffer_text (new_tail_buffer cap) = []"
    by (simp_all add: new_tail_buffer_def buffer_ok_def buffer_text_def)
  ultimately have "buffer_ok ?b" and kept: "buffer_text ?b = last_bytes cap (concat cs)" by auto
  moreover have "buffer_tail m ?b = last_bytes m (buffer_text ?b)" for m
    by (simp add: buffer_tail_def buffer_text_def last_bytes_def Let_def)
  ultimately show ?thesis by (simp add: buffer_ok_def last_bytes_last flip: buffer_text_def)
qed

section \<open>A run of a command\<close>

definition stream_cap_bytes :: nat where "stream_cap_bytes = 65536"
definition stderr_tail_bytes :: nat where "stderr_tail_bytes = 4096"

record shell_env =
  se_command :: string
  se_cwd :: string
  se_timeout :: nat
  se_run :: stream_run
  se_started :: millis

definition shell_cwd :: "runner_config \<Rightarrow> string \<Rightarrow> string" where
  "shell_cwd c dir = (case c of Shell_config _ (Some d) _ _ \<Rightarrow> d | _ \<Rightarrow> dir)"

definition build_spawn_env :: "environment \<Rightarrow> runner_config \<Rightarrow> environment option \<Rightarrow> environment" where
  "build_spawn_env process_env c extra =
     overlay_env (overlay_env process_env (case c of Shell_config _ _ e _ \<Rightarrow> e | _ \<Rightarrow> None)) extra"

definition publish_tool_call :: "shell_env \<Rightarrow> clawndom_event list" where
  "publish_tool_call env =
     (case run_ids (se_run env) of
        None \<Rightarrow> []
      | Some (t, j) \<Rightarrow> [Runner (Runner_tool_call (se_started env) t j (sr_run (se_run env)) ''shell-spawn''
          (Some (JObj [(''command'', JStr (se_command env)), (''cwd'', JStr (se_cwd env)), (''timeoutMs'', JNum (int (se_timeout env)))])))])"

definition publish_complete :: "shell_env \<Rightarrow> millis \<Rightarrow> int \<Rightarrow> clawndom_event list" where
  "publish_complete env now code =
     (case run_ids (se_run env) of
        None \<Rightarrow> []
      | Some (t, j) \<Rightarrow> [Runner (Runner_complete now t j (sr_run (se_run env)) code (now - se_started env))])"

definition publish_run_error :: "shell_env \<Rightarrow> millis \<Rightarrow> runner_error_reason \<Rightarrow> int option \<Rightarrow> string option \<Rightarrow> string \<Rightarrow>
    clawndom_event list" where
  "publish_run_error env now reason code sig tail =
     (case run_ids (se_run env) of
        None \<Rightarrow> []
      | Some (t, j) \<Rightarrow> [Runner (Runner_error now t j (sr_run (se_run env)) reason code sig tail)])"

definition build_result :: "shell_env \<Rightarrow> run_status \<Rightarrow> string option \<Rightarrow> run_result" where
  "build_result env st e = session_result st (se_run env) e"

record shell_run =
  sh_stderr :: tail_buffer
  sh_armed :: bool
  sh_timed_out :: bool
  sh_escalated :: bool
  sh_ended :: bool
  sh_signals :: "string list"
  sh_events :: "clawndom_event list"
  sh_result :: "run_result option"

definition shell_tail :: "shell_run \<Rightarrow> string" where
  "shell_tail s = buffer_tail stderr_tail_bytes (sh_stderr s)"

definition handle_timeout_exit :: "shell_env \<Rightarrow> millis \<Rightarrow> string option \<Rightarrow> shell_run \<Rightarrow> run_result \<times> clawndom_event list" where
  "handle_timeout_exit env now sig s =
     (let final = (if sh_escalated s then ''SIGKILL'' else (case sig of Some x \<Rightarrow> x | None \<Rightarrow> ''SIGTERM'')) in
      (build_result env Run_timeout (Some (''Shell command timed out after '' @ string_of_nat (se_timeout env) @
         ''ms (final signal: '' @ final @ '')'')),
       publish_run_error env now Timeout_reason None (Some final) (shell_tail s)))"

definition handle_signal_exit :: "shell_env \<Rightarrow> millis \<Rightarrow> string \<Rightarrow> shell_run \<Rightarrow> run_result \<times> clawndom_event list" where
  "handle_signal_exit env now sig s =
     (build_result env Run_error (Some (''Shell command terminated by signal '' @ sig)),
      publish_run_error env now Signal_reason None (Some sig) (shell_tail s))"

definition handle_non_zero_exit :: "shell_env \<Rightarrow> millis \<Rightarrow> int \<Rightarrow> shell_run \<Rightarrow> run_result \<times> clawndom_event list" where
  "handle_non_zero_exit env now code s =
     (let first = (case filter (\<lambda>l. trim l \<noteq> []) (split_on line_feed (shell_tail s)) of l # _ \<Rightarrow> l | [] \<Rightarrow> []) in
      (build_result env Run_error (Some (''Shell exited with code '' @ string_of_int code @
         (if first \<noteq> [] then '': '' @ trim first else []))),
       publish_run_error env now Non_zero_exit (Some code) None (shell_tail s)))"

definition handle_clean_exit :: "shell_env \<Rightarrow> millis \<Rightarrow> run_result \<times> clawndom_event list" where
  "handle_clean_exit env now = (build_result env Run_ok None, publish_complete env now 0)"

definition resolve_exit :: "shell_env \<Rightarrow> millis \<Rightarrow> int option \<Rightarrow> string option \<Rightarrow> shell_run \<Rightarrow> run_result \<times> clawndom_event list" where
  "resolve_exit env now code sig s =
     (if sh_timed_out s then handle_timeout_exit env now sig s
      else (case sig of
              Some (c # x) \<Rightarrow> handle_signal_exit env now (c # x) s
            | _ \<Rightarrow>
                if code \<noteq> Some 0 then handle_non_zero_exit env now (case code of Some n \<Rightarrow> n | None \<Rightarrow> - 1) s
                else handle_clean_exit env now))"

definition spawn_failure :: "shell_env \<Rightarrow> millis \<Rightarrow> string \<Rightarrow> run_result \<times> clawndom_event list" where
  "spawn_failure env now message =
     (build_result env Run_error (Some (''Shell spawn failed: '' @ message)),
      publish_run_error env now Spawn_error None None message)"

definition conclude :: "run_result \<times> clawndom_event list \<Rightarrow> shell_run \<Rightarrow> shell_run" where
  "conclude x s =
     s\<lparr>sh_armed := False, sh_events := sh_events s @ snd x,
       sh_result := (case sh_result s of Some r \<Rightarrow> Some r | None \<Rightarrow> Some (fst x))\<rparr>"

text \<open>\<open>Process_ended\<close> is the moment \<open>exitCode\<close> or \<open>signalCode\<close> is set, before the streams close.\<close>

datatype shell_action =
    Shell_stderr string
  | Shell_soft
  | Shell_grace
  | Process_ended
  | Shell_closed "int option" "string option"
  | Shell_error string

fun shell_step :: "shell_env \<Rightarrow> millis \<times> shell_action \<Rightarrow> shell_run \<Rightarrow> shell_run" where
  "shell_step env (now, Shell_stderr c) s = s\<lparr>sh_stderr := append_chunk c (sh_stderr s)\<rparr>"
| "shell_step env (now, Shell_soft) s =
     (if sh_armed s then s\<lparr>sh_armed := False, sh_timed_out := True, sh_signals := sh_signals s @ [''SIGTERM'']\<rparr> else s)"
| "shell_step env (now, Shell_grace) s =
     (if sh_timed_out s \<and> \<not> sh_ended s then s\<lparr>sh_escalated := True, sh_signals := sh_signals s @ [''SIGKILL'']\<rparr> else s)"
| "shell_step env (now, Process_ended) s = s\<lparr>sh_ended := True\<rparr>"
| "shell_step env (now, Shell_closed code sig) s = conclude (resolve_exit env now code sig s) s"
| "shell_step env (now, Shell_error message) s = conclude (spawn_failure env now message) s"

definition new_shell_run :: "shell_env \<Rightarrow> shell_run" where
  "new_shell_run env = \<lparr>sh_stderr = new_tail_buffer stream_cap_bytes, sh_armed = True, sh_timed_out = False,
     sh_escalated = False, sh_ended = False, sh_signals = [], sh_events = publish_tool_call env, sh_result = None\<rparr>"

definition run_shell :: "shell_env \<Rightarrow> (millis \<times> shell_action) list \<Rightarrow> shell_run" where
  "run_shell env xs = fold (shell_step env) xs (new_shell_run env)"

lemma run_shell_timed_out:
  assumes "sh_timed_out s" "sh_result s = None"
  shows "\<exists>r. sh_result (shell_step env (now, Shell_closed code sig) s) = Some r \<and> rr_status r = Run_timeout"
  using assms by (simp add: conclude_def resolve_exit_def handle_timeout_exit_def build_result_def session_result_def Let_def)

definition untouched :: "shell_action \<Rightarrow> bool" where
  "untouched a \<longleftrightarrow> (case a of Shell_stderr _ \<Rightarrow> True | _ \<Rightarrow> False)"

lemma quiet_steps:
  "list_all (\<lambda>x. untouched (snd x)) xs \<Longrightarrow>
   sh_timed_out (fold (shell_step env) xs s) = sh_timed_out s \<and> sh_ended (fold (shell_step env) xs s) = sh_ended s \<and>
   sh_armed (fold (shell_step env) xs s) = sh_armed s \<and> sh_result (fold (shell_step env) xs s) = sh_result s \<and>
   sh_signals (fold (shell_step env) xs s) = sh_signals s \<and> sh_escalated (fold (shell_step env) xs s) = sh_escalated s"
proof (induction xs arbitrary: s)
  case (Cons x xs)
  obtain t c where "x = (t, Shell_stderr c)" using Cons.prems by (cases x) (auto simp: untouched_def split: shell_action.splits)
  then show ?case using Cons by simp
qed simp


text \<open>A command whose spawn fails and that is then closed reports twice: the first result stands, the
  bus is told of two errors.\<close>

lemma failed_spawn_reported_twice:
  assumes "run_ids (se_run env) = Some (t, j)"
  shows "length (sh_events (run_shell env [(0, Shell_error m), (0, Shell_closed (Some (- 2)) None)])) = 3"
  using assms
  by (simp add: run_shell_def new_shell_run_def conclude_def resolve_exit_def handle_non_zero_exit_def spawn_failure_def
      publish_run_error_def publish_tool_call_def Let_def)

definition sample_shell_env :: shell_env where
  "sample_shell_env = \<lparr>se_command = ''sleep 9'', se_cwd = ''/w'', se_timeout = 1000,
     se_run = \<lparr>sr_run = ''shell-1'', sr_trace = Some ''t'', sr_job = Some ''j''\<rparr>, se_started = 0\<rparr>"


end
