(* ===== verification/HttpRunners.thy ===== *)
theory HttpRunners
  imports CliRunner "HOL-Library.List_Lexorder"
begin

text \<open>
  The runners without a subprocess: \<open>runners/openai.runner.ts\<close>, \<open>runners/bedrock.runner.ts\<close> with its
  request signing, \<open>runners/openclaw.runner.ts\<close> and \<open>runners/null.runner.ts\<close>. The network, the hash
  functions and the parts of a URL are parameters; a response is its status and its body.
\<close>

section \<open>Requests and responses\<close>

record http_request =
  hq_url :: string
  hq_headers :: "(string, string) jsmap"
  hq_body :: string

datatype http_outcome = Http_response nat string | Http_timed_out | Http_failed string

record api_env =
  ae_fetch :: "http_request \<Rightarrow> http_outcome"
  ae_reject :: "string \<Rightarrow> string"
  ae_now :: millis

definition api_result :: "run_status \<Rightarrow> string option \<Rightarrow> string option \<Rightarrow> run_result" where
  "api_result st i e = \<lparr>rr_status = st, rr_run_id = i, rr_error = e, rr_quota_reset = None, rr_session = None\<rparr>"

definition response_ok :: "nat \<Rightarrow> bool" where
  "response_ok status \<longleftrightarrow> 200 \<le> status \<and> status \<le> 299"

text \<open>The id of a response: an object whose \<open>id\<close> is a string or absent; anything else throws, with
  the message \<open>ae_reject\<close> gives for the body.\<close>

definition response_id :: "string \<Rightarrow> string option option" where
  "response_id body =
     (case json_parse body of Some (JObj ps) \<Rightarrow> optional_string_member ps ''id'' | _ \<Rightarrow> None)"

definition interpret_response :: "api_env \<Rightarrow> string \<Rightarrow> (string option \<Rightarrow> string option) \<Rightarrow> nat \<Rightarrow> string \<Rightarrow> run_result" where
  "interpret_response env api id_of status body =
     (if \<not> response_ok status
      then api_result Run_error None (Some (api @ '' API returned '' @ string_of_nat status @ '': '' @ take 200 body))
      else (case response_id body of
              None \<Rightarrow> api_result Run_error None (Some (ae_reject env body))
            | Some i \<Rightarrow> api_result Run_ok (id_of i) None))"

definition api_outcome :: "api_env \<Rightarrow> string \<Rightarrow> (string option \<Rightarrow> string option) \<Rightarrow> nat \<Rightarrow> http_outcome \<Rightarrow> run_result" where
  "api_outcome env api id_of timeout h =
     (case h of
        Http_response status body \<Rightarrow> interpret_response env api id_of status body
      | Http_timed_out \<Rightarrow>
          api_result Run_timeout None (Some (api @ '' request timed out after '' @ string_of_nat timeout @ ''ms''))
      | Http_failed m \<Rightarrow> api_result Run_error None (Some m))"

definition user_message :: "string \<Rightarrow> json" where
  "user_message prompt = JArr [JObj [(''role'', JStr ''user''), (''content'', JStr prompt)]]"

section \<open>OpenAI\<close>

definition default_base_url :: string where "default_base_url = ''https://api.openai.com/v1''"

definition openai_request :: "string \<Rightarrow> string \<Rightarrow> string \<Rightarrow> run_options \<Rightarrow> http_request" where
  "openai_request model key base opts =
     \<lparr>hq_url = base @ ''/chat/completions'',
      hq_headers = [(''Content-Type'', ''application/json''), (''Authorization'', ''Bearer '' @ key)],
      hq_body = json_stringify (JObj [(''model'', JStr (case ro_model opts of Some m \<Rightarrow> m | None \<Rightarrow> model)),
        (''messages'', user_message (ro_prompt opts))])\<rparr>"

definition run_openai :: "api_env \<Rightarrow> runner_config \<Rightarrow> nat \<Rightarrow> run_options \<Rightarrow> run_result" where
  "run_openai env c timeout opts =
     (case c of
        Openai_config model key base \<Rightarrow>
          api_outcome env ''OpenAI'' (\<lambda>i. i) timeout
            (ae_fetch env (openai_request model key (case base of Some b \<Rightarrow> b | None \<Rightarrow> default_base_url) opts))
      | _ \<Rightarrow> api_result Run_error None None)"

section \<open>Bedrock\<close>

record aws_credentials =
  aw_key :: string
  aw_secret :: string
  aw_token :: "string option"

definition resolve_from_env :: "environment \<Rightarrow> aws_credentials option" where
  "resolve_from_env e =
     (case (map_of e ''AWS_ACCESS_KEY_ID'', map_of e ''AWS_SECRET_ACCESS_KEY'') of
        (Some (c # k), Some (d # s)) \<Rightarrow>
          Some \<lparr>aw_key = c # k, aw_secret = d # s, aw_token = map_of e ''AWS_SESSION_TOKEN''\<rparr>
      | _ \<Rightarrow> None)"

text \<open>The metadata service: \<open>None\<close> where a request throws, is refused or answers another shape.\<close>

definition parse_imds :: "string \<Rightarrow> aws_credentials option" where
  "parse_imds body =
     (case json_parse body of
        Some (JObj ps) \<Rightarrow>
          (case (string_member ps ''AccessKeyId'', string_member ps ''SecretAccessKey'', string_member ps ''Token'') of
             (Some k, Some s, Some t) \<Rightarrow> Some \<lparr>aw_key = k, aw_secret = s, aw_token = Some t\<rparr>
           | _ \<Rightarrow> None)
      | _ \<Rightarrow> None)"

definition imds_base :: string where "imds_base = ''http://169.254.169.254/latest''"

definition imds_get :: "(http_request \<Rightarrow> http_outcome) \<Rightarrow> (string, string) jsmap \<Rightarrow> string \<Rightarrow> string option" where
  "imds_get fetch headers path =
     (case fetch \<lparr>hq_url = imds_base @ path, hq_headers = headers, hq_body = []\<rparr> of
        Http_response status body \<Rightarrow> (if response_ok status then Some body else None)
      | _ \<Rightarrow> None)"

definition resolve_from_imds :: "(http_request \<Rightarrow> http_outcome) \<Rightarrow> aws_credentials option" where
  "resolve_from_imds fetch =
     Option.bind (imds_get fetch [(''X-aws-ec2-metadata-token-ttl-seconds'', ''21600'')] ''/api/token'') (\<lambda>token.
       let headers = [(''X-aws-ec2-metadata-token'', token)] in
       Option.bind (imds_get fetch headers ''/meta-data/iam/security-credentials/'') (\<lambda>role.
         Option.bind (imds_get fetch headers (''/meta-data/iam/security-credentials/'' @ trim role)) parse_imds))"

definition no_credentials_text :: string where
  "no_credentials_text = ''No AWS credentials found. Set AWS_ACCESS_KEY_ID/AWS_SECRET_ACCESS_KEY or run on an instance with an IAM role.''"

definition resolve_aws_credentials :: "environment \<Rightarrow> (http_request \<Rightarrow> http_outcome) \<Rightarrow> string + aws_credentials" where
  "resolve_aws_credentials e fetch =
     (case resolve_from_env e of
        Some c \<Rightarrow> Inr c
      | None \<Rightarrow> (case resolve_from_imds fetch of Some c \<Rightarrow> Inr c | None \<Rightarrow> Inl no_credentials_text))"

text \<open>\<open>sha256\<close> and \<open>hmac key\<close> answer bytes, \<open>hex\<close> writes them, \<open>url\<close> gives host, path and query of a
  URL, \<open>now\<close> is the ISO form of the instant.\<close>

record sig_env =
  sg_sha256 :: "string \<Rightarrow> string"
  sg_hmac :: "string \<Rightarrow> string \<Rightarrow> string"
  sg_hex :: "string \<Rightarrow> string"
  sg_url :: "string \<Rightarrow> string \<times> string \<times> string"
  sg_now :: string

definition compute_signing_key :: "sig_env \<Rightarrow> string \<Rightarrow> string \<Rightarrow> string \<Rightarrow> string \<Rightarrow> string" where
  "compute_signing_key env secret date region service =
     fold (\<lambda>segment key. sg_hmac env key segment) [region, service, ''aws4_request'']
       (sg_hmac env (''AWS4'' @ secret) date)"

definition compact_iso :: "string \<Rightarrow> string" where
  "compact_iso s = filter (\<lambda>c. c \<noteq> CHR ''-'' \<and> c \<noteq> CHR '':'') s"

text \<open>The first dot with three digits is taken out.\<close>

fun drop_millis :: "string \<Rightarrow> string" where
  "drop_millis (c # x # y # z # s) =
     (if c = CHR ''.'' \<and> is_digit x \<and> is_digit y \<and> is_digit z then s else c # drop_millis (x # y # z # s))"
| "drop_millis s = s"

definition signed_header_keys :: "(string, string) jsmap \<Rightarrow> string list" where
  "signed_header_keys headers = sort_key (map (of_char :: char \<Rightarrow> nat)) (map fst headers)"

definition build_canonical_request :: "string \<Rightarrow> string \<Rightarrow> string \<Rightarrow> string \<Rightarrow> string \<Rightarrow> string \<Rightarrow> string" where
  "build_canonical_request meth path query headers signed hash = join newline [meth, path, query, headers, signed, hash]"

definition canonical_headers :: "(string, string) jsmap \<Rightarrow> string" where
  "canonical_headers headers =
     concat (map (\<lambda>k. k @ '':'' @ (case map_of headers k of Some v \<Rightarrow> v | None \<Rightarrow> []) @ newline) (signed_header_keys headers))"

definition base_headers :: "sig_env \<Rightarrow> string \<Rightarrow> string \<Rightarrow> string option \<Rightarrow> (string, string) jsmap" where
  "base_headers env url hash token =
     [(''host'', fst (sg_url env url)), (''x-amz-date'', drop_millis (compact_iso (sg_now env))), (''x-amz-content-sha256'', hash)]
     @ (case token of Some (c # t) \<Rightarrow> [(''x-amz-security-token'', c # t)] | _ \<Rightarrow> [])"

definition credential_scope :: "sig_env \<Rightarrow> string \<Rightarrow> string \<Rightarrow> string" where
  "credential_scope env region service = take 8 (compact_iso (sg_now env)) @ ''/'' @ region @ ''/'' @ service @ ''/aws4_request''"

definition string_to_sign :: "sig_env \<Rightarrow> string \<Rightarrow> string \<Rightarrow> string \<Rightarrow> string \<Rightarrow> (string, string) jsmap \<Rightarrow> string \<Rightarrow> string" where
  "string_to_sign env meth url region service headers hash =
     join newline [''AWS4-HMAC-SHA256'', drop_millis (compact_iso (sg_now env)), credential_scope env region service,
       sg_hex env (sg_sha256 env (build_canonical_request meth (fst (snd (sg_url env url))) (snd (snd (sg_url env url)))
         (canonical_headers headers) (join '';'' (signed_header_keys headers)) hash))]"

definition sign_request :: "sig_env \<Rightarrow> string \<Rightarrow> string \<Rightarrow> string \<Rightarrow> string \<Rightarrow> string \<Rightarrow> aws_credentials \<Rightarrow> (string, string) jsmap" where
  "sign_request env meth url body region service c =
     (let hash = sg_hex env (sg_sha256 env body);
          headers = base_headers env url hash (aw_token c);
          key = compute_signing_key env (aw_secret c) (take 8 (compact_iso (sg_now env))) region service;
          signature = sg_hex env (sg_hmac env key (string_to_sign env meth url region service headers hash))
      in AList.update ''authorization''
           (''AWS4-HMAC-SHA256 Credential='' @ aw_key c @ ''/'' @ credential_scope env region service @ '', SignedHeaders='' @
            join '';'' (signed_header_keys headers) @ '', Signature='' @ signature) headers)"

text \<open>\<open>encode\<close> is \<open>encodeURIComponent\<close>.\<close>

definition bedrock_url :: "(string \<Rightarrow> string) \<Rightarrow> string \<Rightarrow> string \<Rightarrow> string" where
  "bedrock_url encode region model =
     ''https://bedrock-runtime.'' @ region @ ''.amazonaws.com/model/'' @ encode model @ ''/invoke''"

definition bedrock_body :: "run_options \<Rightarrow> string" where
  "bedrock_body opts = json_stringify (JObj [(''anthropic_version'', JStr ''bedrock-2023-05-31''), (''max_tokens'', JNum 4096),
     (''messages'', user_message (ro_prompt opts))])"

definition invoke_bedrock :: "api_env \<Rightarrow> sig_env \<Rightarrow> environment \<Rightarrow> string \<Rightarrow> string \<Rightarrow> run_options \<Rightarrow> http_outcome" where
  "invoke_bedrock env sg e url region opts =
     (case resolve_aws_credentials e (ae_fetch env) of
        Inl m \<Rightarrow> Http_failed m
      | Inr c \<Rightarrow> ae_fetch env \<lparr>hq_url = url,
          hq_headers = sign_request sg ''POST'' url (bedrock_body opts) region ''bedrock'' c @
            [(''Content-Type'', ''application/json''), (''Accept'', ''application/json'')],
          hq_body = bedrock_body opts\<rparr>)"

definition run_bedrock :: "api_env \<Rightarrow> sig_env \<Rightarrow> (string \<Rightarrow> string) \<Rightarrow> environment \<Rightarrow> runner_config \<Rightarrow> nat \<Rightarrow> run_options \<Rightarrow> run_result" where
  "run_bedrock env sg encode e c timeout opts =
     (case c of
        Bedrock_config model region \<Rightarrow>
          api_outcome env ''Bedrock'' (\<lambda>i. Some (case i of Some x \<Rightarrow> x | None \<Rightarrow> ''bedrock-'' @ string_of_int (ae_now env))) timeout
            (invoke_bedrock env sg e (bedrock_url encode region (case ro_model opts of Some m \<Rightarrow> m | None \<Rightarrow> model)) region opts)
      | _ \<Rightarrow> api_result Run_error None None)"

section \<open>OpenClaw and null\<close>

text \<open>\<open>wait\<close> is \<open>runAndWait\<close> of the gateway client on message, session key, agent, model and limit.\<close>

definition run_openclaw :: "(string \<Rightarrow> string \<Rightarrow> string \<Rightarrow> string option \<Rightarrow> nat \<Rightarrow> run_status \<times> string option \<times> string option) \<Rightarrow>
    nat \<Rightarrow> run_options \<Rightarrow> run_result" where
  "run_openclaw wait timeout opts =
     (case wait (ro_prompt opts) (ro_session_key opts) (ro_agent opts) (ro_model opts) timeout of
        (st, i, e) \<Rightarrow> api_result st i e)"

definition run_null :: "millis \<Rightarrow> run_options \<Rightarrow> run_result" where
  "run_null now opts = api_result Run_ok (Some (''null-'' @ string_of_int now)) None"

section \<open>Facts\<close>

text \<open>Neither HTTP runner reports an exhausted quota: a 429 is an ordinary error.\<close>

lemma rate_limit_is_error:
  "rr_status (api_outcome env api id_of timeout (Http_response 429 body)) = Run_error"
  "rr_status (run_openai env c timeout opts) \<noteq> Run_quota_exceeded"
  "rr_status (run_bedrock env sg encode e c timeout opts) \<noteq> Run_quota_exceeded"
proof -
  have never: "rr_status (api_outcome env api id_of timeout h) \<noteq> Run_quota_exceeded" for api id_of h
    by (simp add: api_outcome_def interpret_response_def api_result_def split: http_outcome.split option.split)
  show "rr_status (api_outcome env api id_of timeout (Http_response 429 body)) = Run_error"
    by (simp add: api_outcome_def interpret_response_def api_result_def response_ok_def)
  show "rr_status (run_openai env c timeout opts) \<noteq> Run_quota_exceeded"
    by (simp add: run_openai_def never api_result_def split: runner_config.split)
  show "rr_status (run_bedrock env sg encode e c timeout opts) \<noteq> Run_quota_exceeded"
    by (simp add: run_bedrock_def never api_result_def split: runner_config.split)
qed

text \<open>The signed headers are the host, the content hash, the date and, with temporary credentials, the
  token, in byte order; every one of them is sent with the value that was signed.\<close>

lemma signed_keys:
  "signed_header_keys (base_headers env url hash token) =
     [''host'', ''x-amz-content-sha256'', ''x-amz-date''] @ (case token of Some (c # t) \<Rightarrow> [''x-amz-security-token''] | _ \<Rightarrow> [])"
  by (auto simp: signed_header_keys_def base_headers_def split: option.split list.split)

lemma signed_headers_sent:
  "k \<in> set (signed_header_keys (base_headers env url (sg_hex env (sg_sha256 env body)) (aw_token c))) \<Longrightarrow>
   map_of (sign_request env meth url body region service c) k =
     map_of (base_headers env url (sg_hex env (sg_sha256 env body)) (aw_token c)) k"
  by (auto simp: signed_keys sign_request_def Let_def split: option.splits list.splits)

lemma bedrock_body_reads_back:
  "\<exists>v. json_parse (bedrock_body opts) = Some v \<and> get_field_prompt v = Some (ro_prompt opts)"
  if "get_field_prompt = (\<lambda>v. case v of JObj ps \<Rightarrow> (case map_of ps ''messages'' of
        Some (JArr [JObj ms]) \<Rightarrow> string_member ms ''content'' | _ \<Rightarrow> None) | _ \<Rightarrow> None)"
  using json_parse_stringify[of "JObj [(''anthropic_version'', JStr ''bedrock-2023-05-31''), (''max_tokens'', JNum 4096),
     (''messages'', user_message (ro_prompt opts))]"]
  by (simp add: bedrock_body_def user_message_def that string_member_def)

end
