(* ===== verification/Tools.thy ===== *)
theory Tools
  imports Secrets LibText RunnerConfig
begin

text \<open>
  Agent tools: the definition file (\<open>services/tools/descriptor.ts\<close>, \<open>parse.ts\<close>, \<open>resolve.ts\<close>), the check
  of the implementation's signature at boot (\<open>validate.ts\<close> and \<open>validateToolsConfig\<close> of the agent
  loader), the catalog (\<open>services/tool-catalog.service.ts\<close>), the files and environment of a run
  (\<open>load-for-run.ts\<close>, \<open>mcp-bridge.ts\<close>) and the call with its audit record (\<open>executor.ts\<close>). Parsing YAML,
  locating a package, reading a signature and running Python are parameters.
\<close>

section \<open>Definition files\<close>

datatype argument_type = Arg_string | Arg_number | Arg_boolean | Arg_array | Arg_object

record argument_def =
  ag_type :: argument_type
  ag_description :: string
  ag_optional :: "bool option"

record tool_yaml =
  ty_description :: string
  ty_args :: "(string, argument_def) jsmap"
  ty_secrets :: "(string, string list) jsmap"
  ty_name :: "string option"

fun parse_argument_type :: "json \<Rightarrow> argument_type option" where
  "parse_argument_type (JStr s) =
     map_of [(''string'', Arg_string), (''number'', Arg_number), (''boolean'', Arg_boolean), (''array'', Arg_array),
       (''object'', Arg_object)] s"
| "parse_argument_type _ = None"

fun parse_argument :: "json \<Rightarrow> argument_def option" where
  "parse_argument (JObj ps) =
     (case (Option.bind (map_of ps ''type'') parse_argument_type, required_string ps ''description'',
            optional_member parse_bool ps ''optional'') of
        (Some t, Some d, Some opt) \<Rightarrow> Some \<lparr>ag_type = t, ag_description = d, ag_optional = opt\<rparr>
      | _ \<Rightarrow> None)"
| "parse_argument _ = None"

text \<open>One alias or a non-empty list of them; \<open>normalizeSecrets\<close> makes a list of either.\<close>

fun parse_aliases :: "json \<Rightarrow> string list option" where
  "parse_aliases (JStr s) = (if s = [] then None else Some [s])"
| "parse_aliases (JArr vs) = (case parse_array parse_nonempty (JArr vs) of Some (a # as) \<Rightarrow> Some (a # as) | _ \<Rightarrow> None)"
| "parse_aliases _ = None"

definition parse_named :: "(json \<Rightarrow> 'a option) \<Rightarrow> json \<Rightarrow> (string, 'a) jsmap option" where
  "parse_named check v =
     (case parse_record check v of Some m \<Rightarrow> if list_all (\<lambda>p. fst p \<noteq> []) m then Some m else None | None \<Rightarrow> None)"

fun parse_tool_yaml :: "json \<Rightarrow> tool_yaml option" where
  "parse_tool_yaml (JObj ps) =
     (case (required_string ps ''description'', optional_member (parse_named parse_argument) ps ''args'',
            optional_member (parse_named parse_aliases) ps ''secrets'', optional_string ps ''name'') of
        (Some d, Some a, Some s, Some n) \<Rightarrow>
          Some \<lparr>ty_description = d, ty_args = (case a of Some x \<Rightarrow> x | None \<Rightarrow> []),
                ty_secrets = (case s of Some x \<Rightarrow> x | None \<Rightarrow> []), ty_name = n\<rparr>
      | _ \<Rightarrow> None)"
| "parse_tool_yaml _ = None"

record secret_specification =
  sp_canonical :: string
  sp_aliases :: "string list"

record tool_descriptor =
  td_directory :: string
  td_reference :: string
  td_name :: string
  td_description :: string
  td_args :: "(string, argument_def) jsmap"
  td_secrets :: "secret_specification list"

definition compute_tool_name :: "string \<Rightarrow> string" where
  "compute_tool_name directory =
     (case rev (filter (\<lambda>s. s \<noteq> []) (split_on CHR ''/'' directory)) of
        [] \<Rightarrow> []
      | [leaf] \<Rightarrow> leaf
      | leaf # parent # _ \<Rightarrow> if parent = ''tools'' then leaf else parent @ ''_'' @ leaf)"

definition normalize_secrets :: "(string, string list) jsmap \<Rightarrow> secret_specification list" where
  "normalize_secrets raw = map (\<lambda>(c, as). \<lparr>sp_canonical = c, sp_aliases = as\<rparr>) raw"

definition type_name :: "argument_type \<Rightarrow> string" where
  "type_name t = (case t of Arg_string \<Rightarrow> ''string'' | Arg_number \<Rightarrow> ''number'' | Arg_boolean \<Rightarrow> ''boolean''
     | Arg_array \<Rightarrow> ''array'' | Arg_object \<Rightarrow> ''object'')"

definition is_optional :: "argument_def \<Rightarrow> bool" where
  "is_optional a \<longleftrightarrow> ag_optional a = Some True"

definition required_args :: "(string, argument_def) jsmap \<Rightarrow> string list" where
  "required_args args = map fst (filter (\<lambda>p. \<not> is_optional (snd p)) args)"

definition build_input_schema :: "(string, argument_def) jsmap \<Rightarrow> json" where
  "build_input_schema args =
     JObj [(''type'', JStr ''object''),
       (''properties'', JObj (map (\<lambda>(n, a). (n, JObj [(''type'', JStr (type_name (ag_type a))), (''description'', JStr (ag_description a))])) args)),
       (''required'', JArr (map JStr (required_args args)))]"

section \<open>Finding a tool\<close>

text \<open>\<open>locate package dir\<close> asks Python for a package, \<open>yaml\<close> reads and parses a file.\<close>

record tool_world =
  tl_locate :: "string \<Rightarrow> string \<Rightarrow> string + string"
  tl_exists :: "string \<Rightarrow> bool"
  tl_yaml :: "string \<Rightarrow> string + json"
  tl_signature :: "string \<Rightarrow> string + (string, bool) jsmap"

definition resolve_tool_directory :: "tool_world \<Rightarrow> tool_ref \<Rightarrow> string \<Rightarrow> string + string" where
  "resolve_tool_directory w r agent_dir =
     (case split_on CHR ''.'' (tr_module r) of
        [] \<Rightarrow> Inl []
      | package # rest \<Rightarrow>
          and_then (tl_locate w package agent_dir) (\<lambda>base.
            let dir = join ''/'' (base # rest) in
            if tl_exists w dir then Inr dir
            else Inl (''Python tool directory not found for reference '' @ CHR 0x27 # tr_module r @ CHR 0x27 # '': expected '' @ dir @ '' (package '' @ CHR 0x27 # package @
              CHR 0x27 # '' resolved to '' @ base @ '')'')))"

definition load_tool_descriptor :: "tool_world \<Rightarrow> tool_ref \<Rightarrow> string \<Rightarrow> string + tool_descriptor" where
  "load_tool_descriptor w r agent_dir =
     and_then (resolve_tool_directory w r agent_dir) (\<lambda>dir.
       case tl_yaml w (dir @ ''/tool.yaml'') of
         Inl e \<Rightarrow> Inl (''Missing or unreadable tool.yaml at '' @ dir @ ''/tool.yaml: '' @ e)
       | Inr v \<Rightarrow>
           (case parse_tool_yaml v of
              None \<Rightarrow> Inl (''Invalid tool.yaml at '' @ dir @ ''/tool.yaml'')
            | Some y \<Rightarrow> Inr \<lparr>td_directory = dir, td_reference = tr_module r,
                td_name = (case ty_name y of Some n \<Rightarrow> n | None \<Rightarrow> compute_tool_name dir),
                td_description = ty_description y, td_args = ty_args y, td_secrets = normalize_secrets (ty_secrets y)\<rparr>))"

section \<open>The signature check\<close>

text \<open>\<open>name in sigKwargs\<close> also finds members of the prototype; its value there is a function, which
  counts as a default.\<close>

definition kwarg_found :: "(string, bool) jsmap \<Rightarrow> string \<Rightarrow> bool" where
  "kwarg_found sig n \<longleftrightarrow> map_of sig n \<noteq> None \<or> object_inherited n \<noteq> Undef"

definition kwarg_default :: "(string, bool) jsmap \<Rightarrow> string \<Rightarrow> bool option" where
  "kwarg_default sig n =
     (case map_of sig n of Some b \<Rightarrow> Some b | None \<Rightarrow> if object_inherited n = Undef then None else Some True)"

datatype signature_error =
    Arg_missing string
  | Secret_missing_kwarg string
  | Optional_without_default string
  | Required_with_default string
  | Secret_with_default string
  | Extra_kwarg string

definition argument_mismatch :: "(string, bool) jsmap \<Rightarrow> string \<times> argument_def \<Rightarrow> signature_error list" where
  "argument_mismatch sig p =
     (case kwarg_default sig (fst p) of
        None \<Rightarrow> []
      | Some d \<Rightarrow>
          (if is_optional (snd p) \<and> \<not> d then [Optional_without_default (fst p)] else [])
          @ (if \<not> is_optional (snd p) \<and> d then [Required_with_default (fst p)] else []))"

definition secret_names :: "tool_descriptor \<Rightarrow> string list" where
  "secret_names d = remdups (map sp_canonical (td_secrets d))"

definition signature_errors :: "tool_descriptor \<Rightarrow> (string, bool) jsmap \<Rightarrow> signature_error list" where
  "signature_errors d sig =
     (let args = map fst (td_args d); secrets = secret_names d in
      map Arg_missing (filter (\<lambda>n. \<not> kwarg_found sig n) args)
      @ map Secret_missing_kwarg (filter (\<lambda>n. \<not> kwarg_found sig n) secrets)
      @ concat (map (argument_mismatch sig) (td_args d))
      @ map Secret_with_default (filter (\<lambda>n. map_of sig n = Some True) secrets)
      @ map Extra_kwarg (filter (\<lambda>n. n \<notin> set args \<union> set secrets) (map fst sig)))"

definition validate_tool_signature :: "tool_world \<Rightarrow> tool_descriptor \<Rightarrow> (string + signature_error list) option" where
  "validate_tool_signature w d =
     (case tl_signature w (td_directory d @ ''/impl.py'') of
        Inl e \<Rightarrow> Some (Inl (''Failed to parse impl.py at '' @ td_directory d @ ''/impl.py: '' @ e))
      | Inr sig \<Rightarrow> (case signature_errors d sig of [] \<Rightarrow> None | es \<Rightarrow> Some (Inr es)))"

section \<open>Boot\<close>

record tool_catalog =
  tg_by_agent :: "(string, (string, tool_descriptor) jsmap) jsmap"
  tg_global :: "(string, tool_descriptor) jsmap"

definition empty_catalog :: tool_catalog where
  "empty_catalog = \<lparr>tg_by_agent = [], tg_global = []\<rparr>"

definition make_entry :: "tool_descriptor \<Rightarrow> tool_descriptor" where
  "make_entry d = d\<lparr>td_directory := []\<rparr>"

definition register_tool :: "string \<Rightarrow> tool_descriptor \<Rightarrow> tool_catalog \<Rightarrow> tool_catalog" where
  "register_tool a d g =
     \<lparr>tg_by_agent = AList.update a (AList.update (td_reference d) (make_entry d)
        (case map_of (tg_by_agent g) a of Some m \<Rightarrow> m | None \<Rightarrow> [])) (tg_by_agent g),
      tg_global = AList.update (td_reference d) (make_entry d) (tg_global g)\<rparr>"

definition list_tools :: "tool_catalog \<Rightarrow> tool_descriptor list" where
  "list_tools g = map snd (tg_global g)"

definition list_tools_for_agent :: "tool_catalog \<Rightarrow> string \<Rightarrow> tool_descriptor list option" where
  "list_tools_for_agent g a = map_option (map snd) (map_of (tg_by_agent g) a)"

datatype boot_error =
    Tool_unloadable string
  | Duplicate_tool string
  | Signature_rejected "string + signature_error list"
  | Secret_unbound string

definition unbound_secret :: "manager \<Rightarrow> tool_descriptor \<Rightarrow> string option" where
  "unbound_secret m d =
     map_option sp_canonical (find (\<lambda>s. \<not> list_ex (has_secret m) (sp_aliases s)) (td_secrets d))"

text \<open>The tools of one rule, in order; the first problem ends the boot, and the catalog with it.\<close>

fun validate_rule_tools :: "tool_world \<Rightarrow> manager \<Rightarrow> string \<Rightarrow> string \<Rightarrow> tool_ref list \<Rightarrow> string list \<Rightarrow> tool_catalog \<Rightarrow>
    boot_error + tool_catalog" where
  "validate_rule_tools w m a dir [] seen g = Inr g"
| "validate_rule_tools w m a dir (r # rs) seen g =
     (case load_tool_descriptor w r dir of
        Inl e \<Rightarrow> Inl (Tool_unloadable e)
      | Inr d \<Rightarrow>
          if td_name d \<in> set seen then Inl (Duplicate_tool (td_name d))
          else (case validate_tool_signature w d of
                  Some e \<Rightarrow> Inl (Signature_rejected e)
                | None \<Rightarrow>
                    (case unbound_secret m d of
                       Some s \<Rightarrow> Inl (Secret_unbound s)
                     | None \<Rightarrow> validate_rule_tools w m a dir rs (td_name d # seen) (register_tool a d g))))"

section \<open>A run\<close>

text \<open>The first alias the manager knows.\<close>

definition resolve_secret_from_aliases :: "manager \<Rightarrow> string \<Rightarrow> secret_specification \<Rightarrow> string + string" where
  "resolve_secret_from_aliases m tool s =
     (case find (has_secret m) (sp_aliases s) of
        Some a \<Rightarrow> (case get_secret m a of Inr v \<Rightarrow> Inr v | Inl e \<Rightarrow> Inl a)
      | None \<Rightarrow> Inl (''Tool '' @ CHR 0x27 # tool @ CHR 0x27 # '' needs secret '' @ CHR 0x27 # sp_canonical s @
          CHR 0x27 # '' but none of its declared aliases ['' @ join '', '' (sp_aliases s) @ ''] are registered in SECRETS_CONFIG.''))"

fun resolve_credentials :: "manager \<Rightarrow> string \<Rightarrow> secret_specification list \<Rightarrow> string + (string, string) jsmap" where
  "resolve_credentials m tool [] = Inr []"
| "resolve_credentials m tool (s # ss) =
     and_then (resolve_secret_from_aliases m tool s) (\<lambda>v.
       and_then (resolve_credentials m tool ss) (\<lambda>cs. Inr ((sp_canonical s, v) # cs)))"

record bridge_context =
  bc_agent :: string
  bc_route :: string
  bc_request :: string
  bc_correlation :: "string option"

record mcp_files =
  mf_files :: "(string \<times> string) list"
  mf_config :: string
  mf_env :: "(string, string) jsmap"

definition argument_json :: "string \<times> argument_def \<Rightarrow> string \<times> json" where
  "argument_json p = (fst p, JObj ([(''type'', JStr (type_name (ag_type (snd p)))), (''description'', JStr (ag_description (snd p)))]
     @ (case ag_optional (snd p) of Some b \<Rightarrow> [(''optional'', JBool b)] | None \<Rightarrow> [])))"

definition descriptor_json :: "tool_descriptor \<Rightarrow> json" where
  "descriptor_json d =
     JObj [(''name'', JStr (td_name d)), (''description'', JStr (td_description d)),
       (''args'', JObj (map argument_json (td_args d))),
       (''secrets'', JArr (map (\<lambda>s. JObj [(''canonical'', JStr (sp_canonical s)), (''aliases'', JArr (map JStr (sp_aliases s)))]) (td_secrets d))),
       (''reference'', JStr (td_reference d)), (''directory'', JStr (td_directory d)), (''inputSchema'', build_input_schema (td_args d))]"

definition resolve_python_binary :: "(string, string) jsmap \<Rightarrow> string" where
  "resolve_python_binary env = (case map_of env ''CLAWNDOM_PYTHON_BINARY'' of Some (c # s) \<Rightarrow> c # s | _ \<Rightarrow> ''python3'')"

definition resolve_mcp_server_script :: "(string, string) jsmap \<Rightarrow> (string \<Rightarrow> bool) \<Rightarrow> string \<Rightarrow> string \<Rightarrow> string option" where
  "resolve_mcp_server_script env exists_file source_guess cwd_guess =
     (case map_of env ''CLAWNDOM_MCP_SERVER_SCRIPT'' of
        Some (c # s) \<Rightarrow> Some (c # s)
      | _ \<Rightarrow> if exists_file source_guess then Some source_guess
             else if exists_file cwd_guess then Some cwd_guess else None)"

definition build_mcp_run_files ::
  "string \<Rightarrow> string \<Rightarrow> string \<Rightarrow> string \<Rightarrow> string option \<Rightarrow> tool_descriptor list \<Rightarrow> (string \<times> (string, string) jsmap) list \<Rightarrow>
   bridge_context \<Rightarrow> mcp_files" where
  "build_mcp_run_files dir python script version audit_log ds per_tool c =
     (let tool_path = dir @ ''/tool-config.json''; creds_path = dir @ ''/tool-creds.json''; mcp_path = dir @ ''/mcp-config.json'' in
      \<lparr>mf_files =
         [(tool_path, json_stringify (JObj [(''tools'', JArr (map descriptor_json ds))])),
          (creds_path, json_stringify (JObj (map (\<lambda>(t, cs). (t, JObj (map (\<lambda>(k, v). (k, JStr v)) cs))) per_tool))),
          (mcp_path, json_stringify (JObj [(''mcpServers'', JObj [(''clawndom-tools'',
             JObj [(''command'', JStr python), (''args'', JArr [JStr script, JStr tool_path])])])]))],
       mf_config = mcp_path,
       mf_env = [(''CLAWNDOM_TOOL_CREDS_FILE'', creds_path), (''CLAWNDOM_AGENT_ID'', bc_agent c), (''CLAWNDOM_ROUTE_ID'', bc_route c),
         (''CLAWNDOM_REQUEST_ID'', bc_request c),
         (''CLAWNDOM_CORRELATION_ID'', case bc_correlation c of Some x \<Rightarrow> x | None \<Rightarrow> bc_request c),
         (''CLAWNDOM_AGENT_VERSION'', version)]
         @ (case audit_log of Some p \<Rightarrow> [(''CLAWNDOM_AUDIT_LOG'', p)] | None \<Rightarrow> [])\<rparr>)"

fun load_all :: "tool_world \<Rightarrow> string \<Rightarrow> tool_ref list \<Rightarrow> string + tool_descriptor list" where
  "load_all w dir [] = Inr []"
| "load_all w dir (r # rs) =
     and_then (load_tool_descriptor w r dir) (\<lambda>d. and_then (load_all w dir rs) (\<lambda>ds. Inr (d # ds)))"

fun credentials_per_tool :: "manager \<Rightarrow> tool_descriptor list \<Rightarrow> (string, (string, string) jsmap) jsmap \<Rightarrow>
    string + (string, (string, string) jsmap) jsmap" where
  "credentials_per_tool m [] per_tool = Inr per_tool"
| "credentials_per_tool m (d # ds) per_tool =
     and_then (resolve_credentials m (td_name d) (td_secrets d)) (\<lambda>cs.
       credentials_per_tool m ds (AList.update (td_name d) cs per_tool))"

definition build_mcp_bundle :: "tool_world \<Rightarrow> manager \<Rightarrow> (tool_descriptor list \<Rightarrow> (string \<times> (string, string) jsmap) list \<Rightarrow> mcp_files) \<Rightarrow>
    tool_ref list option \<Rightarrow> string \<Rightarrow> string + mcp_files option" where
  "build_mcp_bundle w m files tools dir =
     (case tools of
        None \<Rightarrow> Inr None
      | Some [] \<Rightarrow> Inr None
      | Some refs \<Rightarrow>
          and_then (load_all w dir refs) (\<lambda>ds.
            and_then (credentials_per_tool m ds []) (\<lambda>per_tool. Inr (Some (files ds per_tool)))))"

section \<open>A call\<close>

text \<open>The implementation runs in a subprocess; \<open>finish\<close> takes the first result. The error text of
  \<open>JSON.parse\<close> is the parameter \<open>parse_error\<close>.\<close>

datatype tool_action =
    Tool_stdout string
  | Tool_stderr string
  | Tool_times_out
  | Tool_spawn_error string
  | Tool_exits "int option"
  | Tool_kill_timer

datatype tool_signal = Tool_sigterm | Tool_sigkill

record tool_proc =
  tpr_stdout :: string
  tpr_stderr :: string
  tpr_result :: "(string + json) option"
  tpr_killed :: bool
  tpr_grace :: bool
  tpr_signals :: "tool_signal list"

definition start_tool :: tool_proc where
  "start_tool = \<lparr>tpr_stdout = [], tpr_stderr = [], tpr_result = None, tpr_killed = False, tpr_grace = False, tpr_signals = []\<rparr>"

definition finish_tool :: "string + json \<Rightarrow> tool_proc \<Rightarrow> tool_proc" where
  "finish_tool r p = (if tpr_result p = None then p\<lparr>tpr_result := Some r\<rparr> else p)"

definition quoted_tool :: "string \<Rightarrow> string" where
  "quoted_tool n = ''Tool '' @ [CHR 0x27] @ n @ [CHR 0x27]"

definition last_lines :: "nat \<Rightarrow> string \<Rightarrow> string list" where
  "last_lines n s = (let ls = split_on (CHR 0x0A) (trim s) in drop (length ls - n) ls)"

definition failure_reason :: "string \<Rightarrow> int option \<Rightarrow> string" where
  "failure_reason stderr code =
     (case join '' / '' (last_lines 3 stderr) of
        [] \<Rightarrow> ''exit '' @ (case code of Some i \<Rightarrow> string_of_int i | None \<Rightarrow> ''null'')
      | c # cs \<Rightarrow> c # cs)"

definition close_outcome :: "(string \<Rightarrow> string) \<Rightarrow> string \<Rightarrow> int option \<Rightarrow> tool_proc \<Rightarrow> string + json" where
  "close_outcome parse_error name code p =
     (if code \<noteq> Some 0 then Inl (quoted_tool name @ '' failed: '' @ failure_reason (tpr_stderr p) code)
      else if trim (tpr_stdout p) = [] then Inr JNull
      else (case json_parse (trim (tpr_stdout p)) of
              Some v \<Rightarrow> Inr v
            | None \<Rightarrow> Inl (quoted_tool name @ '' produced non-JSON stdout: '' @ parse_error (trim (tpr_stdout p)))))"

text \<open>\<open>child.kill\<close> sets \<open>killed\<close> once the signal is sent. The limit's timer is cleared by \<open>finish\<close>,
  the one after the grace period is not.\<close>

fun tool_step :: "(string \<Rightarrow> string) \<Rightarrow> string \<Rightarrow> nat \<Rightarrow> tool_action \<Rightarrow> tool_proc \<Rightarrow> tool_proc" where
  "tool_step pe name limit (Tool_stdout c) p = p\<lparr>tpr_stdout := tpr_stdout p @ c\<rparr>"
| "tool_step pe name limit (Tool_stderr c) p = p\<lparr>tpr_stderr := tpr_stderr p @ c\<rparr>"
| "tool_step pe name limit Tool_times_out p =
     (if tpr_result p \<noteq> None then p
      else finish_tool (Inl (quoted_tool name @ '' timed out after '' @ string_of_nat limit @ ''ms''))
             (p\<lparr>tpr_killed := True, tpr_grace := True, tpr_signals := tpr_signals p @ [Tool_sigterm]\<rparr>))"
| "tool_step pe name limit (Tool_spawn_error m) p = finish_tool (Inl m) p"
| "tool_step pe name limit (Tool_exits code) p = finish_tool (close_outcome pe name code p) p"
| "tool_step pe name limit Tool_kill_timer p =
     (if tpr_killed p \<or> \<not> tpr_grace p then p else p\<lparr>tpr_killed := True, tpr_signals := tpr_signals p @ [Tool_sigkill]\<rparr>)"

definition run_subprocess :: "(string \<Rightarrow> string) \<Rightarrow> string \<Rightarrow> nat \<Rightarrow> tool_action list \<Rightarrow> tool_proc" where
  "run_subprocess pe name limit acts = fold (tool_step pe name limit) acts start_tool"

text \<open>\<open>{...input, ...credentials}\<close>: a credential replaces an argument of the same name.\<close>

definition call_payload :: "props \<Rightarrow> (string, string) jsmap \<Rightarrow> props" where
  "call_payload input creds = fold (\<lambda>(k, v). AList.update k (JStr v)) creds input"

record tool_result =
  trs_content :: json
  trs_error :: bool

record tool_audit =
  ar_timestamp :: string
  ar_agent :: string
  ar_route :: string
  ar_tool :: string
  ar_args :: json
  ar_result :: json
  ar_error :: "string option"
  ar_latency :: int
  ar_request :: string
  ar_correlation :: string
  ar_version :: string

text \<open>A long string is cut; the ellipsis before the mark is no eight-bit character, a parameter.\<close>

definition truncate_for_audit :: "char \<Rightarrow> json \<Rightarrow> json" where
  "truncate_for_audit ell v =
     (case v of
        JStr s \<Rightarrow> if length s > 4096 then JStr (take 4096 s @ ell # ''[truncated]'') else v
      | _ \<Rightarrow> v)"

text \<open>What the call reads: the clock at its start and end, the time as text, the version, the outcome of
  the subprocess for the payload written to it.\<close>

record call_world =
  cw_started :: int
  cw_ended :: int
  cw_timestamp :: string
  cw_version :: string
  cw_ellipsis :: char
  cw_outcome :: "string \<Rightarrow> (string + json)"

definition first_line :: "string \<Rightarrow> string" where
  "first_line s = takeWhile (\<lambda>c. c \<noteq> CHR 0x0A) s"

definition execute_tool_call ::
  "call_world \<Rightarrow> props \<Rightarrow> tool_descriptor \<Rightarrow> (string, string) jsmap \<Rightarrow> bridge_context \<Rightarrow> tool_result \<times> tool_audit" where
  "execute_tool_call w input d creds c =
     (let outcome = cw_outcome w (json_stringify (JObj (call_payload input creds)));
          error_summary = (case outcome of Inl m \<Rightarrow> Some (first_line m) | Inr v \<Rightarrow> None);
          secrets = map snd creds;
          result = (case outcome of
              Inl m \<Rightarrow> \<lparr>trs_content = JObj [(''error'', JStr (first_line m))], trs_error = True\<rparr>
            | Inr v \<Rightarrow> \<lparr>trs_content = v, trs_error = False\<rparr>)
      in (result,
          \<lparr>ar_timestamp = cw_timestamp w, ar_agent = bc_agent c, ar_route = bc_route c, ar_tool = td_name d,
           ar_args = redact_credentials (JObj input) secrets,
           ar_result = (if error_summary = None
                        then truncate_for_audit (cw_ellipsis w) (redact_credentials (trs_content result) secrets) else JNull),
           ar_error = error_summary, ar_latency = cw_ended w - cw_started w, ar_request = bc_request c,
           ar_correlation = (case bc_correlation c of Some x \<Rightarrow> x | None \<Rightarrow> bc_request c),
           ar_version = cw_version w\<rparr>))"

text \<open>A call with its record appended to the log; a log that cannot be written loses the record only.\<close>

definition logged_call ::
  "call_world \<Rightarrow> bool \<Rightarrow> props \<Rightarrow> tool_descriptor \<Rightarrow> (string, string) jsmap \<Rightarrow> bridge_context \<Rightarrow> tool_audit list \<Rightarrow>
   tool_result \<times> tool_audit list" where
  "logged_call w writable input d creds c log =
     (case execute_tool_call w input d creds c of (r, a) \<Rightarrow> (r, if writable then log @ [a] else log))"

section \<open>What the boot check promises\<close>

definition plain_names :: "tool_descriptor \<Rightarrow> bool" where
  "plain_names d \<longleftrightarrow> list_all (\<lambda>n. object_inherited n = Undef) (map fst (td_args d) @ map sp_canonical (td_secrets d))"

text \<open>Python's keyword call: every name is a parameter, every parameter without a default is named.\<close>

definition kwargs_bind :: "(string, bool) jsmap \<Rightarrow> string list \<Rightarrow> bool" where
  "kwargs_bind sig names \<longleftrightarrow>
     list_all (\<lambda>n. n \<in> fst ` set sig) names \<and> list_all (\<lambda>(n, dflt). dflt \<or> n \<in> set names) sig"

lemma set_secret_names: "set (secret_names d) = sp_canonical ` set (td_secrets d)"
  by (simp add: secret_names_def)

lemma map_of_eq_None_keys: "map_of m n = None \<longleftrightarrow> n \<notin> fst ` set m"
  by (simp add: map_of_eq_None_iff)

lemma argument_mismatch_none:
  assumes "map_of sig (fst p) = Some b"
  shows "argument_mismatch sig p = [] \<longleftrightarrow> b = is_optional (snd p)"
  using assms by (auto simp: argument_mismatch_def kwarg_default_def)

lemma signature_ok_iff:
  assumes "plain_names d"
  shows "signature_errors d sig = [] \<longleftrightarrow>
    fst ` set sig = fst ` set (td_args d) \<union> set (secret_names d) \<and>
    (\<forall>p\<in>set (td_args d). map_of sig (fst p) = Some (is_optional (snd p))) \<and>
    (\<forall>n\<in>set (secret_names d). map_of sig n = Some False)"
    (is "?l \<longleftrightarrow> ?r")
proof -
  have found: "kwarg_found sig n \<longleftrightarrow> n \<in> fst ` set sig"
    if "n \<in> fst ` set (td_args d) \<union> set (secret_names d)" for n
    using that assms by (auto simp: kwarg_found_def plain_names_def list_all_iff set_secret_names map_of_eq_None_iff)
  have split_checks: "?l \<longleftrightarrow>
      (\<forall>n\<in>fst ` set (td_args d). kwarg_found sig n) \<and> (\<forall>n\<in>set (secret_names d). kwarg_found sig n) \<and>
      (\<forall>p\<in>set (td_args d). argument_mismatch sig p = []) \<and> (\<forall>n\<in>set (secret_names d). map_of sig n \<noteq> Some True) \<and>
      (\<forall>n\<in>fst ` set sig. n \<in> fst ` set (td_args d) \<union> set (secret_names d))"
    by (auto simp: signature_errors_def Let_def filter_empty_conv)
  show ?thesis
  proof
    assume l: ?l
    note checks = l[unfolded split_checks]
    have keys: "fst ` set sig = fst ` set (td_args d) \<union> set (secret_names d)"
      using checks found by blast
    have args: "map_of sig (fst p) = Some (is_optional (snd p))" if p: "p \<in> set (td_args d)" for p
    proof -
      have "fst p \<in> fst ` set sig" using p keys by blast
      then obtain b where b: "map_of sig (fst p) = Some b" by (metis map_of_eq_None_keys not_None_eq)
      then show ?thesis using checks p argument_mismatch_none by blast
    qed
    have secrets: "map_of sig n = Some False" if n: "n \<in> set (secret_names d)" for n
    proof -
      have "n \<in> fst ` set sig" using n keys by blast
      then obtain b where b: "map_of sig n = Some b" by (metis map_of_eq_None_keys not_None_eq)
      moreover have "map_of sig n \<noteq> Some True" using checks n by blast
      ultimately show ?thesis by simp
    qed
    show ?r using keys args secrets by blast
  next
    assume r: ?r
    then show ?l unfolding split_checks
      using found argument_mismatch_none by (metis UnCI option.inject)
  qed
qed

lemma call_payload_keys: "fst ` set (call_payload input creds) = fst ` set input \<union> fst ` set creds"
  by (induction creds arbitrary: input)
    (auto simp: call_payload_def dom_update case_prod_unfold)

text \<open>The credentials win over whatever the model put under their names.\<close>

lemma credentials_win:
  assumes "distinct (map fst creds)" and "(k, v) \<in> set creds"
  shows "map_of (call_payload input creds) k = Some (JStr v)"
  using assms
proof (induction creds arbitrary: input)
  case (Cons c cs)
  have untouched: "map_of (call_payload i cs) k = map_of i k" if "k \<notin> fst ` set cs" for i
    using that by (induction cs arbitrary: i) (auto simp: call_payload_def case_prod_unfold update_conv')
  show ?case
  proof (cases "(k, v) = c")
    case True
    then show ?thesis using Cons.prems untouched[of "AList.update k (JStr v) input"]
      by (auto simp: call_payload_def update_conv')
  next
    case False
    then show ?thesis using Cons by (auto simp: call_payload_def case_prod_unfold)
  qed
qed simp

lemma resolved_names:
  "resolve_credentials m tool ss = Inr cs \<Longrightarrow> map fst cs = map sp_canonical ss"
  by (induction ss arbitrary: cs) (auto simp: and_then_Inr)

lemma validated_signature:
  assumes "validate_tool_signature w d = None" and "tl_signature w (td_directory d @ ''/impl.py'') = Inr sig"
  shows "signature_errors d sig = []"
  using assms by (auto simp: validate_tool_signature_def split: list.splits)

lemma binding_of_validated:
  assumes "plain_names d" and "signature_errors d sig = []" and "distinct (map fst sig)"
    and "fst ` set creds = set (secret_names d)"
  shows "kwargs_bind sig (map fst (call_payload input creds)) \<longleftrightarrow>
    set (required_args (td_args d)) \<subseteq> fst ` set input \<union> set (secret_names d) \<and>
    fst ` set input \<subseteq> fst ` set (td_args d) \<union> set (secret_names d)"
proof -
  note ok = assms(2)[unfolded signature_ok_iff[OF assms(1)]]
  have keys: "set (map fst (call_payload input creds)) = fst ` set input \<union> set (secret_names d)"
    using assms(4) by (simp add: call_payload_keys)
  have "list_all (\<lambda>n. n \<in> fst ` set sig) (map fst (call_payload input creds)) \<longleftrightarrow>
      fst ` set input \<subseteq> fst ` set (td_args d) \<union> set (secret_names d)"
    using ok keys by (auto simp: list_all_iff simp del: set_map)
  moreover have "list_all (\<lambda>(n, dflt). dflt \<or> n \<in> set (map fst (call_payload input creds))) sig \<longleftrightarrow>
      (\<forall>n. map_of sig n = Some False \<longrightarrow> n \<in> fst ` set input \<union> set (secret_names d))"
    unfolding keys using assms(3) by (force simp: list_all_iff)
  moreover have "map_of sig n = Some False \<longleftrightarrow> n \<in> set (required_args (td_args d)) \<or> n \<in> set (secret_names d)" for n
  proof
    assume n: "map_of sig n = Some False"
    then have "n \<in> fst ` set sig" by (metis map_of_eq_None_keys option.distinct(1))
    then consider "n \<in> set (secret_names d)" | p where "p \<in> set (td_args d)" "n = fst p" using ok by blast
    then show "n \<in> set (required_args (td_args d)) \<or> n \<in> set (secret_names d)"
    proof cases
      case (2 p)
      then have "\<not> is_optional (snd p)" using ok n by auto
      then show ?thesis using 2 by (simp add: required_args_def)
    qed simp
  next
    assume "n \<in> set (required_args (td_args d)) \<or> n \<in> set (secret_names d)"
    then show "map_of sig n = Some False" using ok by (auto simp: required_args_def)
  qed
  ultimately show ?thesis unfolding kwargs_bind_def by auto
qed


definition example_tool :: tool_descriptor where
  "example_tool = \<lparr>td_directory = ''/t/slack/post'', td_reference = ''t.slack.post'', td_name = ''slack_post'',
     td_description = ''post'', td_args = [(''channel'', \<lparr>ag_type = Arg_string, ag_description = ''c'', ag_optional = None\<rparr>),
       (''thread'', \<lparr>ag_type = Arg_string, ag_description = ''t'', ag_optional = Some True\<rparr>)],
     td_secrets = [\<lparr>sp_canonical = ''token'', sp_aliases = [''SLACK_A'', ''SLACK_B'']\<rparr>]\<rparr>"

definition example_tool_json :: json where
  "example_tool_json = JObj [(''description'', JStr ''post''),
     (''args'', JObj [(''channel'', JObj [(''type'', JStr ''string''), (''description'', JStr ''c'')]),
       (''thread'', JObj [(''type'', JStr ''string''), (''description'', JStr ''t''), (''optional'', JBool True)])]),
     (''secrets'', JObj [(''token'', JArr [JStr ''SLACK_A'', JStr ''SLACK_B''])])]"

definition example_tool_world :: tool_world where
  "example_tool_world = \<lparr>tl_locate = \<lambda>p dir. Inr (CHR ''/'' # p), tl_exists = \<lambda>dir. True,
     tl_yaml = \<lambda>f. Inr example_tool_json,
     tl_signature = \<lambda>f. Inr [(''channel'', False), (''thread'', True), (''token'', False)]\<rparr>"

definition example_tool_manager :: manager where
  "example_tool_manager = \<lparr>mg_bindings = [], mg_secrets = [(''SLACK_B'', \<lparr>sv_value = ''xoxb'', sv_resolved_at = 0, sv_expires_at = None, sv_source = ''env''\<rparr>)], mg_failures = [], mg_exited = False\<rparr>"


lemma boot_loads:
  "validate_rule_tools w m a dir refs seen g = Inr g' \<Longrightarrow>
   \<exists>ds. load_all w dir refs = Inr ds \<and> distinct (map td_name ds) \<and> td_name ` set ds \<inter> set seen = {} \<and>
     (\<forall>d\<in>set ds. validate_tool_signature w d = None \<and> unbound_secret m d = None)"
proof (induction refs arbitrary: seen g)
  case (Cons r rs)
  then obtain d where d: "load_tool_descriptor w r dir = Inr d" "td_name d \<notin> set seen"
      "validate_tool_signature w d = None" "unbound_secret m d = None"
      and rest: "validate_rule_tools w m a dir rs (td_name d # seen) (register_tool a d g) = Inr g'"
    by (auto split: sum.splits if_splits option.splits)
  from Cons.IH[OF rest] d show ?case by auto
qed simp

lemma bound_resolves:
  assumes "unbound_secret m d = None" and "\<forall>k. has_secret m k \<longrightarrow> has_secret m' k"
  shows "\<exists>cs. resolve_credentials m' t (td_secrets d) = Inr cs"
proof -
  have one: "\<exists>v. resolve_secret_from_aliases m' t s = Inr v" if "list_ex (has_secret m) (sp_aliases s)" for s
  proof -
    have "\<exists>k\<in>set (sp_aliases s). has_secret m' k" using that assms(2) by (auto simp: list_ex_iff)
    then obtain k where k: "find (has_secret m') (sp_aliases s) = Some k" by (metis find_None_iff not_Some_eq)
    then have "has_secret m' k" by (auto simp: find_Some_iff)
    then obtain r where "map_of (mg_secrets m') k = Some r"
      by (metis has_secret_def map_of_eq_None_keys not_None_eq)
    then show ?thesis using k by (simp add: resolve_secret_from_aliases_def get_secret_def)
  qed
  have "\<exists>cs. resolve_credentials m' t ss = Inr cs" if "\<forall>s\<in>set ss. list_ex (has_secret m) (sp_aliases s)" for ss
    using that
  proof (induction ss)
    case (Cons s ss)
    then obtain v cs where "resolve_secret_from_aliases m' t s = Inr v" "resolve_credentials m' t ss = Inr cs"
      using one by (metis list.set_intros)
    then show ?case by simp
  qed simp
  moreover have "\<forall>s\<in>set (td_secrets d). list_ex (has_secret m) (sp_aliases s)"
    using assms(1) by (auto simp: unbound_secret_def find_None_iff)
  ultimately show ?thesis by blast
qed

lemma per_tool_credentials:
  assumes "distinct (map td_name ds)" and "\<forall>d\<in>set ds. \<exists>cs. resolve_credentials m (td_name d) (td_secrets d) = Inr cs"
  shows "\<exists>pt. credentials_per_tool m ds pt0 = Inr pt \<and>
    (\<forall>d\<in>set ds. \<exists>cs. map_of pt (td_name d) = Some cs \<and> resolve_credentials m (td_name d) (td_secrets d) = Inr cs) \<and>
    (\<forall>n. n \<notin> td_name ` set ds \<longrightarrow> map_of pt n = map_of pt0 n)"
  using assms
proof (induction ds arbitrary: pt0)
  case (Cons d ds)
  obtain cs where cs: "resolve_credentials m (td_name d) (td_secrets d) = Inr cs" using Cons.prems(2) by auto
  from Cons.IH[of "AList.update (td_name d) cs pt0"] Cons.prems
  obtain pt where pt: "credentials_per_tool m ds (AList.update (td_name d) cs pt0) = Inr pt"
      "\<forall>d\<in>set ds. \<exists>cs. map_of pt (td_name d) = Some cs \<and> resolve_credentials m (td_name d) (td_secrets d) = Inr cs"
      "\<forall>n. n \<notin> td_name ` set ds \<longrightarrow> map_of pt n = map_of (AList.update (td_name d) cs pt0) n" by auto
  then show ?case using cs Cons.prems(1) by (auto simp: update_conv')
qed simp


definition example_tool_ref :: tool_ref where
  "example_tool_ref = \<lparr>tr_module = ''t.slack.post'', tr_roles = None, tr_deferred = None\<rparr>"

lemma example_tool_loads:
  "load_tool_descriptor example_tool_world example_tool_ref ''agent'' = Inr example_tool"
  by code_simp

lemma example_tool_checked: "validate_tool_signature example_tool_world example_tool = None"
  by code_simp

lemma example_tool_bound: "unbound_secret example_tool_manager example_tool = None"
  by code_simp

definition example_tool_files :: "tool_descriptor list \<Rightarrow> (string \<times> (string, string) jsmap) list \<Rightarrow> mcp_files" where
  "example_tool_files ds per_tool = build_mcp_run_files ''/w'' ''python3'' ''/s.py'' ''v1'' None ds per_tool
     \<lparr>bc_agent = ''patch'', bc_route = ''r'', bc_request = ''1'', bc_correlation = None\<rparr>"


lemma leaves_truncated:
  assumes "ell \<notin> set t" and "\<not> sublist t ''[truncated]''"
    and "\<forall>x\<in>set (string_leaves v). \<not> sublist t x" and "leaf \<in> set (string_leaves (truncate_for_audit ell v))"
  shows "\<not> sublist t leaf"
proof (cases "\<exists>s. v = JStr s \<and> 4096 < length s")
  case True
  then obtain s where s: "v = JStr s" "4096 < length s" by blast
  then have leaf: "leaf = take 4096 s @ ell # ''[truncated]''" using assms(4) by (simp add: truncate_for_audit_def)
  have "\<not> sublist t (take 4096 s)" using s assms(3) sublist_order.order.trans[OF _ sublist_take] by auto
  then show ?thesis using leaf assms(1,2) by (simp add: sublist_append_other)
next
  case False
  then have "truncate_for_audit ell v = v" by (auto simp: truncate_for_audit_def split: json.split)
  then show ?thesis using assms(3,4) by auto
qed


definition example_call_world :: "string + json \<Rightarrow> call_world" where
  "example_call_world r = \<lparr>cw_started = 0, cw_ended = 5, cw_timestamp = ''t'', cw_version = ''v1'', cw_ellipsis = CHR ''~'',
     cw_outcome = \<lambda>payload. r\<rparr>"

definition example_bridge :: bridge_context where
  "example_bridge = \<lparr>bc_agent = ''patch'', bc_route = ''r'', bc_request = ''1'', bc_correlation = None\<rparr>"


text \<open>The error summary is not redacted: an error message of the tool that quotes its credential puts
  it into the audit record.\<close>

lemma error_summary_unredacted:
  "ar_error (snd (execute_tool_call (example_call_world (Inl ''Tool failed: bad token xoxb-12'')) input example_tool
     [(''token'', ''xoxb-12'')] c)) = Some ''Tool failed: bad token xoxb-12''"
  by (simp add: execute_tool_call_def example_call_world_def first_line_def)

text \<open>The second signal is never sent: its timer starts with the first one, which already set \<open>killed\<close>.\<close>

lemma tool_never_sigkilled: "Tool_sigkill \<notin> set (tpr_signals (run_subprocess pe n limit acts))"
proof -
  have "(tpr_grace p \<longrightarrow> tpr_killed p) \<and> Tool_sigkill \<notin> set (tpr_signals p)" if "p = run_subprocess pe n limit acts" for p
    using that
  proof (induction acts arbitrary: p rule: rev_induct)
    case (snoc x xs)
    then show ?case by (cases x) (auto simp: run_subprocess_def finish_tool_def)
  qed (simp add: run_subprocess_def start_tool_def)
  then show ?thesis by simp
qed

text \<open>A name of \<open>Object.prototype\<close> is found in every signature, so a tool may declare a required
  argument the implementation does not take and pass the check for its presence.\<close>

lemma prototype_name_found: "kwarg_found [] ''toString''" "signature_errors
    (example_tool\<lparr>td_args := [(''toString'', \<lparr>ag_type = Arg_string, ag_description = ''x'', ag_optional = Some True\<rparr>)],
      td_secrets := []\<rparr>) [] = []"
  by code_simp+

text \<open>The parent directory always comes first unless it is \<open>tools\<close>: a tool at the root of a package
  is named after the package.\<close>

lemma root_tool_name:
  "compute_tool_name ''/w/winston_agent/standalone'' = ''winston_agent_standalone''"
  "compute_tool_name ''/w/agency_tools/post/'' = ''agency_tools_post''"
  by code_simp+

text \<open>What the program registers with the model: an argument is listed as required exactly when the
  signature check demands that the parameter has no default.\<close>

lemma required_without_default:
  assumes "plain_names d" and "signature_errors d sig = []" and "distinct (map fst (td_args d))"
    and "(n, a) \<in> set (td_args d)"
  shows "n \<in> set (required_args (td_args d)) \<longleftrightarrow> map_of sig n = Some False"
proof -
  have sig: "map_of sig n = Some (is_optional a)"
    using assms(2,4) unfolding signature_ok_iff[OF assms(1)] by force
  have "n \<in> set (required_args (td_args d)) \<longleftrightarrow> \<not> is_optional a"
    using assms(3,4) by (force simp: required_args_def dest: eq_key_imp_eq_value)
  then show ?thesis using sig by simp
qed

end
