(* ===== verification/Template.thy ===== *)
theory Template
  imports Extract "HOL-Library.Sublist" "HOL-Library.Multiset"
begin

text \<open>
  Prompt templates: \<open>lib/template/template-engine.ts\<close>. System tags are cut out of the template and
  their documents collected, document tags are replaced by what they name, and nunjucks, a parameter,
  renders the rest. The answers of \<open>readFile\<close> are a parameter; directories are absolute paths.
\<close>

section \<open>Paths\<close>

text \<open>\<open>path.resolve\<close> and \<open>path.join\<close> of the language's library, on absolute paths: empty segments and
  dots go, two dots take the segment before them away. \<open>join\<close> keeps a slash at the end.\<close>

definition push_segment :: "string \<Rightarrow> string list \<Rightarrow> string list" where
  "push_segment s acc = (if s = [] \<or> s = ''.'' then acc else if s = ''..'' then butlast acc else acc @ [s])"

definition path_segments :: "string \<Rightarrow> string list" where
  "path_segments p = fold push_segment (split_on CHR ''/'' p) []"

definition path_text :: "string list \<Rightarrow> string" where
  "path_text segs = CHR ''/'' # join ''/'' segs"

definition node_resolve :: "string \<Rightarrow> string \<Rightarrow> string" where
  "node_resolve base rel = path_text (path_segments (if prefix ''/'' rel then rel else base @ ''/'' @ rel))"

definition node_join :: "string \<Rightarrow> string \<Rightarrow> string" where
  "node_join base rel =
     (let raw = (if rel = [] then base else base @ ''/'' @ rel); segs = path_segments raw in
      path_text segs @ (if suffix ''/'' raw \<and> segs \<noteq> [] then ''/'' else []))"

definition drop_end :: "(char \<Rightarrow> bool) \<Rightarrow> string \<Rightarrow> string" where
  "drop_end P s = rev (dropWhile P (rev s))"

definition node_dirname :: "string \<Rightarrow> string" where
  "node_dirname p =
     (case drop_end (\<lambda>c. c = CHR ''/'') (drop_end (\<lambda>c. c \<noteq> CHR ''/'') (drop_end (\<lambda>c. c = CHR ''/'') p)) of
        [] \<Rightarrow> ''/'' | c # cs \<Rightarrow> c # cs)"

section \<open>Documents\<close>

type_synonym reader = "string \<Rightarrow> string + string"

definition read_agent_doc :: "reader \<Rightarrow> string \<Rightarrow> string \<Rightarrow> string + string" where
  "read_agent_doc rd dir rel = rd (node_join dir rel)"

definition shared_root :: "string \<Rightarrow> string" where
  "shared_root dir = node_resolve (node_dirname dir) ''shared''"

definition inside_shared :: "string \<Rightarrow> string \<Rightarrow> bool" where
  "inside_shared dir rel \<longleftrightarrow>
     (let root = shared_root dir; full = node_resolve root rel in full = root \<or> prefix (root @ ''/'') full)"

definition read_shared_doc :: "reader \<Rightarrow> string \<Rightarrow> string \<Rightarrow> string + string" where
  "read_shared_doc rd dir rel =
     (if inside_shared dir rel then rd (node_resolve (shared_root dir) rel)
      else Inl (''Shared doc path escapes shared root: '' @ rel @ '' -> '' @ node_resolve (shared_root dir) rel @
        '' (root: '' @ shared_root dir @ '')''))"

section \<open>Tags\<close>

datatype doc_source = Agent_doc | Shared_doc

fun body_tag :: "doc_source \<Rightarrow> string" where
  "body_tag Agent_doc = ''{{doc:''"
| "body_tag Shared_doc = ''{{shared:''"

fun system_tag :: "doc_source \<Rightarrow> string" where
  "system_tag Agent_doc = ''{{system-doc:''"
| "system_tag Shared_doc = ''{{system-shared:''"

definition spell_tag :: "string \<Rightarrow> string \<Rightarrow> string" where
  "spell_tag opening path = opening @ path @ ''}}''"

text \<open>A match of \<open>opening([^}]+)}}\<close> at the start of a text: the captured path and what follows.\<close>

definition tag_at :: "string \<Rightarrow> string \<Rightarrow> (string \<times> string) option" where
  "tag_at opening s =
     (if prefix opening s then
        let rest = drop (length opening) s; path = takeWhile (\<lambda>c. c \<noteq> CHR ''}'') rest; after = drop (length path) rest in
        if path \<noteq> [] \<and> prefix ''}}'' after then Some (path, drop 2 after) else None
      else None)"

lemma tag_at_shorter: "tag_at opening s = Some (p, r) \<Longrightarrow> length r < length s"
proof -
  assume "tag_at opening s = Some (p, r)"
  then have r: "r = drop 2 (drop (length p) (drop (length opening) s))" and "p \<noteq> []"
      and "prefix ''}}'' (drop (length p) (drop (length opening) s))"
    by (auto simp: tag_at_def Let_def split: if_splits)
  then have "2 \<le> length (drop (length p) (drop (length opening) s))" by (auto dest: prefix_length_le)
  then show "length r < length s" using r by simp
qed

record tag_match =
  tm_index :: nat
  tm_source :: doc_source
  tm_text :: string
  tm_path :: string

text \<open>\<open>matchAll\<close> with the global flag: matches from left to right that do not overlap.\<close>

function match_all :: "string \<Rightarrow> doc_source \<Rightarrow> nat \<Rightarrow> string \<Rightarrow> tag_match list" where
  "match_all opening src i [] = []"
| "match_all opening src i (c # cs) =
     (case tag_at opening (c # cs) of
        Some (path, rest) \<Rightarrow>
          \<lparr>tm_index = i, tm_source = src, tm_text = spell_tag opening path, tm_path = trim path\<rparr>
          # match_all opening src (i + (length (c # cs) - length rest)) rest
      | None \<Rightarrow> match_all opening src (Suc i) cs)"
  by pat_completeness auto
termination
  by (relation "measure (\<lambda>(opening, src, i, s). length s)") (auto dest: tag_at_shorter)

definition read_doc :: "reader \<Rightarrow> string \<Rightarrow> tag_match \<Rightarrow> string + string" where
  "read_doc rd dir m =
     (case tm_source m of Agent_doc \<Rightarrow> read_agent_doc rd dir (tm_path m) | Shared_doc \<Rightarrow> read_shared_doc rd dir (tm_path m))"

text \<open>\<open>Promise.all\<close>: all contents, or an error.\<close>

fun read_docs :: "reader \<Rightarrow> string \<Rightarrow> tag_match list \<Rightarrow> string + string list" where
  "read_docs rd dir [] = Inr []"
| "read_docs rd dir (m # ms) = and_then (read_doc rd dir m) (\<lambda>t. and_then (read_docs rd dir ms) (\<lambda>ts. Inr (t # ts)))"

section \<open>Replacement\<close>

text \<open>\<open>String.replace\<close> with a string: the first occurrence is replaced, after the dollar patterns of
  the replacement have been expanded.\<close>

fun first_occurrence :: "string \<Rightarrow> string \<Rightarrow> nat option" where
  "first_occurrence pat [] = (if pat = [] then Some 0 else None)"
| "first_occurrence pat (c # cs) =
     (if prefix pat (c # cs) then Some 0 else map_option Suc (first_occurrence pat cs))"

fun expand_dollars :: "string \<Rightarrow> string \<Rightarrow> string \<Rightarrow> string \<Rightarrow> string" where
  "expand_dollars pat before after (c # d # cs) =
     (if c = CHR ''$'' \<and> d = CHR ''$'' then CHR ''$'' # expand_dollars pat before after cs
      else if c = CHR ''$'' \<and> d = CHR ''&'' then pat @ expand_dollars pat before after cs
      else if c = CHR ''$'' \<and> d = CHR 0x60 then before @ expand_dollars pat before after cs
      else if c = CHR ''$'' \<and> d = CHR 0x27 then after @ expand_dollars pat before after cs
      else c # expand_dollars pat before after (d # cs))"
| "expand_dollars pat before after cs = cs"

definition js_replace :: "string \<Rightarrow> string \<Rightarrow> string \<Rightarrow> string" where
  "js_replace pat rep s =
     (case first_occurrence pat s of
        None \<Rightarrow> s
      | Some i \<Rightarrow>
          let before = take i s; after = drop (i + length pat) s in before @ expand_dollars pat before after rep @ after)"

definition extract_system_tags :: "reader \<Rightarrow> string \<Rightarrow> string \<Rightarrow> string + string \<times> string" where
  "extract_system_tags rd dir template =
     (let doc_matches = match_all (system_tag Agent_doc) Agent_doc 0 template;
          shared_matches = match_all (system_tag Shared_doc) Shared_doc 0 template in
      if doc_matches = [] \<and> shared_matches = [] then Inr (template, [])
      else let ordered = sort_key tm_index (doc_matches @ shared_matches) in
           and_then (read_docs rd dir ordered) (\<lambda>contents.
             Inr (fold (\<lambda>m body. js_replace (tm_text m) [] body) ordered template,
               join [CHR 0x0A, CHR 0x0A] contents)))"

definition preprocess_doc_tags :: "reader \<Rightarrow> string \<Rightarrow> string \<Rightarrow> string + string" where
  "preprocess_doc_tags rd dir template =
     (let doc_matches = match_all (body_tag Agent_doc) Agent_doc 0 template;
          shared_matches = match_all (body_tag Shared_doc) Shared_doc 0 template in
      if doc_matches = [] \<and> shared_matches = [] then Inr template
      else and_then (read_docs rd dir doc_matches) (\<lambda>docs.
             and_then (read_docs rd dir shared_matches) (\<lambda>shared.
               Inr (fold (\<lambda>(m, t) body. js_replace (tm_text m) t body) (zip (doc_matches @ shared_matches) (docs @ shared)) template))))"

section \<open>Rendering\<close>

record identity_injection =
  ii_identity :: "bool option"
  ii_soul :: "bool option"

definition wants :: "bool option \<Rightarrow> bool" where
  "wants b \<longleftrightarrow> b \<noteq> Some False"

definition build_identity_preamble :: "identity_injection option \<Rightarrow> string" where
  "build_identity_preamble c =
     (case c of
        None \<Rightarrow> []
      | Some i \<Rightarrow>
          let ls = (if wants (ii_identity i) then [''{{system-doc:identity/IDENTITY.md}}''] else [])
                   @ (if wants (ii_soul i) then [''{{system-doc:identity/SOUL.md}}''] else []) in
          if ls = [] then [] else join [CHR 0x0A] ls @ [CHR 0x0A, CHR 0x0A])"

text \<open>\<open>JSON.stringify(payload, null, 2)\<close>.\<close>

fun json_pretty :: "string \<Rightarrow> json \<Rightarrow> string" where
  "json_pretty ind (JArr vs) =
     (if vs = [] then ''[]''
      else ''['' @ CHR 0x0A # join ('','' @ [CHR 0x0A]) (map (\<lambda>v. ind @ ''  '' @ json_pretty (ind @ ''  '') v) vs) @ CHR 0x0A # ind @ '']'')"
| "json_pretty ind (JObj ps) =
     (if ps = [] then ''{}''
      else ''{'' @ CHR 0x0A # join ('','' @ [CHR 0x0A])
             (map (\<lambda>(k, v). ind @ ''  '' @ quote_string k @ '': '' @ json_pretty (ind @ ''  '') v) ps) @ CHR 0x0A # ind @ ''}'')"
| "json_pretty ind v = json_stringify v"

record rendered_template =
  rt_system :: string
  rt_body :: string

definition render_context :: "json \<Rightarrow> props \<Rightarrow> props" where
  "render_context payload entity =
     fold (\<lambda>(k, v). AList.update k v) ((case payload of JObj ps \<Rightarrow> ps | _ \<Rightarrow> []) @ entity)
       [(''payload'', JStr (json_pretty [] payload))]"

definition render_template ::
  "reader \<Rightarrow> (string \<Rightarrow> props \<Rightarrow> string + string) \<Rightarrow> string \<Rightarrow> json \<Rightarrow> string \<Rightarrow> identity_injection option \<Rightarrow> props \<Rightarrow>
   string + rendered_template" where
  "render_template rd nunjucks template payload dir identity entity =
     and_then (extract_system_tags rd dir (build_identity_preamble identity @ template)) (\<lambda>(rest, system_content).
       and_then (preprocess_doc_tags rd dir rest) (\<lambda>with_docs.
         and_then (nunjucks with_docs (render_context payload entity)) (\<lambda>body.
           if system_content = [] then Inr \<lparr>rt_system = [], rt_body = body\<rparr>
           else and_then (nunjucks system_content (render_context payload entity)) (\<lambda>system.
                  Inr \<lparr>rt_system = system, rt_body = body\<rparr>))))"

section \<open>The shared root\<close>

definition clean_segment :: "string \<Rightarrow> bool" where
  "clean_segment s \<longleftrightarrow> s \<noteq> [] \<and> s \<noteq> ''.'' \<and> s \<noteq> ''..'' \<and> CHR ''/'' \<notin> set s"

lemma fold_push_clean:
  "\<forall>s\<in>set xs. CHR ''/'' \<notin> set s \<Longrightarrow> list_all clean_segment acc \<Longrightarrow> list_all clean_segment (fold push_segment xs acc)"
proof (induction xs arbitrary: acc)
  case (Cons x xs)
  have "list_all clean_segment (push_segment x acc)"
    using Cons.prems by (auto simp: push_segment_def clean_segment_def list_all_iff dest: in_set_butlastD)
  then show ?case using Cons by simp
qed simp

lemma path_segments_clean: "list_all clean_segment (path_segments p)"
  unfolding path_segments_def by (rule fold_push_clean) (auto dest: split_on_no_sep)

lemma fold_push_id:
  "list_all clean_segment xs \<Longrightarrow> fold push_segment xs acc = acc @ xs"
  by (induction xs arbitrary: acc) (auto simp: push_segment_def clean_segment_def)

lemma split_join:
  "list_all clean_segment xs \<Longrightarrow> xs \<noteq> [] \<Longrightarrow> split_on CHR ''/'' (join ''/'' xs) = xs"
  by (rule split_on_join) (auto simp: clean_segment_def list_all_iff)

lemma segments_of_text:
  assumes "list_all clean_segment xs"
  shows "path_segments (path_text xs) = xs"
proof (cases "xs = []")
  case True
  then show ?thesis by (simp add: path_segments_def path_text_def push_segment_def)
next
  case False
  then show ?thesis
    using split_join[OF assms] fold_push_id[OF assms, of "[]"] by (simp add: path_segments_def path_text_def push_segment_def)
qed

lemma path_text_inj:
  "list_all clean_segment xs \<Longrightarrow> list_all clean_segment ys \<Longrightarrow> path_text xs = path_text ys \<longleftrightarrow> xs = ys"
  by (metis segments_of_text)

lemma join_append: "xs \<noteq> [] \<Longrightarrow> ys \<noteq> [] \<Longrightarrow> join sep (xs @ ys) = join sep xs @ sep @ join sep ys"
  by (induction sep xs rule: join.induct) (auto simp: neq_Nil_conv)

lemma prefix_path_text:
  assumes "list_all clean_segment xs" and "list_all clean_segment ys" and "xs \<noteq> []"
  shows "prefix (path_text xs @ ''/'') (path_text ys) \<longleftrightarrow> (\<exists>z zs. ys = xs @ z # zs)"
proof
  assume "prefix (path_text xs @ ''/'') (path_text ys)"
  then obtain r where r: "join ''/'' ys = join ''/'' xs @ CHR ''/'' # r" by (auto simp: path_text_def prefix_def)
  then have "ys \<noteq> []" by auto
  have tail: "split_on CHR ''/'' (join ''/'' xs @ CHR ''/'' # r) = xs @ split_on CHR ''/'' r"
    using assms(1,3)
  proof (induction "''/'' :: string" xs rule: join.induct)
    case (2 w)
    then show ?case by (simp add: clean_segment_def split_on_append_sep)
  next
    case (3 w v ws)
    then show ?case
      using split_on_append_sep[of "CHR ''/''" w "join ''/'' (v # ws) @ CHR ''/'' # r"] by (simp add: clean_segment_def)
  qed simp
  have "ys = xs @ split_on CHR ''/'' r" using split_join[OF assms(2) \<open>ys \<noteq> []\<close>] tail r by simp
  then show "\<exists>z zs. ys = xs @ z # zs" by (cases "split_on CHR ''/'' r") auto
next
  assume "\<exists>z zs. ys = xs @ z # zs"
  then obtain z zs where "ys = xs @ z # zs" by blast
  then show "prefix (path_text xs @ ''/'') (path_text ys)"
    using join_append[of xs "z # zs" "''/''"] assms(3) by (simp add: path_text_def)
qed

lemma shared_root_segments: "path_segments (shared_root dir) = path_segments (node_dirname dir) @ [''shared'']"
proof -
  have "path_segments (node_dirname dir @ ''/'' @ ''shared'') = path_segments (node_dirname dir) @ [''shared'']"
    by (simp add: path_segments_def split_on_append_dot push_segment_def)
  moreover have "\<not> prefix ''/'' ''shared''" by simp
  ultimately show ?thesis
    using segments_of_text[OF path_segments_clean[of "node_dirname dir @ ''/'' @ ''shared''"]]
    by (simp add: shared_root_def node_resolve_def)
qed

lemma resolved_text: "node_resolve base rel = path_text (path_segments (node_resolve base rel))"
  by (simp add: node_resolve_def segments_of_text path_segments_clean)

lemma inside_shared_segments:
  "inside_shared dir rel \<longleftrightarrow>
   (\<exists>rest. path_segments (node_resolve (shared_root dir) rel) = path_segments (node_dirname dir) @ ''shared'' # rest)"
proof -
  let ?r = "path_segments (shared_root dir)" and ?f = "path_segments (node_resolve (shared_root dir) rel)"
  have root: "shared_root dir = path_text ?r" unfolding shared_root_def by (rule resolved_text)
  have "node_resolve (shared_root dir) rel = shared_root dir \<longleftrightarrow> ?f = ?r"
    using path_text_inj[OF path_segments_clean path_segments_clean] root resolved_text by metis
  moreover have "prefix (shared_root dir @ ''/'') (node_resolve (shared_root dir) rel) \<longleftrightarrow> (\<exists>z zs. ?f = ?r @ z # zs)"
  proof -
    have "prefix (path_text ?r @ ''/'') (path_text ?f) \<longleftrightarrow> (\<exists>z zs. ?f = ?r @ z # zs)"
      by (rule prefix_path_text[OF path_segments_clean path_segments_clean]) (simp add: shared_root_segments)
    then show ?thesis using root resolved_text by metis
  qed
  ultimately have "inside_shared dir rel \<longleftrightarrow> (\<exists>rest. ?f = ?r @ rest)"
    unfolding inside_shared_def Let_def by (metis append_Nil2 list.exhaust)
  then show ?thesis by (simp add: shared_root_segments)
qed

text \<open>C39: A shared document is read only from a file below the directory \<open>shared\<close> beside the agent's
  own: whatever the template names, dots and absolute paths included, the path read has no dots left
  and continues that directory segment by segment, so a sibling whose name begins like it is refused too.\<close>

theorem shared_docs_confined:
  assumes "read_shared_doc rd dir rel = Inr content"
  shows "\<exists>rest. rd (path_text (path_segments (node_dirname dir) @ ''shared'' # rest)) = Inr content \<and>
    list_all clean_segment (path_segments (node_dirname dir) @ ''shared'' # rest)"
proof -
  let ?f = "path_segments (node_resolve (shared_root dir) rel)"
  have ok: "inside_shared dir rel" and rd: "rd (node_resolve (shared_root dir) rel) = Inr content"
    using assms by (auto simp: read_shared_doc_def split: if_splits)
  obtain rest where "?f = path_segments (node_dirname dir) @ ''shared'' # rest"
    using ok inside_shared_segments by blast
  then show ?thesis using rd path_segments_clean[of "node_resolve (shared_root dir) rel"] resolved_text by metis
qed

theorem shared_docs_confined_witness:
  "\<exists>rest. (\<lambda>p. if p = ''/w/shared/a.md'' then Inr ''A'' else Inl p) (path_text (path_segments (node_dirname ''/w/patch'') @ ''shared'' # rest)) =
      (Inr ''A'' :: string + string) \<and> list_all clean_segment (path_segments (node_dirname ''/w/patch'') @ ''shared'' # rest)"
  by (rule shared_docs_confined[where dir = "''/w/patch''" and rel = "''b/../a.md''"]) code_simp

lemma plain_path_segments:
  "\<forall>s\<in>set xs. s \<noteq> ''..'' \<Longrightarrow> fold push_segment xs acc = acc @ filter (\<lambda>s. s \<noteq> [] \<and> s \<noteq> ''.'') xs"
  by (induction xs arbitrary: acc) (auto simp: push_segment_def)

text \<open>A relative path without two dots is never refused.\<close>

lemma plain_shared_accepted:
  assumes "\<not> prefix ''/'' rel" and "''..'' \<notin> set (split_on CHR ''/'' rel)"
  shows "inside_shared dir rel"
proof -
  have "path_segments (shared_root dir @ ''/'' @ rel) =
      path_segments (shared_root dir) @ filter (\<lambda>s. s \<noteq> [] \<and> s \<noteq> ''.'') (split_on CHR ''/'' rel)"
  proof -
    have "\<forall>s\<in>set (split_on CHR ''/'' rel). s \<noteq> ''..''" using assms(2) by auto
    then show ?thesis
      by (simp add: path_segments_def split_on_append_dot plain_path_segments)
  qed
  then have "path_segments (node_resolve (shared_root dir) rel) =
      path_segments (node_dirname dir) @ ''shared'' # filter (\<lambda>s. s \<noteq> [] \<and> s \<noteq> ''.'') (split_on CHR ''/'' rel)"
    using assms(1) segments_of_text[OF path_segments_clean[of "shared_root dir @ ''/'' @ rel"]]
    by (simp add: node_resolve_def shared_root_segments)
  then show ?thesis unfolding inside_shared_segments by blast
qed

text \<open>The agent's own documents are not confined.\<close>

lemma agent_docs_unconfined: "read_agent_doc rd ''/w/patch'' ''../../etc/passwd'' = rd ''/etc/passwd''"
proof -
  have "node_join ''/w/patch'' ''../../etc/passwd'' = ''/etc/passwd''" by code_simp
  then show ?thesis by (simp add: read_agent_doc_def)
qed

section \<open>System tags\<close>

text \<open>A template as its texts and the system tags between them.\<close>

definition template_of :: "string \<Rightarrow> (doc_source \<times> string \<times> string) list \<Rightarrow> string" where
  "template_of t xs = t @ concat (map (\<lambda>(s, p, u). spell_tag (system_tag s) p @ u) xs)"

definition texts_of :: "string \<Rightarrow> (doc_source \<times> string \<times> string) list \<Rightarrow> string" where
  "texts_of t xs = t @ concat (map (\<lambda>(s, p, u). u) xs)"

definition plain_path :: "string \<Rightarrow> bool" where
  "plain_path p \<longleftrightarrow> p \<noteq> [] \<and> CHR ''{'' \<notin> set p \<and> CHR ''}'' \<notin> set p"

definition system_opening :: string where "system_opening = ''{{system-''"

fun marks :: "nat \<Rightarrow> string \<Rightarrow> (doc_source \<times> string \<times> string) list \<Rightarrow> tag_match list" where
  "marks i t [] = []"
| "marks i t ((s, p, u) # xs) =
     \<lparr>tm_index = i + length t, tm_source = s, tm_text = spell_tag (system_tag s) p, tm_path = trim p\<rparr>
     # marks (i + length t + length (spell_tag (system_tag s) p)) u xs"

lemma template_of_Cons [simp]: "template_of t ((s, p, u) # xs) = t @ spell_tag (system_tag s) p @ template_of u xs"
  by (simp add: template_of_def)

lemma texts_of_Cons [simp]: "texts_of t ((s, p, u) # xs) = t @ texts_of u xs"
  by (simp add: texts_of_def)

lemma template_of_Nil [simp]: "template_of t [] = t" "texts_of t [] = t"
  by (simp_all add: template_of_def texts_of_def)

lemma system_tag_opening: "\<exists>z. system_tag s = system_opening @ z"
  by (cases s) (simp_all add: system_opening_def)

lemma prefix_sublist: "prefix w v \<Longrightarrow> sublist w (u @ v)"
  by (auto simp: prefix_def sublist_def)

text \<open>No end of the opening is a beginning of it, so it cannot start in a text without it and reach
  into the tag that follows.\<close>

lemma opening_unbordered:
  assumes "x \<noteq> []" and "length x < 9" and "prefix system_opening (x @ system_opening @ r)"
  shows False
proof -
  have len: "length system_opening = 9" by (simp add: system_opening_def)
  obtain z where "x @ system_opening @ r = system_opening @ z" using assms(3) by (auto simp: prefix_def)
  then have "take 9 (x @ system_opening @ r) = take 9 (system_opening @ z)" by simp
  then have eq: "take 9 (x @ system_opening @ r) = system_opening" using len by simp
  have "x @ take (9 - length x) system_opening = system_opening"
    using eq assms(2) len by simp
  then have "take (9 - length x) system_opening = drop (length x) system_opening"
    by (metis append_eq_conv_conj)
  moreover have "length x = 1 \<or> length x = 2 \<or> length x = 3 \<or> length x = 4 \<or> length x = 5 \<or> length x = 6 \<or> length x = 7 \<or> length x = 8"
    using assms(2) length_greater_0_conv[of x] assms(1) by linarith
  ultimately show False by (auto simp: system_opening_def)
qed

lemma no_early_opening:
  assumes "\<not> sublist system_opening u" and "k < length u" and "v = [] \<or> (\<exists>z. v = system_opening @ z)"
  shows "\<not> prefix system_opening (drop k u @ v)"
proof
  assume p: "prefix system_opening (drop k u @ v)"
  have not_in: "\<not> prefix system_opening (drop k u)"
    using assms(1) prefix_sublist[of system_opening "drop k u" "take k u"] by auto
  have len: "length system_opening = 9" by (simp add: system_opening_def)
  have short: "length (drop k u) < 9"
  proof (rule ccontr)
    assume "\<not> length (drop k u) < 9"
    then have "prefix system_opening (drop k u)"
      using p len prefix_length_prefix[OF p, of "drop k u"] by simp
    then show False using not_in by blast
  qed
  show False
  proof (cases "v = []")
    case True
    then show ?thesis using p not_in by simp
  next
    case False
    then obtain z where "v = system_opening @ z" using assms(3) by blast
    then show ?thesis using opening_unbordered[OF _ short, of z] p assms(2) by auto
  qed
qed

lemma template_start: "template_of t xs = t @ (if xs = [] then [] else template_of [] xs)"
  by (cases xs) (auto simp: template_of_def)

lemma tag_at_opening: "tag_at (system_tag s) v \<noteq> None \<Longrightarrow> prefix system_opening v"
  using system_tag_opening[of s] by (auto simp: tag_at_def prefix_def split: if_splits)

lemma match_all_skip:
  "\<forall>k<length u. tag_at opening (drop k u @ r) = None \<Longrightarrow>
   match_all opening src i (u @ r) = match_all opening src (i + length u) r"
proof (induction u arbitrary: i)
  case (Cons c u)
  have "tag_at opening (c # u @ r) = None" using Cons.prems by (metis append_Cons drop_0 length_greater_0_conv list.distinct(1))
  moreover have "\<forall>k<length u. tag_at opening (drop k u @ r) = None" using Cons.prems by (metis Suc_less_eq drop_Suc_Cons length_Cons)
  ultimately show ?case using Cons.IH[of "Suc i"] by simp
qed simp

lemma tag_at_spelled:
  assumes "plain_path p"
  shows "tag_at (system_tag s) (spell_tag (system_tag s') p @ r) = (if s = s' then Some (p, r) else None)"
proof -
  have "takeWhile (\<lambda>c. c \<noteq> CHR ''}'') (p @ CHR ''}'' # CHR ''}'' # r) = p"
    using assms by (subst takeWhile_append2) (auto simp: plain_path_def)
  then show ?thesis
    using assms by (cases s; cases s') (simp_all add: tag_at_def spell_tag_def Let_def plain_path_def)
qed

lemma match_all_tag:
  assumes "plain_path p"
  shows "match_all (system_tag s) s i (spell_tag (system_tag s') p @ r) =
    (if s = s' then [\<lparr>tm_index = i, tm_source = s, tm_text = spell_tag (system_tag s) p, tm_path = trim p\<rparr>] else [])
    @ match_all (system_tag s) s (i + length (spell_tag (system_tag s') p)) r"
proof (cases "s = s'")
  case True
  obtain c cs where c: "spell_tag (system_tag s') p @ r = c # cs" by (cases s') (auto simp: spell_tag_def)
  have "tag_at (system_tag s) (c # cs) = Some (p, r)" using tag_at_spelled[OF assms] True c by metis
  moreover have "length (c # cs) - length r = length (spell_tag (system_tag s') p)"
    unfolding c[symmetric] by simp
  ultimately show ?thesis using True unfolding c by simp
next
  case False
  let ?u = "spell_tag (system_tag s') p"
  have "tag_at (system_tag s) (drop k ?u @ r) = None" if k: "k < length ?u" for k
  proof (rule ccontr)
    assume some: "tag_at (system_tag s) (drop k ?u @ r) \<noteq> None"
    then have pre: "prefix system_opening (drop k ?u @ r)" by (rule tag_at_opening)
    have "k \<noteq> 0"
    proof
      assume "k = 0"
      then show False using some tag_at_spelled[OF assms, of s s' r] False by simp
    qed
    then obtain j where j: "k = Suc j" by (cases k) auto
    obtain z where z: "?u = CHR ''{'' # CHR ''{'' # z" "CHR ''{'' \<notin> set z" "z \<noteq> []" "hd z = CHR ''s''"
      using assms by (cases s') (auto simp: spell_tag_def plain_path_def)
    show False
    proof (cases j)
      case 0
      then show ?thesis using pre j z by (cases z) (auto simp: system_opening_def)
    next
      case (Suc m)
      then obtain c cs where c: "drop m z = c # cs" using k j z by (cases "drop m z") auto
      then have "c \<in> set z" by (metis in_set_dropD list.set_intros(1))
      then have "c \<noteq> CHR ''{''" using z(2) by auto
      then show ?thesis using pre j z(1) Suc c by (simp add: system_opening_def)
    qed
  qed
  then show ?thesis using match_all_skip[of ?u "system_tag s" r s i] False by simp
qed

lemma match_all_text:
  assumes "\<not> sublist system_opening t" and "v = [] \<or> (\<exists>z. v = system_opening @ z)"
  shows "match_all (system_tag s) s i (t @ v) = match_all (system_tag s) s (i + length t) v"
  by (rule match_all_skip) (use no_early_opening[OF assms(1) _ assms(2)] tag_at_opening in blast)

lemma rest_opens: "xs = [] \<or> (\<exists>z. template_of [] xs = system_opening @ z)"
proof (cases xs)
  case (Cons x xs)
  obtain s p u where "x = (s, p, u)" by (cases x) auto
  then show ?thesis using Cons system_tag_opening[of s] by (auto simp: spell_tag_def)
qed simp

lemma match_all_template:
  assumes "\<forall>(s, p, u)\<in>set xs. plain_path p" and "\<not> sublist system_opening (texts_of t xs)"
  shows "match_all (system_tag s) s i (template_of t xs) = filter (\<lambda>m. tm_source m = s) (marks i t xs)"
  using assms
proof (induction xs arbitrary: i t)
  case Nil
  then show ?case using match_all_text[of t "[]" s i] by simp
next
  case (Cons x xs)
  obtain s' p u where x: "x = (s', p, u)" by (cases x) auto
  have free: "\<not> sublist system_opening t" "\<not> sublist system_opening (texts_of u xs)"
    using Cons.prems(2) x by (auto simp: sublist_append)
  have opens: "\<exists>z. spell_tag (system_tag s') p @ template_of u xs = system_opening @ z"
    using system_tag_opening[of s'] by (auto simp: spell_tag_def)
  have "match_all (system_tag s) s i (template_of t (x # xs)) =
      match_all (system_tag s) s (i + length t) (spell_tag (system_tag s') p @ template_of u xs)"
    using match_all_text[OF free(1)] opens x by simp
  then show ?case
    using Cons.IH[OF _ free(2)] Cons.prems(1) match_all_tag[of p s "i + length t" s' "template_of u xs"] x by simp
qed

lemma marks_above: "m \<in> set (marks i t xs) \<Longrightarrow> i + length t \<le> tm_index m"
  by (induction i t xs rule: marks.induct) auto

lemma marks_distinct_index: "distinct (map tm_index (marks i t xs)) \<and> sorted (map tm_index (marks i t xs))"
proof (induction i t xs rule: marks.induct)
  case (2 i t s p u xs)
  have "0 < length (spell_tag (system_tag s) p)" by (simp add: spell_tag_def)
  then have "i + length t < tm_index m" if "m \<in> set (marks (i + length t + length (spell_tag (system_tag s) p)) u xs)" for m
    using marks_above[OF that] by linarith
  then show ?case using 2 by (fastforce simp: less_imp_le)
qed simp

lemma marks_in_order:
  "sort_key tm_index (filter (\<lambda>m. tm_source m = Agent_doc) (marks i t xs) @ filter (\<lambda>m. tm_source m = Shared_doc) (marks i t xs))
   = marks i t xs"
proof -
  let ?m = "marks i t xs"
  have "filter (\<lambda>m. tm_source m = Shared_doc) ?m = filter (\<lambda>m. tm_source m \<noteq> Agent_doc) ?m"
    by (rule filter_cong[OF refl]) (metis doc_source.exhaust doc_source.distinct(1))
  then have same: "mset (filter (\<lambda>m. tm_source m = Agent_doc) ?m @ filter (\<lambda>m. tm_source m = Shared_doc) ?m) = mset ?m"
    by (simp add: multiset_partition[symmetric])
  have "inj_on tm_index (set (filter (\<lambda>m. tm_source m = Agent_doc) ?m @ filter (\<lambda>m. tm_source m = Shared_doc) ?m))"
    by (rule inj_on_subset[of _ "set ?m"]) (use marks_distinct_index in \<open>auto simp: distinct_map\<close>)
  from sort_key_inj_key_eq[OF same this] marks_distinct_index show ?thesis by blast
qed

lemma first_occurrence_at:
  "\<forall>k<length u. \<not> prefix pat (drop k u @ pat @ r) \<Longrightarrow> first_occurrence pat (u @ pat @ r) = Some (length u)"
proof (induction u)
  case Nil
  have "prefix pat (pat @ r)" by simp
  then show ?case by (cases "pat @ r") (simp_all del: prefix_append)
next
  case (Cons c u)
  have "\<not> prefix pat (c # u @ pat @ r)" using Cons.prems by (metis append_Cons drop_0 length_greater_0_conv list.distinct(1))
  moreover have "\<forall>k<length u. \<not> prefix pat (drop k u @ pat @ r)" using Cons.prems by (metis Suc_less_eq drop_Suc_Cons length_Cons)
  ultimately show ?case using Cons.IH by simp
qed

lemma cut_tag:
  assumes "\<not> sublist system_opening u"
  shows "js_replace (spell_tag (system_tag s) p) [] (u @ spell_tag (system_tag s) p @ r) = u @ r"
proof -
  let ?pat = "spell_tag (system_tag s) p"
  obtain z where z: "?pat = system_opening @ z" using system_tag_opening[of s] by (auto simp: spell_tag_def)
  have "\<not> prefix ?pat (drop k u @ ?pat @ r)" if "k < length u" for k
    using no_early_opening[OF assms that, of "?pat @ r"] z by (auto simp: prefix_def)
  then have "first_occurrence ?pat (u @ ?pat @ r) = Some (length u)" by (intro first_occurrence_at) blast
  then show ?thesis by (simp add: js_replace_def)
qed

lemma cut_tags:
  "\<not> sublist system_opening (a @ texts_of t xs) \<Longrightarrow>
   fold (\<lambda>m body. js_replace (tm_text m) [] body) (marks i t xs) (a @ template_of t xs) = a @ texts_of t xs"
proof (induction xs arbitrary: a i t)
  case (Cons x xs)
  obtain s p u where x: "x = (s, p, u)" by (cases x) auto
  have "\<not> sublist system_opening (a @ t)"
    using Cons.prems x by (auto simp: sublist_append) (metis append.assoc sublist_append)
  then show ?case
    using cut_tag[of "a @ t" s p "template_of u xs"] Cons.IH[of "a @ t" u] Cons.prems x by simp
qed simp

text \<open>The documents a list of tags names, in its order.\<close>

definition read_tags :: "reader \<Rightarrow> string \<Rightarrow> (doc_source \<times> string \<times> string) list \<Rightarrow> string + string list" where
  "read_tags rd dir xs = read_docs rd dir (marks 0 [] xs)"

lemma read_docs_marks: "read_docs rd dir (marks i t xs) = read_docs rd dir (marks j v xs)"
proof (induction xs arbitrary: i t j v)
  case (Cons x xs)
  obtain s p u where x: "x = (s, p, u)" by (cases x) auto
  show ?case
    unfolding x marks.simps read_docs.simps
    by (subst Cons.IH[of _ u "j + length v + length (spell_tag (system_tag s) p)" u]) (cases s; simp add: read_doc_def)
qed simp

text \<open>C26: System tags are cut out of a template and nothing else is, and their documents, agent and shared
  ones mixed, make up the system prompt in the order of their tags, so that the same tags give the
  same prefix: for any texts that do not themselves spell the opening of a system tag.\<close>

theorem system_tags_cut:
  assumes "\<forall>(s, p, u)\<in>set xs. plain_path p" and "\<not> sublist system_opening (texts_of t xs)"
  shows "extract_system_tags rd dir (template_of t xs) =
    and_then (read_tags rd dir xs) (\<lambda>contents. Inr (texts_of t xs, join [CHR 0x0A, CHR 0x0A] contents))"
proof -
  have m: "match_all (system_tag s) s 0 (template_of t xs) = filter (\<lambda>m. tm_source m = s) (marks 0 t xs)" for s
    by (rule match_all_template[OF assms])
  have cut: "fold (\<lambda>m body. js_replace (tm_text m) [] body) (marks 0 t xs) (template_of t xs) = texts_of t xs"
    using cut_tags[of "[]" t xs 0] assms(2) by simp
  have docs: "read_docs rd dir (marks 0 t xs) = read_tags rd dir xs" unfolding read_tags_def by (rule read_docs_marks)
  show ?thesis
  proof (cases "xs = []")
    case True
    then show ?thesis
      using m[of Agent_doc] m[of Shared_doc] by (simp add: extract_system_tags_def read_tags_def Let_def del: system_tag.simps)
  next
    case False
    then obtain mk mks where mk: "marks 0 t xs = mk # mks" by (cases xs) auto
    have "\<not> (filter (\<lambda>m. tm_source m = Agent_doc) (marks 0 t xs) = [] \<and>
        filter (\<lambda>m. tm_source m = Shared_doc) (marks 0 t xs) = [])"
      unfolding mk by (cases "tm_source mk") simp_all
    then show ?thesis unfolding extract_system_tags_def Let_def m marks_in_order cut docs by (simp only: if_False)
  qed
qed

theorem system_tags_cut_witness:
  "extract_system_tags (\<lambda>p. Inr p) ''/w/a'' ''x{{system-shared:s.md}}y{{system-doc: d.md }}z'' =
     Inr (''xyz'', ''/w/shared/s.md'' @ [CHR 0x0A, CHR 0x0A] @ ''/w/a/d.md'')"
proof -
  let ?xs = "[(Shared_doc, ''s.md'', ''y''), (Agent_doc, '' d.md '', ''z'')]"
  have t: "template_of ''x'' ?xs = ''x{{system-shared:s.md}}y{{system-doc: d.md }}z''" by code_simp
  have "\<forall>(s, p, u)\<in>set ?xs. plain_path p" by code_simp
  moreover have "\<not> sublist system_opening (texts_of ''x'' ?xs)" by code_simp
  ultimately have "extract_system_tags (\<lambda>p. Inr p) ''/w/a'' (template_of ''x'' ?xs) =
      and_then (read_tags (\<lambda>p. Inr p) ''/w/a'' ?xs) (\<lambda>contents. Inr (texts_of ''x'' ?xs, join [CHR 0x0A, CHR 0x0A] contents))"
    by (rule system_tags_cut)
  also have "\<dots> = Inr (''xyz'', ''/w/shared/s.md'' @ [CHR 0x0A, CHR 0x0A] @ ''/w/a/d.md'')" by code_simp
  finally show ?thesis by (simp only: t)
qed

text \<open>A document is inserted as a replacement pattern, not as it is: two dollar signs become one, and
  a dollar sign before an ampersand puts the tag itself back.\<close>

lemma document_dollars_expanded:
  "preprocess_doc_tags (\<lambda>p. Inr ''cost: $$5 $&'') ''/w/a'' ''{{doc:d}}!'' = Inr ''cost: $5 {{doc:d}}!''"
  by code_simp

text \<open>A document that quotes a later tag takes its replacement.\<close>

lemma quoted_tag_taken:
  "preprocess_doc_tags (\<lambda>p. if p = ''/w/a/one'' then Inr ''see {{doc:two}}'' else Inr ''TWO'') ''/w/a'' ''{{doc:one}} {{doc:two}}''
   = Inr ''see TWO {{doc:two}}''"
  by code_simp

lemma replace_without_dollar:
  "CHR ''$'' \<notin> set rep \<Longrightarrow> expand_dollars pat before after rep = rep"
  by (induction pat before after rep rule: expand_dollars.induct) auto

end
