(* ===== verification/StaticSchedules.thy ===== *)
theory StaticSchedules
  imports ScheduledTasks Routing "HOL-Library.Multiset" "HOL-Library.List_Lexorder"
begin

text \<open>
  The schedules an agent declares in its configuration: the content hash of a task
  (\<open>stableStringify\<close> and \<open>deriveConfigTaskId\<close> of \<open>types/scheduled-task.ts\<close>) and their registration at
  boot (\<open>services/scheduler.service.ts\<close>) over the registry of ScheduledTasks. The hash is a parameter,
  and so is the order of \<open>localeCompare\<close>, given by a key of each string.
\<close>

section \<open>Content hash\<close>

primrec sort_keys_deep :: "(string \<Rightarrow> 'c::linorder) \<Rightarrow> json \<Rightarrow> json" where
  "sort_keys_deep collate JNull = JNull"
| "sort_keys_deep collate (JBool b) = JBool b"
| "sort_keys_deep collate (JNum i) = JNum i"
| "sort_keys_deep collate (JStr s) = JStr s"
| "sort_keys_deep collate (JArr vs) = JArr (map (sort_keys_deep collate) vs)"
| "sort_keys_deep collate (JObj ps) = JObj (sort_key (\<lambda>p. collate (fst p)) (map (map_prod id (sort_keys_deep collate)) ps))"

definition stable_stringify :: "(string \<Rightarrow> 'c::linorder) \<Rightarrow> json \<Rightarrow> string" where
  "stable_stringify collate v = json_stringify (sort_keys_deep collate v)"

definition when_json :: "schedule_when \<Rightarrow> json" where
  "when_json w =
     (case w of
        Cron c tz \<Rightarrow> JObj ((''cron'', JStr c) # (case tz of Some z \<Rightarrow> [(''timezone'', JStr z)] | None \<Rightarrow> []))
      | Fire_at t \<Rightarrow> JObj [(''fireAt'', JNum t)])"

definition hash_material :: "string \<Rightarrow> string \<Rightarrow> schedule_when \<Rightarrow> string \<Rightarrow> json \<Rightarrow> json" where
  "hash_material agent name w runner config =
     JObj [(''agentId'', JStr agent), (''name'', JStr name), (''when'', when_json w), (''runner'', JStr runner),
       (''runnerConfig'', config)]"

definition derive_config_task_id ::
  "(string \<Rightarrow> string) \<Rightarrow> (string \<Rightarrow> 'c::linorder) \<Rightarrow> string \<Rightarrow> string \<Rightarrow> schedule_when \<Rightarrow> string \<Rightarrow> json \<Rightarrow> string" where
  "derive_config_task_id hash collate agent name w runner config =
     take 16 (hash (stable_stringify collate (hash_material agent name w runner config)))"

section \<open>Registration\<close>

definition strategy_text :: "work_directory_strategy \<Rightarrow> string" where
  "strategy_text s = (case s of Static_directory \<Rightarrow> ''static'' | Per_dispatch_directory \<Rightarrow> ''per-dispatch'')"

definition opt_member :: "string \<Rightarrow> ('a \<Rightarrow> json) \<Rightarrow> 'a option \<Rightarrow> props" where
  "opt_member k f v = (case v of Some x \<Rightarrow> [(k, f x)] | None \<Rightarrow> [])"

definition runner_config_json :: "runner_config \<Rightarrow> json" where
  "runner_config_json c =
     JObj ((''type'', JStr (config_type c)) #
       (case c of
          Openclaw_config \<Rightarrow> []
        | Claude_cli_config d b p s \<Rightarrow> opt_member ''workDirectory'' JStr d @ opt_member ''binary'' JStr b
            @ opt_member ''systemPrompt'' JStr p @ opt_member ''workDirectoryStrategy'' (\<lambda>x. JStr (strategy_text x)) s
        | Openai_config m k u \<Rightarrow> [(''model'', JStr m), (''apiKey'', JStr k)] @ opt_member ''baseUrl'' JStr u
        | Bedrock_config m r \<Rightarrow> [(''modelId'', JStr m), (''region'', JStr r)]
        | Shell_config cmd d e t \<Rightarrow> [(''command'', JStr cmd)] @ opt_member ''cwd'' JStr d
            @ opt_member ''env'' (\<lambda>m. JObj (map (map_prod id JStr) m)) e @ [(''timeoutMs'', JNum (int t))]))"

record registered_schedule =
  rg_agent :: string
  rg_rule :: string
  rg_cron :: string
  rg_timezone :: "string option"
  rg_scheduler_id :: string
  rg_task_id :: string

datatype schedule_error = Rule_malformed string | Upsert_failed sched_error

definition build_when :: "string \<Rightarrow> string option \<Rightarrow> schedule_when" where
  "build_when c tz = Cron c (case tz of Some (z # zs) \<Rightarrow> Some (z # zs) | _ \<Rightarrow> None)"

definition resolve_runner_config :: "runner_config option \<Rightarrow> agent \<Rightarrow> runner_config" where
  "resolve_runner_config r a =
     (case r of Some c \<Rightarrow> c | None \<Rightarrow> Claude_cli_config (Some (agent_dir a)) None None None)"

definition falsy_text :: "string option \<Rightarrow> bool" where
  "falsy_text s \<longleftrightarrow> s = None \<or> s = Some []"

definition is_shell :: "runner_config option \<Rightarrow> bool" where
  "is_shell r \<longleftrightarrow> map_option config_type r = Some ''shell''"

definition double_quoted :: "string \<Rightarrow> string" where
  "double_quoted s = CHR 0x22 # s @ [CHR 0x22]"

definition schedule_rule_error :: "agent \<Rightarrow> agent_rule \<Rightarrow> string option" where
  "schedule_rule_error a r =
     (if falsy_text (rule_name r)
      then Some (''Agent '' @ double_quoted (agent_name a) @ '' has a routing.schedule rule without a '' @ double_quoted ''name'' @ '' field'')
      else if falsy_text (rule_cron r)
      then Some (''Agent '' @ double_quoted (agent_name a) @ '' routing.schedule rule '' @ double_quoted (the (rule_name r)) @
             '' is missing a '' @ double_quoted ''cron'' @ '' field.'')
      else if falsy_text (rule_template r) \<and> \<not> is_shell (rule_runner r)
      then Some (''Agent '' @ double_quoted (agent_name a) @ '' routing.schedule rule '' @ double_quoted (the (rule_name r)) @
             '' is missing a '' @ double_quoted ''messageTemplate'' @ '' field.'')
      else None)"

text \<open>The rule's task: id, fields and what it is registered as; used when the rule has a name and a cron.\<close>

definition rule_when :: "agent_rule \<Rightarrow> schedule_when" where
  "rule_when r = build_when (the (rule_cron r)) (rule_timezone r)"

definition rule_task_id :: "(string \<Rightarrow> string) \<Rightarrow> (string \<Rightarrow> 'c::linorder) \<Rightarrow> agent \<Rightarrow> agent_rule \<Rightarrow> string" where
  "rule_task_id hash collate a r =
     (let c = resolve_runner_config (rule_runner r) a in
      derive_config_task_id hash collate (agent_name a) (the (rule_name r)) (rule_when r) (config_type c) (runner_config_json c))"

definition schedule_input :: "(string \<Rightarrow> string) \<Rightarrow> (string \<Rightarrow> 'c::linorder) \<Rightarrow> agent \<Rightarrow> agent_rule \<Rightarrow> create_input" where
  "schedule_input hash collate a r =
     (let c = resolve_runner_config (rule_runner r) a in
      \<lparr>ci_id = Some (rule_task_id hash collate a r), ci_agent = agent_name a, ci_name = rule_name r, ci_when = rule_when r,
       ci_runner = config_type c, ci_config = runner_config_json c,
       ci_payload = Some (JObj (case rule_context r of Some ps \<Rightarrow> ps | None \<Rightarrow> [])),
       ci_created_by = By_config, ci_trace = None, ci_ttl = None, ci_max_runs = None, ci_event_trace = None,
       ci_reason = Some Config_load\<rparr>)"

definition legacy_removal :: "agent \<Rightarrow> agent_rule \<Rightarrow> bull_command" where
  "legacy_removal a r = Remove_job_scheduler (agent_name a) (''schedule:'' @ agent_name a @ '':'' @ the (rule_name r))"

definition registered_of :: "(string \<Rightarrow> string) \<Rightarrow> (string \<Rightarrow> 'c::linorder) \<Rightarrow> agent \<Rightarrow> agent_rule \<Rightarrow> registered_schedule" where
  "registered_of hash collate a r =
     \<lparr>rg_agent = agent_name a, rg_rule = the (rule_name r), rg_cron = the (rule_cron r), rg_timezone = rule_timezone r,
      rg_scheduler_id = ''scheduled-task-'' @ rule_task_id hash collate a r, rg_task_id = rule_task_id hash collate a r\<rparr>"

definition register_rule ::
  "sched_env \<Rightarrow> (string \<Rightarrow> string) \<Rightarrow> (string \<Rightarrow> 'c::linorder) \<Rightarrow> millis \<Rightarrow> agent \<times> agent_rule \<Rightarrow> sched_state \<Rightarrow>
   (schedule_error + registered_schedule) \<times> sched_state" where
  "register_rule env hash collate now ar s =
     (case ar of (a, r) \<Rightarrow>
        (case schedule_rule_error a r of
           Some e \<Rightarrow> (Inl (Rule_malformed e), s)
         | None \<Rightarrow>
             (case upsert env (schedule_input hash collate a r) [] now (s\<lparr>ss_bull := ss_bull s @ [legacy_removal a r]\<rparr>) of
                (Inl e, s') \<Rightarrow> (Inl (Upsert_failed e), s')
              | (Inr t, s') \<Rightarrow> (Inr (registered_of hash collate a r), s'))))"

text \<open>The rules of all agents in order; the first problem ends the registration. \<open>clock n\<close> is the time of
  the n-th upsert.\<close>

fun register_rules ::
  "sched_env \<Rightarrow> (string \<Rightarrow> string) \<Rightarrow> (string \<Rightarrow> 'c::linorder) \<Rightarrow> (nat \<Rightarrow> millis) \<Rightarrow> nat \<Rightarrow> (agent \<times> agent_rule) list \<Rightarrow>
   sched_state \<Rightarrow> (schedule_error + registered_schedule list) \<times> sched_state" where
  "register_rules env hash collate clock n [] s = (Inr [], s)"
| "register_rules env hash collate clock n (ar # ars) s =
     (case register_rule env hash collate (clock n) ar s of
        (Inl e, s') \<Rightarrow> (Inl e, s')
      | (Inr g, s') \<Rightarrow>
          (case register_rules env hash collate clock (Suc n) ars s' of
             (Inl e, s'') \<Rightarrow> (Inl e, s'')
           | (Inr gs, s'') \<Rightarrow> (Inr (g # gs), s'')))"

definition schedule_rules :: "agent list \<Rightarrow> (agent \<times> agent_rule) list" where
  "schedule_rules agents =
     concat (map (\<lambda>a. map (Pair a) (case map_of (agent_routing a) ''schedule'' of Some rs \<Rightarrow> rs | None \<Rightarrow> [])) agents)"

definition register_agent_schedules ::
  "sched_env \<Rightarrow> (string \<Rightarrow> string) \<Rightarrow> (string \<Rightarrow> 'c::linorder) \<Rightarrow> (nat \<Rightarrow> millis) \<Rightarrow> agent list \<Rightarrow> sched_state \<Rightarrow>
   (schedule_error + registered_schedule list) \<times> sched_state" where
  "register_agent_schedules env hash collate clock agents s =
     (case register_rules env hash collate clock 0 (schedule_rules agents) s of
        (Inl e, s') \<Rightarrow> (Inl e, s')
      | (Inr gs, s') \<Rightarrow> (Inr gs, snd (reconcile_config (set (map rg_task_id gs)) (clock (length gs)) s')))"

section \<open>The order of keys does not matter\<close>

text \<open>The same value up to the order of object members, at every depth.\<close>

inductive reordered :: "json \<Rightarrow> json \<Rightarrow> bool" where
  same: "reordered v v"
| items: "list_all2 reordered vs ws \<Longrightarrow> reordered (JArr vs) (JArr ws)"
| members: "list_all2 (\<lambda>p q. fst p = fst q \<and> reordered (snd p) (snd q)) ps qs' \<Longrightarrow> mset qs' = mset qs \<Longrightarrow>
    reordered (JObj ps) (JObj qs)"

lemma wf_sorted: "wf_json (sort_keys_deep collate v) = wf_json v"
proof (induction v)
  case (JArr vs)
  then show ?case by (simp add: list_all_iff)
next
  case (JObj ps)
  have keys: "map fst (map (map_prod id (sort_keys_deep collate)) ps) = map fst ps" by (induction ps) auto
  let ?qs = "map (map_prod id (sort_keys_deep collate)) ps"
  have "distinct (map fst (sort_key (\<lambda>p. collate (fst p)) ?qs)) = distinct (map fst ps)"
    using keys by (metis mset_eq_imp_distinct_iff mset_map mset_sort)
  moreover have "list_all (\<lambda>p. wf_json (snd p)) (sort_key (\<lambda>p. collate (fst p)) ?qs) \<longleftrightarrow> list_all (\<lambda>p. wf_json (snd p)) ps"
  proof -
    have "wf_json (sort_keys_deep collate (snd p)) = wf_json (snd p)" if "p \<in> set ps" for p
      using JObj that by (metis snds.intros prod.collapse)
    then show ?thesis by (auto simp: list_all_iff)
  qed
  ultimately show ?case by simp
qed simp_all

lemma reordered_sorts_alike:
  assumes "inj collate"
  shows "reordered v w \<Longrightarrow> wf_json w \<Longrightarrow> sort_keys_deep collate v = sort_keys_deep collate w"
proof (induction rule: reordered.induct)
  case (items vs ws)
  then have "map (sort_keys_deep collate) vs = map (sort_keys_deep collate) ws"
    by (induction rule: list_all2_induct) auto
  then show ?case by simp
next
  case (members ps qs' qs)
  let ?f = "map_prod id (sort_keys_deep collate)"
  have wf: "list_all (\<lambda>p. wf_json (snd p)) qs'"
    using members.prems mset_eq_setD[OF members.hyps] by (simp add: list_all_iff)
  have "mset (map fst qs') = mset (map fst qs)" using members.hyps by simp
  then have dist: "distinct (map fst qs')" using members.prems mset_eq_imp_distinct_iff[of "map fst qs'" "map fst qs"] by simp
  have "map ?f ps = map ?f qs'" using members.IH wf
    by (induction rule: list_all2_induct) (auto simp: map_prod_def split_beta)
  moreover have "sort_key (\<lambda>p. collate (fst p)) (map ?f qs') = sort_key (\<lambda>p. collate (fst p)) (map ?f qs)"
  proof (rule sort_key_inj_key_eq)
    show "mset (map ?f qs') = mset (sort_key (\<lambda>p. collate (fst p)) (map ?f qs))" using members.hyps by simp
    have "inj_on fst (set (map ?f qs'))"
    proof -
      have "map fst (map ?f qs') = map fst qs'" by (induction qs') auto
      then show ?thesis using dist by (metis distinct_map)
    qed
    then show "inj_on (\<lambda>p. collate (fst p)) (set (map ?f qs'))"
      using assms unfolding inj_on_def inj_def by blast
  qed simp
  ultimately show ?case by simp
qed simp

lemma mset_map_split:
  "mset (map f ps) = mset (map f qs) \<Longrightarrow> \<exists>qs'. mset qs' = mset qs \<and> map f ps = map f qs'"
proof (induction ps arbitrary: qs)
  case (Cons p ps)
  have "f p \<in> set (map f qs)" using Cons.prems by (metis list.set_intros(1) list.simps(9) mset_eq_setD)
  then obtain q where q: "q \<in> set qs" "f q = f p" by auto
  then have qs: "mset qs = add_mset q (mset (remove1 q qs))" by simp
  have "mset (map f qs) = add_mset (f q) (mset (map f (remove1 q qs)))"
    using arg_cong[OF qs, of "image_mset f"] by (simp del: mset_remove1)
  then have "mset (map f ps) = mset (map f (remove1 q qs))" using Cons.prems q(2) by (simp del: mset_remove1)
  then obtain qs' where qs': "mset qs' = mset (remove1 q qs)" "map f ps = map f qs'" using Cons.IH by blast
  have "mset (q # qs') = mset qs" using qs qs'(1) by (simp only: mset.simps)
  moreover have "map f (p # ps) = map f (q # qs')" using q(2) qs'(2) by (simp only: list.map)
  ultimately show ?case by blast
qed simp

lemma sorted_arr: "JArr xs = sort_keys_deep collate w \<Longrightarrow> \<exists>ws. w = JArr ws \<and> xs = map (sort_keys_deep collate) ws"
  by (cases w) simp_all

lemma sorted_obj:
  "JObj xs = sort_keys_deep collate w \<Longrightarrow>
   \<exists>qs. w = JObj qs \<and> xs = sort_key (\<lambda>p. collate (fst p)) (map (map_prod id (sort_keys_deep collate)) qs)"
  by (cases w) simp_all

lemma sorts_alike_reordered: "sort_keys_deep collate v = sort_keys_deep collate w \<Longrightarrow> reordered v w"
proof (induction v arbitrary: w)
  case (JArr vs)
  obtain ws where w: "w = JArr ws" "map (sort_keys_deep collate) vs = map (sort_keys_deep collate) ws"
    using JArr.prems sorted_arr by (metis sort_keys_deep.simps(5))
  have "list_all2 reordered vs ws"
    using w(2) JArr.IH by (metis (no_types, lifting) length_map list_all2_conv_all_nth nth_map nth_mem)
  then show ?case using w(1) by (simp add: reordered.items)
next
  case (JObj ps)
  let ?f = "map_prod id (sort_keys_deep collate)"
  obtain qs where w: "w = JObj qs" and eq: "sort_key (\<lambda>p. collate (fst p)) (map ?f ps) = sort_key (\<lambda>p. collate (fst p)) (map ?f qs)"
    using JObj.prems sorted_obj by (metis sort_keys_deep.simps(6))
  then have "mset (map ?f ps) = mset (map ?f qs)" by (metis mset_sort)
  then obtain qs' where qs': "mset qs' = mset qs" "map ?f ps = map ?f qs'" using mset_map_split by blast
  have len: "length ps = length qs'" using qs'(2) by (metis length_map)
  have "fst (ps ! i) = fst (qs' ! i) \<and> reordered (snd (ps ! i)) (snd (qs' ! i))" if i: "i < length ps" for i
  proof -
    have "?f (ps ! i) = ?f (qs' ! i)" using qs'(2) i len by (metis nth_map)
    then have "fst (ps ! i) = fst (qs' ! i)" "sort_keys_deep collate (snd (ps ! i)) = sort_keys_deep collate (snd (qs' ! i))"
      by (metis fst_map_prod id_apply, metis snd_map_prod)
    then show ?thesis using JObj.IH i by (metis nth_mem prod.collapse snds.intros)
  qed
  then have "list_all2 (\<lambda>p q. fst p = fst q \<and> reordered (snd p) (snd q)) ps qs'"
    using len by (simp add: list_all2_conv_all_nth)
  then show ?case using w qs'(1) by (simp add: reordered.members)
next
  case (JStr s)
  then show ?case by (cases w) (auto intro: reordered.same)
next
  case (JNum i)
  then show ?case by (cases w) (auto intro: reordered.same)
next
  case (JBool b)
  then show ?case by (cases w) (auto intro: reordered.same)
next
  case JNull
  then show ?case by (cases w) (auto intro: reordered.same)
qed


text \<open>The order of character codes stands for the collation in examples.\<close>

definition code_order :: "string \<Rightarrow> nat list" where
  "code_order s = map of_char s"

lemma inj_code_order: "inj code_order"
  by (auto simp: inj_def code_order_def)


section \<open>Reloading the configuration\<close>

text \<open>The owner a rule's id has in the registry.\<close>

definition rules_owned ::
  "(string \<Rightarrow> string \<times> created_by \<times> string option) \<Rightarrow> (string \<Rightarrow> string) \<Rightarrow> (string \<Rightarrow> 'c::linorder) \<Rightarrow> (agent \<times> agent_rule) list \<Rightarrow> bool" where
  "rules_owned own hash collate ars \<longleftrightarrow>
     list_all (\<lambda>(a, r). own (rule_task_id hash collate a r) = (agent_name a, By_config, None)) ars"

lemma upsert_config:
  assumes "upsert env input [] now s = (Inr t, s')" and "ci_created_by input = By_config" and "ci_id input = Some i"
  shows "ss_redis s' = persist t (ss_redis s) \<and> ts_id t = i \<and> ts_created_by t = By_config \<and> task_owner t = input_owner input \<and>
    ss_events s' = ss_events s @ (if get_by_id s i = None then [created_event now input t] else []) \<and>
    (\<forall>e. get_by_id s i = Some e \<longrightarrow> ts_run_count t = ts_run_count e \<and> ts_created_at t = ts_created_at e)"
proof -
  have t: "t = build_task env input i now (get_by_id s i)" and s': "s' = \<lparr>ss_redis = persist t (ss_redis s),
      ss_bull = ss_bull s @ [schedule_in_bullmq now t],
      ss_events = ss_events s @ (if get_by_id s i = None then [created_event now input t] else [])\<rparr>"
    using assms by (auto simp: upsert_def admit_def commit_def Let_def task_id_of_def split: if_splits sum.splits)
  show ?thesis using assms(2) by (simp add: t s' owner_build_task) (simp add: build_task_def)
qed

lemma registered_rule:
  assumes "register_rule env hash collate now (a, r) s = (Inr g, s')"
  shows "g = registered_of hash collate a r \<and>
    (\<exists>t. ss_redis s' = persist t (ss_redis s) \<and> ts_id t = rg_task_id g \<and> ts_created_by t = By_config \<and>
       task_owner t = (agent_name a, By_config, None) \<and>
       (get_by_id s (rg_task_id g) \<noteq> None \<longrightarrow> ss_events s' = ss_events s) \<and>
       (\<forall>e. get_by_id s (rg_task_id g) = Some e \<longrightarrow> ts_run_count t = ts_run_count e \<and> ts_created_at t = ts_created_at e))"
proof -
  let ?s = "s\<lparr>ss_bull := ss_bull s @ [legacy_removal a r]\<rparr>"
  have g: "g = registered_of hash collate a r"
    using assms by (auto simp: register_rule_def split: option.splits sum.splits prod.splits)
  obtain t where up: "upsert env (schedule_input hash collate a r) [] now ?s = (Inr t, s')"
    using assms by (auto simp: register_rule_def split: option.splits sum.splits prod.splits)
  have i: "ci_id (schedule_input hash collate a r) = Some (rg_task_id g)"
    and c: "ci_created_by (schedule_input hash collate a r) = By_config"
    and o: "input_owner (schedule_input hash collate a r) = (agent_name a, By_config, None)"
    by (simp_all add: schedule_input_def Let_def g registered_of_def input_owner_def)
  have same: "get_by_id ?s = get_by_id s" by (simp add: get_by_id_def fun_eq_iff)
  show ?thesis using upsert_config[OF up c i] g o unfolding same by auto
qed

lemma get_by_id_persist:
  "ss_redis s' = persist t (ss_redis s) \<Longrightarrow> get_by_id s' j = (if j = ts_id t then Some t else get_by_id s j)"
  by (simp add: get_by_id_def)

lemma registered_rules:
  "register_rules env hash collate clock n ars s = (Inr gs, s') \<Longrightarrow> exact_inv own (ss_redis s) \<Longrightarrow>
   rules_owned own hash collate ars \<Longrightarrow>
   gs = map (\<lambda>(a, r). registered_of hash collate a r) ars \<and> exact_inv own (ss_redis s') \<and>
   (\<forall>j. j \<notin> rg_task_id ` set gs \<longrightarrow> get_by_id s' j = get_by_id s j) \<and>
   (\<forall>j\<in>rg_task_id ` set gs. \<exists>t. get_by_id s' j = Some t \<and> ts_created_by t = By_config \<and>
      (\<forall>e. get_by_id s j = Some e \<longrightarrow> ts_run_count t = ts_run_count e \<and> ts_created_at t = ts_created_at e)) \<and>
   ((\<forall>j\<in>rg_task_id ` set gs. get_by_id s j \<noteq> None) \<longrightarrow> ss_events s' = ss_events s)"
proof (induction ars arbitrary: n s gs)
  case (Cons ar ars)
  obtain a r where ar: "ar = (a, r)" by (cases ar) auto
  obtain g s1 gs' where one: "register_rule env hash collate (clock n) (a, r) s = (Inr g, s1)"
      and rest: "register_rules env hash collate clock (Suc n) ars s1 = (Inr gs', s')" and gs: "gs = g # gs'"
    using Cons.prems(1) ar by (auto split: prod.splits sum.splits)
  obtain t where g: "g = registered_of hash collate a r" and t: "ss_redis s1 = persist t (ss_redis s)" "ts_id t = rg_task_id g"
      "ts_created_by t = By_config" "task_owner t = (agent_name a, By_config, None)"
      "get_by_id s (rg_task_id g) \<noteq> None \<longrightarrow> ss_events s1 = ss_events s"
      "\<forall>e. get_by_id s (rg_task_id g) = Some e \<longrightarrow> ts_run_count t = ts_run_count e \<and> ts_created_at t = ts_created_at e"
    using registered_rule[OF one] by blast
  have "task_owner t = own (ts_id t)"
    using Cons.prems(3) ar t(2,4) g by (simp add: rules_owned_def registered_of_def)
  then have ex: "exact_inv own (ss_redis s1)" using exact_inv_persist[OF Cons.prems(2)] t(1) by simp
  have owned: "rules_owned own hash collate ars" using Cons.prems(3) by (simp add: rules_owned_def)
  note IH = Cons.IH[OF rest ex owned]
  note step = get_by_id_persist[OF t(1)]
  have "\<exists>t'. get_by_id s' j = Some t' \<and> ts_created_by t' = By_config \<and>
      (\<forall>e. get_by_id s j = Some e \<longrightarrow> ts_run_count t' = ts_run_count e \<and> ts_created_at t' = ts_created_at e)"
    if j: "j \<in> rg_task_id ` set gs" for j
  proof (cases "j \<in> rg_task_id ` set gs'")
    case True
    then obtain t' where t': "get_by_id s' j = Some t'" "ts_created_by t' = By_config"
        "\<forall>e. get_by_id s1 j = Some e \<longrightarrow> ts_run_count t' = ts_run_count e \<and> ts_created_at t' = ts_created_at e"
      using IH by blast
    then show ?thesis using step[of j] t(2,6) by (cases "j = rg_task_id g") auto
  next
    case False
    then have "j = rg_task_id g" "get_by_id s' j = get_by_id s1 j" using j gs IH by auto
    then show ?thesis using step[of j] t(2,3,6) by auto
  qed
  moreover have "get_by_id s' j = get_by_id s j" if "j \<notin> rg_task_id ` set gs" for j
    using that IH step[of j] t(2) gs by auto
  moreover have "ss_events s' = ss_events s" if all: "\<forall>j\<in>rg_task_id ` set gs. get_by_id s j \<noteq> None"
  proof -
    have "ss_events s1 = ss_events s" using all t(5) gs by simp
    moreover have "\<forall>j\<in>rg_task_id ` set gs'. get_by_id s1 j \<noteq> None" using all step gs by simp
    ultimately show ?thesis using IH by simp
  qed
  ultimately show ?case using IH gs g ar by simp
qed (simp add: rules_owned_def)

lemma reconcile_keeps_events:
  assumes "exact_inv own (ss_redis s)" and "\<forall>j t. get_by_id s j = Some t \<and> ts_created_by t = By_config \<longrightarrow> j \<in> loaded"
  shows "ss_events (snd (reconcile_config loaded now s)) = ss_events s"
proof -
  have "j \<in> loaded" if "j \<in> set (sr_by_creator (ss_redis s) By_config)" for j
  proof -
    from exact_members(2)[OF assms(1) that] obtain t where t: "map_of (sr_records (ss_redis s)) j = Some t" "fst (snd (own j)) = By_config"
      by auto
    then have "ts_created_by t = By_config" using exact_record[OF assms(1) t(1)] by (metis fst_conv snd_conv task_owner_def)
    then show ?thesis using assms(2) t(1) by (auto simp: get_by_id_def)
  qed
  then have none: "filter (\<lambda>i. i \<notin> loaded) (sr_by_creator (ss_redis s) By_config) = []" by (simp add: filter_empty_conv)
  show ?thesis by (simp add: reconcile_config_def Let_def none)
qed

text \<open>What a successful registration does to the registry, from any state with exact indexes.\<close>

lemma register_exact:
  assumes "exact_inv own (ss_redis s)" and "rules_owned own hash collate (schedule_rules agents)"
    and "register_agent_schedules env hash collate clock agents s = (Inr gs, s')"
  shows "gs = map (\<lambda>(a, r). registered_of hash collate a r) (schedule_rules agents)"
    and "j \<in> rg_task_id ` set gs \<Longrightarrow> \<exists>t. get_by_id s' j = Some t \<and> ts_created_by t = By_config"
    and "j \<notin> rg_task_id ` set gs \<Longrightarrow>
      get_by_id s' j = (case get_by_id s j of Some t \<Rightarrow> if ts_created_by t = By_config then None else Some t | None \<Rightarrow> None)"
    and "exact_inv own (ss_redis s')"
    and "(\<forall>j\<in>rg_task_id ` set gs. get_by_id s j \<noteq> None) \<Longrightarrow>
      \<forall>j t. get_by_id s j = Some t \<and> ts_created_by t = By_config \<longrightarrow> j \<in> rg_task_id ` set gs \<Longrightarrow>
      ss_events s' = ss_events s"
    and "get_by_id s j = Some e \<Longrightarrow> get_by_id s' j = Some t \<Longrightarrow> ts_run_count t = ts_run_count e \<and> ts_created_at t = ts_created_at e"
proof -
  obtain s1 where s1: "register_rules env hash collate clock 0 (schedule_rules agents) s = (Inr gs, s1)"
      and s': "s' = snd (reconcile_config (rg_task_id ` set gs) (clock (length gs)) s1)"
    using assms(3) by (auto simp: register_agent_schedules_def split: prod.splits sum.splits)
  note reg = registered_rules[OF s1 assms(1,2)]
  then have ex: "exact_inv own (ss_redis s1)" by blast
  note rec = reconcile_exact[OF ex, of "rg_task_id ` set gs" "clock (length gs)", folded s']
  show "gs = map (\<lambda>(a, r). registered_of hash collate a r) (schedule_rules agents)" using reg by blast
  show "\<exists>t. get_by_id s' j = Some t \<and> ts_created_by t = By_config" if "j \<in> rg_task_id ` set gs"
  proof -
    obtain t where "get_by_id s1 j = Some t" "ts_created_by t = By_config" using reg \<open>j \<in> rg_task_id ` set gs\<close> by blast
    then show ?thesis using rec[of j] \<open>j \<in> rg_task_id ` set gs\<close> by simp
  qed
  show "get_by_id s' j = (case get_by_id s j of Some t \<Rightarrow> if ts_created_by t = By_config then None else Some t | None \<Rightarrow> None)"
    if "j \<notin> rg_task_id ` set gs"
  proof -
    have "get_by_id s1 j = get_by_id s j" using reg that by blast
    then show ?thesis using rec[of j] that by (simp split: option.split)
  qed
  show "exact_inv own (ss_redis s')"
    unfolding s' reconcile_config_def Let_def snd_conv by (rule exact_inv_reconcile[OF ex])
  show "ss_events s' = ss_events s"
    if all: "\<forall>j\<in>rg_task_id ` set gs. get_by_id s j \<noteq> None"
      and conf: "\<forall>j t. get_by_id s j = Some t \<and> ts_created_by t = By_config \<longrightarrow> j \<in> rg_task_id ` set gs"
  proof -
    have "\<forall>j t. get_by_id s1 j = Some t \<and> ts_created_by t = By_config \<longrightarrow> j \<in> rg_task_id ` set gs"
      using conf reg by metis
    then have "ss_events s' = ss_events s1" unfolding s' by (rule reconcile_keeps_events[OF ex])
    then show ?thesis using reg all by simp
  qed
  show "ts_run_count t = ts_run_count e \<and> ts_created_at t = ts_created_at e"
    if "get_by_id s j = Some e" "get_by_id s' j = Some t"
  proof -
    have "get_by_id s1 j = Some t" using rec[of j] that(2) by (auto split: option.splits if_splits)
    moreover have "get_by_id s1 j = get_by_id s j \<or>
        (\<exists>t. get_by_id s1 j = Some t \<and> (\<forall>e. get_by_id s j = Some e \<longrightarrow> ts_run_count t = ts_run_count e \<and> ts_created_at t = ts_created_at e))"
      using reg by blast
    ultimately show ?thesis using that(1) by auto
  qed
qed

lemma ids_of_registered:
  "rg_task_id ` set (map (\<lambda>(a, r). registered_of hash collate a r) ars) = (\<lambda>(a, r). rule_task_id hash collate a r) ` set ars"
  by (force simp: registered_of_def)

text \<open>C22: After a successful load of the configuration the config-created tasks of the registry are
  exactly those of the rules it declares, whatever happened to the registry before, and no task an
  agent created is touched.\<close>

theorem schedules_reloaded:
  assumes "list_all (owned own) ops" and "rules_owned own hash collate (schedule_rules agents)"
    and "register_agent_schedules env hash collate clock agents (sched_run env ops) = (Inr gs, s')"
  shows "((\<exists>t. get_by_id s' j = Some t \<and> ts_created_by t = By_config) \<longleftrightarrow>
       j \<in> (\<lambda>(a, r). rule_task_id hash collate a r) ` set (schedule_rules agents)) \<and>
    (\<forall>t. get_by_id (sched_run env ops) j = Some t \<and> ts_created_by t = By_agent \<longrightarrow> get_by_id s' j = Some t)"
proof -
  note ex = exact_inv_run[OF assms(1), of env]
  note reg = register_exact[OF ex assms(2,3)]
  have ids: "rg_task_id ` set gs = (\<lambda>(a, r). rule_task_id hash collate a r) ` set (schedule_rules agents)"
    unfolding reg(1) by (rule ids_of_registered)
  have agent_kept: "get_by_id s' j = Some t" if t: "get_by_id (sched_run env ops) j = Some t" "ts_created_by t = By_agent" for t
  proof -
    have "snd (own j) = (By_agent, trace_tag t)"
      using exact_record[OF ex] t by (auto simp: get_by_id_def task_owner_def) (metis snd_conv)
    moreover have "fst (snd (own i)) = By_config" if "i \<in> rg_task_id ` set gs" for i
      using that assms(2) unfolding ids rules_owned_def list_all_iff by auto
    ultimately have "j \<notin> rg_task_id ` set gs" by fastforce
    then show ?thesis using reg(3) t by simp
  qed
  have "(\<exists>t. get_by_id s' j = Some t \<and> ts_created_by t = By_config) \<longleftrightarrow> j \<in> rg_task_id ` set gs"
  proof (cases "j \<in> rg_task_id ` set gs")
    case False
    then show ?thesis using reg(3)[of j] by (auto split: option.splits if_splits)
  qed (use reg(2)[of j] in blast)
  then show ?thesis using agent_kept unfolding ids by blast
qed

text \<open>Booting again with the same configuration gives the same tasks: nothing is published, no task
  comes or goes, and every run count and creation time stays.\<close>

theorem second_boot_quiet:
  assumes "list_all (owned own) ops" and "rules_owned own hash collate (schedule_rules agents)"
    and "register_agent_schedules env hash collate clock agents (sched_run env ops) = (Inr gs, s1)"
    and "register_agent_schedules env hash collate clock' agents s1 = (Inr gs', s2)"
  shows "gs' = gs \<and> ss_events s2 = ss_events s1 \<and>
    map_option (\<lambda>t. (ts_run_count t, ts_created_at t)) (get_by_id s2 j) =
    map_option (\<lambda>t. (ts_run_count t, ts_created_at t)) (get_by_id s1 j)"
proof -
  note first = register_exact[OF exact_inv_run[OF assms(1), of env] assms(2,3)]
  note second = register_exact[OF first(4) assms(2,4)]
  have gs: "gs' = gs" using first(1) second(1) by simp
  have present: "\<forall>j\<in>rg_task_id ` set gs'. get_by_id s1 j \<noteq> None" using first(2) gs by fastforce
  have config: "j \<in> rg_task_id ` set gs'" if "get_by_id s1 j = Some t" "ts_created_by t = By_config" for j t
    using first(3)[of j] that gs by (cases "j \<in> rg_task_id ` set gs") (auto split: option.splits if_splits)
  have quiet: "ss_events s2 = ss_events s1" by (rule second(5)[OF present]) (use config in blast)
  have "map_option (\<lambda>t. (ts_run_count t, ts_created_at t)) (get_by_id s2 j) =
      map_option (\<lambda>t. (ts_run_count t, ts_created_at t)) (get_by_id s1 j)"
  proof (cases "j \<in> rg_task_id ` set gs'")
    case True
    then obtain e t where "get_by_id s1 j = Some e" "get_by_id s2 j = Some t" using present second(2) by blast
    then show ?thesis using second(6) by simp
  next
    case False
    have "get_by_id s2 j = get_by_id s1 j"
    proof (cases "get_by_id s1 j")
      case None
      then show ?thesis using second(3)[OF False] by simp
    next
      case (Some t)
      then have "ts_created_by t \<noteq> By_config" using config False by blast
      then show ?thesis using second(3)[OF False] Some by simp
    qed
    then show ?thesis by simp
  qed
  then show ?thesis using gs quiet by blast
qed

definition example_schedule_rule :: agent_rule where
  "example_schedule_rule = \<lparr>rule_name = Some ''daily'', rule_id = None, rule_condition = None, rule_template = Some ''t.md'',
     rule_session = None, rule_memory = None, rule_max_turns = None, rule_runner = None, rule_tools = None,
     rule_cron = Some ''0 9 * * *'', rule_timezone = None, rule_context = None\<rparr>"

definition example_agents :: "agent list" where
  "example_agents = [\<lparr>agent_name = ''patch'', agent_dir = ''/w/patch'', agent_routing = [(''schedule'', [example_schedule_rule])],
     agent_model_rules = []\<rparr>]"

definition example_register :: "nat \<Rightarrow> sched_state \<Rightarrow> (schedule_error + registered_schedule list) \<times> sched_state" where
  "example_register n = register_agent_schedules (sample_sched_env 3) (\<lambda>m. ''0123456789abcdef0'') code_order (\<lambda>i. int (n + i)) example_agents"

definition example_ops :: "(int \<times> sched_action) list" where
  "example_ops = [(0, Upsert (sample_input (Some ''x'') ''a'' By_config (Fire_at 500)) [])]"

definition example_own :: "string \<Rightarrow> string \<times> created_by \<times> string option" where
  "example_own i = (if i = ''x'' then (''a'', By_config, Some ''t1'') else (''patch'', By_config, None))"

lemma example_owned: "list_all (owned example_own) example_ops"
  by (simp add: example_ops_def example_own_def input_owner_def sample_input_def task_id_of_def)

lemma example_rules_owned: "rules_owned example_own (\<lambda>m. ''0123456789abcdef0'') code_order (schedule_rules example_agents)"
  by (simp add: rules_owned_def schedule_rules_def example_agents_def rule_task_id_def Let_def derive_config_task_id_def example_own_def)

lemma example_boots:
  "fst (example_register 1 (sched_run (sample_sched_env 3) example_ops)) =
     Inr [\<lparr>rg_agent = ''patch'', rg_rule = ''daily'', rg_cron = ''0 9 * * *'', rg_timezone = None,
       rg_scheduler_id = ''scheduled-task-0123456789abcdef'', rg_task_id = ''0123456789abcdef''\<rparr>]"
  by code_simp

theorem schedules_reloaded_witness:
  "(\<exists>t. get_by_id (snd (example_register 1 (sched_run (sample_sched_env 3) example_ops))) ''x'' = Some t \<and> ts_created_by t = By_config) \<longleftrightarrow>
     ''x'' \<in> (\<lambda>(a, r). rule_task_id (\<lambda>m. ''0123456789abcdef0'') code_order a r) ` set (schedule_rules example_agents)"
proof -
  let ?s1 = "snd (example_register 1 (sched_run (sample_sched_env 3) example_ops))"
  obtain gs where one: "example_register 1 (sched_run (sample_sched_env 3) example_ops) = (Inr gs, ?s1)"
    using example_boots by (metis prod.collapse)
  show ?thesis
    by (rule schedules_reloaded[OF example_owned example_rules_owned one[unfolded example_register_def], of "''x''",
        THEN conjunct1, folded example_register_def])
qed

theorem second_boot_quiet_witness:
  "ss_events (snd (example_register 9 (snd (example_register 1 (sched_run (sample_sched_env 3) example_ops))))) =
   ss_events (snd (example_register 1 (sched_run (sample_sched_env 3) example_ops)))"
proof -
  let ?s1 = "snd (example_register 1 (sched_run (sample_sched_env 3) example_ops))"
  obtain gs where one: "example_register 1 (sched_run (sample_sched_env 3) example_ops) = (Inr gs, ?s1)"
    using example_boots by (metis prod.collapse)
  have "\<not> isl (fst (example_register 9 ?s1))" by code_simp
  then obtain gs' where two: "example_register 9 ?s1 = (Inr gs', snd (example_register 9 ?s1))"
    by (metis prod.collapse sum.collapse(2))
  show ?thesis
    using second_boot_quiet[OF example_owned example_rules_owned one[unfolded example_register_def]
        two[unfolded example_register_def], of "''x''"]
    unfolding example_register_def by blast
qed

text \<open>A load that fails at some rule stops before the reconciliation: whatever was registered stays.\<close>

lemma failed_load_removes_nothing:
  assumes "register_agent_schedules env hash collate clock agents s = (Inl e, s')" and "get_by_id s j \<noteq> None"
  shows "get_by_id s' j \<noteq> None"
proof -
  have upsert: "get_by_id s'' j \<noteq> None" if "upsert env input [] now s = (r, s'')" "get_by_id s j \<noteq> None" for input now s r s''
    using that by (auto simp: upsert_def commit_def Let_def get_by_id_def split: sum.splits if_splits)
  have rule_kept: "get_by_id s'' j \<noteq> None" if "register_rule env hash collate now ar s = (r, s'')" "get_by_id s j \<noteq> None" for now ar s r s''
  proof -
    have "get_by_id (s\<lparr>ss_bull := b\<rparr>) j \<noteq> None" for b using that(2) by (simp add: get_by_id_def)
    then show ?thesis
      using that upsert by (auto simp: register_rule_def split: prod.splits option.splits sum.splits)
  qed
  have "get_by_id s'' j \<noteq> None" if "register_rules env hash collate clock n ars s = (r, s'')" "get_by_id s j \<noteq> None" for n ars s r s''
    using that
  proof (induction ars arbitrary: n s r s'')
    case (Cons ar ars)
    obtain r1 s1 where one: "register_rule env hash collate (clock n) ar s = (r1, s1)" by (cases "register_rule env hash collate (clock n) ar s")
    have kept: "get_by_id s1 j \<noteq> None" using rule_kept[OF one Cons.prems(2)] .
    show ?case
    proof (cases r1)
      case (Inl e)
      then show ?thesis using Cons.prems(1) one kept by simp
    next
      case (Inr g)
      obtain r2 s2 where two: "register_rules env hash collate clock (Suc n) ars s1 = (r2, s2)"
        by (cases "register_rules env hash collate clock (Suc n) ars s1")
      have "s'' = s2" using Cons.prems(1) one two Inr by (auto split: sum.splits)
      then show ?thesis using Cons.IH[OF two kept] by simp
    qed
  qed simp
  then show ?thesis
    using assms by (auto simp: register_agent_schedules_def split: prod.splits sum.splits)
qed

end
