(* ===== verification/Boot.thy ===== *)
theory Boot
  imports Webhook MemoryApi Tools Template StaticSchedules
begin

text \<open>
  From the deployment's settings to the running configuration: the agents cloned and loaded with their
  checks (\<open>services/agent-loader.service.ts\<close>), the inbound providers merged from workspaces, system
  agents and the environment (\<open>mergeProviders\<close>, \<open>config.ts\<close>, \<open>system-agents/providers.ts\<close>). Git, the
  YAML files with their schema and the findings of the workspace audit are parameters.
\<close>

section \<open>Settings\<close>

datatype transport_config =
    Webhook_transport string signature_name "string option" "string option" "oidc_section option"
  | Socket_transport string string

record provider_decl =
  pd_name :: string
  pd_runner :: "runner_config option"
  pd_transport :: transport_config

datatype provider_error =
    Oidc_config_missing string
  | Two_secrets string
  | No_secret string
  | Audience_underivable string
  | Declared_twice string string string

definition validate_provider_invariants :: "provider_decl \<Rightarrow> provider_error option" where
  "validate_provider_invariants p =
     (case pd_transport p of
        Socket_transport _ _ \<Rightarrow> None
      | Webhook_transport route sig secret key oidc \<Rightarrow>
          if sig = Oidc \<and> oidc = None then Some (Oidc_config_missing (pd_name p))
          else if \<not> falsy_text secret \<and> \<not> falsy_text key then Some (Two_secrets (pd_name p))
          else if sig \<noteq> Oidc \<and> falsy_text secret \<and> falsy_text key then Some (No_secret (pd_name p))
          else None)"

record shared_tools =
  sh_repo :: string
  sh_ref :: string
  sh_path :: string

record agent_entry =
  ae_name :: string
  ae_repo :: string
  ae_path :: "string option"
  ae_ref :: "string option"
  ae_shared :: "shared_tools option"

record agent_settings =
  rcf_routing :: "(string, agent_rule list) jsmap"
  rcf_model_rules :: "(string, model_rule list) jsmap"
  rcf_memory :: "(string, namespace_policy) jsmap option"
  rcf_providers :: "provider_decl list"

record resolved_agent =
  ra_name :: string
  ra_dir :: string
  ra_config :: agent_settings

section \<open>Clones\<close>

definition is_url_separator :: "char \<Rightarrow> bool" where
  "is_url_separator c \<longleftrightarrow> c = CHR '':'' \<or> c = CHR ''/''"

text \<open>\<open>split(/[:/]/).filter(Boolean)\<close>.\<close>

definition url_parts :: "string \<Rightarrow> string list" where
  "url_parts u = filter (\<lambda>p. p \<noteq> []) (split_on CHR ''/'' (map (\<lambda>c. if is_url_separator c then CHR ''/'' else c) u))"

definition without_git :: "string \<Rightarrow> string" where
  "without_git u = (if suffix ''.git'' u then take (length u - 4) u else u)"

definition slugify_repo_url :: "string \<Rightarrow> string option" where
  "slugify_repo_url u =
     (let parts = url_parts (without_git u) in
      if length parts < 2 then None else Some (join ''__'' (drop (length parts - 2) parts)))"

datatype git_command =
    Clone_or_pull string string "string option"
  | Clone_pinned string string string

section \<open>Checks of an agent\<close>

datatype load_error =
    Duplicate_agent string
  | No_clone_directory string
  | Git_failed string
  | Shared_tools_conflict string
  | Config_unreadable string
  | Unknown_embedding_provider string string
  | Unknown_vector_store string string
  | Undeclared_namespace string string
  | Session_on_schedule string
  | Unknown_session_strategy string string
  | Tools_rejected boot_error
  | Audit_failed "string list"
  | Namespace_taken string string string

record load_world =
  lw_git :: "git_command \<Rightarrow> string option"
  lw_config :: "string \<Rightarrow> string + agent_settings"
  lw_audit :: "string \<Rightarrow> (bool \<times> string) list"
  lw_embeddings :: "string list"
  lw_stores :: "string list"
  lw_strategies :: "string list"
  lw_tools :: tool_world
  lw_manager :: manager

definition namespaces_of :: "agent_settings \<Rightarrow> (string, namespace_policy) jsmap" where
  "namespaces_of c = (case rcf_memory c of Some ns \<Rightarrow> ns | None \<Rightarrow> [])"

definition routed_rules :: "agent_settings \<Rightarrow> (string \<times> agent_rule) list" where
  "routed_rules c = concat (map (\<lambda>(p, rs). map (Pair p) rs) (rcf_routing c))"

fun check_policies :: "load_world \<Rightarrow> (string, namespace_policy) jsmap \<Rightarrow> load_error option" where
  "check_policies w [] = None"
| "check_policies w ((n, p) # ns) =
     (if np_embedding p \<notin> set (lw_embeddings w) then Some (Unknown_embedding_provider n (np_embedding p))
      else if np_store p \<notin> set (lw_stores w) then Some (Unknown_vector_store n (np_store p))
      else check_policies w ns)"

fun check_rule_namespaces :: "(string, namespace_policy) jsmap \<Rightarrow> (string \<times> agent_rule) list \<Rightarrow> load_error option" where
  "check_rule_namespaces ns [] = None"
| "check_rule_namespaces ns ((p, r) # rs) =
     (case rule_memory r of
        Some (n, _) \<Rightarrow> if n \<in> fst ` set ns then check_rule_namespaces ns rs else Some (Undeclared_namespace p n)
      | None \<Rightarrow> check_rule_namespaces ns rs)"

definition validate_memory_config :: "load_world \<Rightarrow> agent_settings \<Rightarrow> load_error option" where
  "validate_memory_config w c =
     (case check_policies w (namespaces_of c) of
        Some e \<Rightarrow> Some e
      | None \<Rightarrow> check_rule_namespaces (namespaces_of c) (routed_rules c))"

fun check_sessions :: "load_world \<Rightarrow> (string \<times> agent_rule) list \<Rightarrow> load_error option" where
  "check_sessions w [] = None"
| "check_sessions w ((p, r) # rs) =
     (case rule_session r of
        None \<Rightarrow> check_sessions w rs
      | Some s \<Rightarrow>
          if p = ''schedule'' then Some (Session_on_schedule (case rule_name r of Some n \<Rightarrow> n | None \<Rightarrow> ''<unnamed>''))
          else if s \<notin> set (lw_strategies w) then Some (Unknown_session_strategy p s)
          else check_sessions w rs)"

definition validate_session_config :: "load_world \<Rightarrow> agent_settings \<Rightarrow> load_error option" where
  "validate_session_config w c = check_sessions w (routed_rules c)"

fun validate_tools_config ::
  "load_world \<Rightarrow> string \<Rightarrow> string \<Rightarrow> (string \<times> agent_rule) list \<Rightarrow> tool_catalog \<Rightarrow> load_error + tool_catalog" where
  "validate_tools_config w a dir [] g = Inr g"
| "validate_tools_config w a dir ((p, r) # rs) g =
     (case validate_rule_tools (lw_tools w) (lw_manager w) a dir (case rule_tools r of Some ts \<Rightarrow> ts | None \<Rightarrow> []) [] g of
        Inl e \<Rightarrow> Inl (Tools_rejected e)
      | Inr g' \<Rightarrow> validate_tools_config w a dir rs g')"

definition run_workspace_audit :: "load_world \<Rightarrow> string \<Rightarrow> load_error option" where
  "run_workspace_audit w dir =
     (let errors = map snd (filter fst (lw_audit w dir)) in if errors = [] then None else Some (Audit_failed errors))"

section \<open>Loading\<close>

record load_state =
  ls_git :: "git_command list"
  ls_clones :: "(string, string) jsmap"
  ls_shared :: "(string, shared_tools) jsmap"
  ls_seen :: "string list"
  ls_catalog :: tool_catalog
  ls_agents :: "resolved_agent list"

definition load_start :: load_state where
  "load_start = \<lparr>ls_git = [], ls_clones = [], ls_shared = [], ls_seen = [], ls_catalog = empty_catalog, ls_agents = []\<rparr>"

definition run_git :: "load_world \<Rightarrow> git_command \<Rightarrow> load_state \<Rightarrow> load_error + load_state" where
  "run_git w c s =
     (case lw_git w c of Some e \<Rightarrow> Inl (Git_failed e) | None \<Rightarrow> Inr (s\<lparr>ls_git := ls_git s @ [c]\<rparr>))"

definition ensure_clone :: "load_world \<Rightarrow> string \<Rightarrow> agent_entry \<Rightarrow> load_state \<Rightarrow> load_error + (string \<times> load_state)" where
  "ensure_clone w config_dir e s =
     (case map_of (ls_clones s) (ae_repo e) of
        Some dir \<Rightarrow> Inr (dir, s)
      | None \<Rightarrow>
          (case slugify_repo_url (ae_repo e) of
             None \<Rightarrow> Inl (No_clone_directory (ae_repo e))
           | Some slug \<Rightarrow>
               let dir = node_join config_dir slug in
               and_then (run_git w (Clone_or_pull (ae_repo e) dir (ae_ref e)) s) (\<lambda>s'.
                 Inr (dir, s'\<lparr>ls_clones := AList.update (ae_repo e) dir (ls_clones s')\<rparr>))))"

definition ensure_shared_tools :: "load_world \<Rightarrow> string \<Rightarrow> agent_entry \<Rightarrow> load_state \<Rightarrow> load_error + load_state" where
  "ensure_shared_tools w dir e s =
     (case ae_shared e of
        None \<Rightarrow> Inr s
      | Some sh \<Rightarrow>
          (case map_of (ls_shared s) (ae_repo e) of
             None \<Rightarrow> and_then (run_git w (Clone_pinned (sh_repo sh) (node_join dir (sh_path sh)) (sh_ref sh)) s) (\<lambda>s'.
               Inr (s'\<lparr>ls_shared := AList.update (ae_repo e) sh (ls_shared s')\<rparr>))
           | Some previous \<Rightarrow> if previous = sh then Inr s else Inl (Shared_tools_conflict (ae_name e))))"

definition check_agent :: "load_world \<Rightarrow> agent_settings \<Rightarrow> load_error option" where
  "check_agent w c =
     (case validate_memory_config w c of Some e \<Rightarrow> Some e | None \<Rightarrow> validate_session_config w c)"

definition load_entry :: "load_world \<Rightarrow> string \<Rightarrow> agent_entry \<Rightarrow> load_state \<Rightarrow> load_error + load_state" where
  "load_entry w config_dir e s =
     (if ae_name e \<in> set (ls_seen s) then Inl (Duplicate_agent (ae_name e))
      else and_then (ensure_clone w config_dir e (s\<lparr>ls_seen := ls_seen s @ [ae_name e]\<rparr>)) (\<lambda>(clone, s1).
        and_then (ensure_shared_tools w clone e s1) (\<lambda>s2.
          let dir = (case ae_path e of None \<Rightarrow> clone | Some p \<Rightarrow> node_join clone p) in
          case lw_config w dir of
            Inl m \<Rightarrow> Inl (Config_unreadable m)
          | Inr c \<Rightarrow>
              (case check_agent w c of
                 Some err \<Rightarrow> Inl err
               | None \<Rightarrow>
                   and_then (validate_tools_config w (ae_name e) dir (routed_rules c) (ls_catalog s2)) (\<lambda>g.
                     case run_workspace_audit w dir of
                       Some err \<Rightarrow> Inl err
                     | None \<Rightarrow> Inr (s2\<lparr>ls_catalog := g,
                         ls_agents := ls_agents s2 @ [\<lparr>ra_name = ae_name e, ra_dir = dir, ra_config = c\<rparr>]\<rparr>))))))"

fun load_entries :: "load_world \<Rightarrow> string \<Rightarrow> agent_entry list \<Rightarrow> load_state \<Rightarrow> load_error + load_state" where
  "load_entries w config_dir [] s = Inr s"
| "load_entries w config_dir (e # es) s = and_then (load_entry w config_dir e s) (load_entries w config_dir es)"

text \<open>Pairs of a namespace and its agent, in declaration order; the map of the names seen.\<close>

fun check_namespace_owners :: "(string \<times> string) list \<Rightarrow> (string, string) jsmap \<Rightarrow> load_error option" where
  "check_namespace_owners [] seen = None"
| "check_namespace_owners ((n, a) # ps) seen =
     (case map_of seen n of
        Some b \<Rightarrow> if b \<noteq> a then Some (Namespace_taken n b a) else check_namespace_owners ps (AList.update n a seen)
      | None \<Rightarrow> check_namespace_owners ps (AList.update n a seen))"

definition declared_namespaces :: "resolved_agent list \<Rightarrow> (string \<times> string) list" where
  "declared_namespaces agents = concat (map (\<lambda>a. map (\<lambda>(n, p). (n, ra_name a)) (namespaces_of (ra_config a))) agents)"

definition load_agents :: "load_world \<Rightarrow> string \<Rightarrow> agent_entry list \<Rightarrow> load_error + load_state" where
  "load_agents w config_dir entries =
     and_then (load_entries w config_dir entries load_start) (\<lambda>s.
       case check_namespace_owners (declared_namespaces (ls_agents s)) [] of Some e \<Rightarrow> Inl e | None \<Rightarrow> Inr s)"

section \<open>Providers\<close>

definition strip_slashes :: "string \<Rightarrow> string" where
  "strip_slashes s = drop_end (\<lambda>c. c = CHR ''/'') s"

definition hydrate_runner :: "string \<Rightarrow> runner_config option \<Rightarrow> runner_config option" where
  "hydrate_runner dir r =
     (case r of Some (Claude_cli_config None b p s) \<Rightarrow> Some (Claude_cli_config (Some dir) b p s) | _ \<Rightarrow> r)"

definition hydrate_workspace_provider :: "string \<Rightarrow> string option \<Rightarrow> provider_decl \<Rightarrow> provider_error + provider_decl" where
  "hydrate_workspace_provider dir public_url p =
     (let p' = p\<lparr>pd_runner := hydrate_runner dir (pd_runner p)\<rparr> in
      case pd_transport p of
        Socket_transport _ _ \<Rightarrow> Inr p'
      | Webhook_transport route sig secret key oidc \<Rightarrow>
          if sig = Oidc \<and> oidc \<noteq> None \<and> os_audience (the oidc) = None then
            (case public_url of
               None \<Rightarrow> Inl (Audience_underivable (pd_name p))
             | Some url \<Rightarrow>
                 let path = (if prefix ''/'' route then route else CHR ''/'' # route) in
                 Inr (p'\<lparr>pd_transport := Webhook_transport route sig secret key
                            (Some ((the oidc)\<lparr>os_audience := Some (strip_slashes url @ path)\<rparr>))\<rparr>))
          else Inr p')"

record merge_state =
  mg_merged :: "provider_decl list"
  mg_sources :: "(string, string) jsmap"

definition add_provider :: "string \<Rightarrow> provider_decl \<Rightarrow> merge_state \<Rightarrow> provider_error + merge_state" where
  "add_provider source p s =
     (case map_of (mg_sources s) (pd_name p) of
        Some existing \<Rightarrow> Inl (Declared_twice (pd_name p) existing source)
      | None \<Rightarrow>
          (case validate_provider_invariants p of
             Some e \<Rightarrow> Inl e
           | None \<Rightarrow> Inr \<lparr>mg_merged = mg_merged s @ [p], mg_sources = AList.update (pd_name p) source (mg_sources s)\<rparr>))"

fun add_workspace_providers ::
  "string option \<Rightarrow> (resolved_agent \<times> provider_decl) list \<Rightarrow> merge_state \<Rightarrow> provider_error + merge_state" where
  "add_workspace_providers url [] s = Inr s"
| "add_workspace_providers url ((a, p) # ps) s =
     and_then (hydrate_workspace_provider (ra_dir a) url p) (\<lambda>p'.
       and_then (add_provider (''workspace '' @ quoted (ra_name a)) p' s) (add_workspace_providers url ps))"

fun add_system_providers :: "provider_decl list \<Rightarrow> merge_state \<Rightarrow> provider_error + merge_state" where
  "add_system_providers [] s = Inr s"
| "add_system_providers (p # ps) s = and_then (add_provider ''system-agent'' p s) (add_system_providers ps)"

fun add_env_providers :: "provider_decl list \<Rightarrow> merge_state \<Rightarrow> provider_error + merge_state" where
  "add_env_providers [] s = Inr s"
| "add_env_providers (p # ps) s =
     (if map_of (mg_sources s) (pd_name p) \<noteq> None then add_env_providers ps s
      else and_then (add_provider ''PROVIDERS_CONFIG env'' p s) (add_env_providers ps))"

definition workspace_providers :: "resolved_agent list \<Rightarrow> (resolved_agent \<times> provider_decl) list" where
  "workspace_providers agents = concat (map (\<lambda>a. map (Pair a) (rcf_providers (ra_config a))) agents)"

definition merge_providers ::
  "provider_decl list \<Rightarrow> resolved_agent list \<Rightarrow> provider_decl list \<Rightarrow> string option \<Rightarrow> provider_error + provider_decl list" where
  "merge_providers env agents system url =
     and_then (add_workspace_providers url (workspace_providers agents) \<lparr>mg_merged = [], mg_sources = []\<rparr>) (\<lambda>s1.
       and_then (add_system_providers system s1) (\<lambda>s2.
         and_then (add_env_providers env s2) (\<lambda>s3. Inr (mg_merged s3))))"

text \<open>The providers of the bundled builder agent; her runner is inherited from the first candidate that
  has one of the command-line kind.\<close>

fun find_inheritable :: "provider_decl list \<Rightarrow> (string option \<times> string option) option" where
  "find_inheritable [] = None"
| "find_inheritable (p # ps) =
     (case pd_runner p of
        Some (Claude_cli_config d b prompt s) \<Rightarrow> Some (b, prompt)
      | _ \<Rightarrow> find_inheritable ps)"

definition builder_runner :: "string \<Rightarrow> string option \<times> string option \<Rightarrow> runner_config" where
  "builder_runner config_dir inherited =
     Claude_cli_config (Some (node_join (node_join (node_dirname config_dir) ''system-agents'') ''builder''))
       (fst inherited) (snd inherited) (Some Per_dispatch_directory)"

definition builder_provider :: "string \<Rightarrow> string \<Rightarrow> string \<Rightarrow> runner_config \<Rightarrow> provider_decl" where
  "builder_provider name route token runner =
     \<lparr>pd_name = name, pd_runner = Some runner, pd_transport = Webhook_transport route Bearer (Some token) None None\<rparr>"

definition build_system_agent_providers :: "string option \<Rightarrow> string \<Rightarrow> provider_decl list \<Rightarrow> provider_decl list" where
  "build_system_agent_providers token config_dir decls =
     (if falsy_text token then []
      else case find_inheritable decls of
             None \<Rightarrow> []
           | Some i \<Rightarrow>
               [builder_provider ''builder-dispatch'' ''/webhooks/system/builder'' (the token) (builder_runner config_dir i),
                builder_provider ''builder-callback'' ''/webhooks/builder-callback'' (the token) (builder_runner config_dir i)])"

section \<open>What a successful merge promises\<close>

definition merge_inv :: "merge_state \<Rightarrow> bool" where
  "merge_inv s \<longleftrightarrow> distinct (map pd_name (mg_merged s)) \<and> list_all (\<lambda>p. validate_provider_invariants p = None) (mg_merged s) \<and>
     (\<forall>n. map_of (mg_sources s) n = None \<longleftrightarrow> n \<notin> pd_name ` set (mg_merged s))"

lemma merge_inv_known: "merge_inv s \<Longrightarrow> map_of (mg_sources s) n = None \<longleftrightarrow> n \<notin> pd_name ` set (mg_merged s)"
  unfolding merge_inv_def by (elim conjE) (erule spec)

lemma added_provider:
  assumes "add_provider source p s = Inr s'" and "merge_inv s"
  shows "mg_merged s' = mg_merged s @ [p] \<and> merge_inv s'"
proof -
  have none: "map_of (mg_sources s) (pd_name p) = None" and valid: "validate_provider_invariants p = None"
    and s': "s' = \<lparr>mg_merged = mg_merged s @ [p], mg_sources = AList.update (pd_name p) source (mg_sources s)\<rparr>"
    using assms(1) by (auto simp: add_provider_def split: option.splits)
  have dom: "map_of (mg_sources s) n = None \<longleftrightarrow> n \<notin> pd_name ` set (mg_merged s)" for n
    by (rule merge_inv_known[OF assms(2)])
  have "map_of (mg_sources s') n = None \<longleftrightarrow> n \<notin> pd_name ` set (mg_merged s')" for n
    using dom[of n] by (simp add: s' update_conv')
  then show ?thesis using assms(2) dom[of "pd_name p"] none valid by (simp add: merge_inv_def s')
qed

lemma added_workspace_providers:
  assumes "add_workspace_providers url aps s = Inr s'" and "merge_inv s"
  shows "\<exists>ws. list_all2 (\<lambda>(a, p) p'. hydrate_workspace_provider (ra_dir a) url p = Inr p') aps ws \<and>
    mg_merged s' = mg_merged s @ ws \<and> merge_inv s'"
  using assms
proof (induction aps arbitrary: s)
  case (Cons ap aps)
  obtain a p where ap: "ap = (a, p)" by (cases ap) auto
  obtain p' s1 where p': "hydrate_workspace_provider (ra_dir a) url p = Inr p'"
      and s1: "add_provider (''workspace '' @ quoted (ra_name a)) p' s = Inr s1"
      and rest: "add_workspace_providers url aps s1 = Inr s'"
    using Cons.prems(1) ap by (auto simp: and_then_Inr)
  note one = added_provider[OF s1 Cons.prems(2)]
  then obtain ws where "list_all2 (\<lambda>(a, p) p'. hydrate_workspace_provider (ra_dir a) url p = Inr p') aps ws"
      "mg_merged s' = mg_merged s1 @ ws" "merge_inv s'" using Cons.IH[OF rest] by blast
  then show ?case using one p' ap by (intro exI[of _ "p' # ws"]) simp
qed simp

lemma added_system_providers:
  "add_system_providers ps s = Inr s' \<Longrightarrow> merge_inv s \<Longrightarrow> mg_merged s' = mg_merged s @ ps \<and> merge_inv s'"
proof (induction ps arbitrary: s)
  case (Cons p ps)
  then obtain s1 where "add_provider ''system-agent'' p s = Inr s1" "add_system_providers ps s1 = Inr s'"
    by (auto simp: and_then_Inr)
  then show ?case using Cons added_provider by fastforce
qed simp

lemma added_env_providers:
  "add_env_providers ps s = Inr s' \<Longrightarrow> merge_inv s \<Longrightarrow>
   \<exists>es. mg_merged s' = mg_merged s @ es \<and> set es \<subseteq> set ps \<and> pd_name ` set ps \<subseteq> pd_name ` set (mg_merged s') \<and> merge_inv s'"
proof (induction ps arbitrary: s)
  case (Cons p ps)
  show ?case
  proof (cases "map_of (mg_sources s) (pd_name p) = None")
    case True
    then obtain s1 where s1: "add_provider ''PROVIDERS_CONFIG env'' p s = Inr s1" "add_env_providers ps s1 = Inr s'"
      using Cons.prems(1) by (auto simp: and_then_Inr)
    note one = added_provider[OF s1(1) Cons.prems(2)]
    then obtain es where "mg_merged s' = mg_merged s1 @ es" "set es \<subseteq> set ps"
        "pd_name ` set ps \<subseteq> pd_name ` set (mg_merged s')" "merge_inv s'" using Cons.IH[OF s1(2)] by blast
    then show ?thesis using one by (intro exI[of _ "p # es"]) auto
  next
    case False
    then have "add_env_providers ps s = Inr s'" using Cons.prems(1) by simp
    from Cons.IH[OF this Cons.prems(2)] obtain es where es: "mg_merged s' = mg_merged s @ es \<and> set es \<subseteq> set ps \<and>
        pd_name ` set ps \<subseteq> pd_name ` set (mg_merged s') \<and> merge_inv s'" by (rule exE)
    moreover have "pd_name p \<in> pd_name ` set (mg_merged s)" using False merge_inv_known[OF Cons.prems(2)] by (rule_tac ccontr) simp
    ultimately have "pd_name ` set (p # ps) \<subseteq> pd_name ` set (mg_merged s')" using es by auto
    then show ?thesis using es by (intro exI[of _ es]) auto
  qed
qed simp

lemma hydrated_oidc:
  assumes "hydrate_workspace_provider dir url p = Inr p'" and "pd_transport p' = Webhook_transport route Oidc secret key (Some oidc)"
  shows "resolve_config (Some oidc) \<noteq> None"
proof -
  obtain r sig k h o' where t: "pd_transport p = Webhook_transport r sig k h o'"
  proof (cases "pd_transport p")
    case (Socket_transport x y)
    have "p' = p\<lparr>pd_runner := hydrate_runner dir (pd_runner p)\<rparr>"
      using assms(1) Socket_transport by (simp add: hydrate_workspace_provider_def Let_def)
    then show ?thesis using assms(2) Socket_transport by simp
  qed blast
  show ?thesis
  proof (cases "sig = Oidc \<and> o' \<noteq> None \<and> os_audience (the o') = None")
    case True
    then obtain u where "url = Some u" using assms(1) t by (cases url) (simp_all add: hydrate_workspace_provider_def Let_def)
    then show ?thesis using assms t True by (auto simp: hydrate_workspace_provider_def resolve_config_def Let_def)
  next
    case False
    then have "p' = p\<lparr>pd_runner := hydrate_runner dir (pd_runner p)\<rparr>"
      using assms(1) t by (auto simp: hydrate_workspace_provider_def Let_def)
    then have "sig = Oidc" "o' = Some oidc" using assms(2) t by simp_all
    then show ?thesis using False by (auto simp: resolve_config_def)
  qed
qed

text \<open>C24: The merged list of inbound providers has no name twice, every entry passes the invariants of
  its transport, and it is the workspaces' providers, hydrated, then the system agents', then the
  environment's whose name was still free, none of them lost; a workspace provider that verifies
  OIDC tokens has an audience to verify them against.\<close>

theorem merged_providers_sound:
  assumes "merge_providers env agents system url = Inr ps"
  shows "distinct (map pd_name ps) \<and> list_all (\<lambda>p. validate_provider_invariants p = None) ps \<and>
    (\<exists>ws es. list_all2 (\<lambda>(a, p) p'. hydrate_workspace_provider (ra_dir a) url p = Inr p') (workspace_providers agents) ws \<and>
       ps = ws @ system @ es \<and> set es \<subseteq> set env \<and> pd_name ` set env \<subseteq> pd_name ` set ps \<and>
       (\<forall>p\<in>set ws. \<forall>route secret key oidc. pd_transport p = Webhook_transport route Oidc secret key oidc \<longrightarrow>
          resolve_config oidc \<noteq> None))"
proof -
  let ?s0 = "\<lparr>mg_merged = [], mg_sources = []\<rparr>"
  obtain s1 s2 s3 where s1: "add_workspace_providers url (workspace_providers agents) ?s0 = Inr s1"
      and s2: "add_system_providers system s1 = Inr s2" and s3: "add_env_providers env s2 = Inr s3" and ps: "ps = mg_merged s3"
    using assms by (auto simp: merge_providers_def and_then_Inr)
  have "merge_inv ?s0" by (simp add: merge_inv_def)
  from added_workspace_providers[OF s1 this] obtain ws where
    ws: "list_all2 (\<lambda>(a, p) p'. hydrate_workspace_provider (ra_dir a) url p = Inr p') (workspace_providers agents) ws"
      "mg_merged s1 = ws" "merge_inv s1" by auto
  from added_system_providers[OF s2 ws(3)] ws(2) have two: "mg_merged s2 = ws @ system" "merge_inv s2" by auto
  from added_env_providers[OF s3 two(2)] two(1) obtain es where
    es: "ps = ws @ system @ es" "set es \<subseteq> set env" "pd_name ` set env \<subseteq> pd_name ` set ps" "merge_inv s3"
    unfolding ps by auto
  have "resolve_config oidc \<noteq> None"
    if p: "p \<in> set ws" "pd_transport p = Webhook_transport route Oidc secret key oidc" for p route secret key oidc
  proof -
    obtain i where i: "i < length ws" "ws ! i = p" using p(1) by (auto simp: in_set_conv_nth)
    obtain a q where "workspace_providers agents ! i = (a, q)" by (cases "workspace_providers agents ! i") auto
    then have "hydrate_workspace_provider (ra_dir a) url q = Inr p"
      using list_all2_nthD2[OF ws(1) i(1)] i(2) by simp
    moreover have "validate_provider_invariants p = None"
      using es(4) p(1) unfolding merge_inv_def list_all_iff ps[symmetric] es(1) by auto
    then obtain o' where "oidc = Some o'" using p(2) by (cases oidc) (auto simp: validate_provider_invariants_def)
    ultimately show ?thesis using hydrated_oidc p(2) by blast
  qed
  then have audiences: "\<forall>p\<in>set ws. \<forall>route secret key oidc. pd_transport p = Webhook_transport route Oidc secret key oidc \<longrightarrow>
      resolve_config oidc \<noteq> None" by blast
  have "distinct (map pd_name ps) \<and> list_all (\<lambda>p. validate_provider_invariants p = None) ps"
    using es(4) unfolding merge_inv_def ps[symmetric] by blast
  then show ?thesis using ws(1) es(1-3) audiences by (intro conjI exI[of _ ws] exI[of _ es]) simp_all
qed

section \<open>What a successful load promises\<close>

definition agent_sound :: "load_world \<Rightarrow> resolved_agent \<Rightarrow> bool" where
  "agent_sound w a \<longleftrightarrow> lw_config w (ra_dir a) = Inr (ra_config a) \<and>
     check_agent w (ra_config a) = None \<and> run_workspace_audit w (ra_dir a) = None"

lemma loaded_entry:
  assumes "load_entry w config_dir e s = Inr s'"
  shows "ae_name e \<notin> set (ls_seen s) \<and> ls_seen s' = ls_seen s @ [ae_name e] \<and>
    (\<exists>a. ls_agents s' = ls_agents s @ [a] \<and> ra_name a = ae_name e \<and> agent_sound w a)"
proof -
  let ?s = "s\<lparr>ls_seen := ls_seen s @ [ae_name e]\<rparr>"
  obtain clone s1 where s1: "ensure_clone w config_dir e ?s = Inr (clone, s1)"
    using assms by (auto simp: load_entry_def and_then_Inr split: if_splits)
  then have "ls_seen s1 = ls_seen ?s \<and> ls_agents s1 = ls_agents ?s"
    by (auto simp: ensure_clone_def run_git_def Let_def and_then_Inr split: option.splits)
  moreover obtain s2 where s2: "ensure_shared_tools w clone e s1 = Inr s2"
    using assms s1 by (auto simp: load_entry_def and_then_Inr split: if_splits)
  then have "ls_seen s2 = ls_seen s1 \<and> ls_agents s2 = ls_agents s1"
    by (auto simp: ensure_shared_tools_def run_git_def and_then_Inr split: option.splits if_splits)
  ultimately have kept: "ls_seen s2 = ls_seen s @ [ae_name e]" "ls_agents s2 = ls_agents s" by simp_all
  let ?dir = "case ae_path e of None \<Rightarrow> clone | Some p \<Rightarrow> node_join clone p"
  have new: "ae_name e \<notin> set (ls_seen s)" using assms by (auto simp: load_entry_def)
  have load: "(case lw_config w ?dir of
          Inl m \<Rightarrow> Inl (Config_unreadable m)
        | Inr c \<Rightarrow>
            (case check_agent w c of
               Some err \<Rightarrow> Inl err
             | None \<Rightarrow>
                 and_then (validate_tools_config w (ae_name e) ?dir (routed_rules c) (ls_catalog s2)) (\<lambda>g.
                   case run_workspace_audit w ?dir of
                     Some err \<Rightarrow> Inl err
                   | None \<Rightarrow> Inr (s2\<lparr>ls_catalog := g,
                       ls_agents := ls_agents s2 @ [\<lparr>ra_name = ae_name e, ra_dir = ?dir, ra_config = c\<rparr>]\<rparr>)))) = Inr s'"
    using assms new s1 s2 by (simp add: load_entry_def Let_def)
  obtain c where c: "lw_config w ?dir = Inr c" using load by (cases "lw_config w ?dir") simp_all
  have ok: "check_agent w c = None" using load c by (cases "check_agent w c") simp_all
  obtain g where g: "validate_tools_config w (ae_name e) ?dir (routed_rules c) (ls_catalog s2) = Inr g"
    using load c ok by (auto simp: and_then_Inr)
  have audit: "run_workspace_audit w ?dir = None"
    using load c ok g by (cases "run_workspace_audit w ?dir") simp_all
  have s': "s' = s2\<lparr>ls_catalog := g, ls_agents := ls_agents s2 @ [\<lparr>ra_name = ae_name e, ra_dir = ?dir, ra_config = c\<rparr>]\<rparr>"
    using load c ok g audit by simp
  show ?thesis using new kept c ok audit unfolding s' by (simp add: agent_sound_def)
qed

lemma loaded_entries:
  "load_entries w config_dir es s = Inr s' \<Longrightarrow> distinct (ls_seen s) \<Longrightarrow> ls_seen s = map ra_name (ls_agents s) \<Longrightarrow>
   list_all (agent_sound w) (ls_agents s) \<Longrightarrow>
   map ra_name (ls_agents s') = map ra_name (ls_agents s) @ map ae_name es \<and> distinct (map ra_name (ls_agents s')) \<and>
   list_all (agent_sound w) (ls_agents s')"
proof (induction es arbitrary: s)
  case (Cons e es)
  then obtain s1 where s1: "load_entry w config_dir e s = Inr s1" and rest: "load_entries w config_dir es s1 = Inr s'"
    by (auto simp: and_then_Inr)
  from loaded_entry[OF s1] obtain a where a: "ae_name e \<notin> set (ls_seen s)" "ls_seen s1 = ls_seen s @ [ae_name e]"
      "ls_agents s1 = ls_agents s @ [a]" "ra_name a = ae_name e" "agent_sound w a" by blast
  have "map ra_name (ls_agents s') = map ra_name (ls_agents s1) @ map ae_name es \<and> distinct (map ra_name (ls_agents s')) \<and>
      list_all (agent_sound w) (ls_agents s')"
    by (rule Cons.IH[OF rest]) (use a Cons.prems in simp_all)
  moreover have "map ra_name (ls_agents s1) = map ra_name (ls_agents s) @ [ae_name e]" using a by simp
  ultimately show ?case by (metis append.assoc append_Cons append_Nil list.map(2))
qed simp

lemma owners_unique:
  "check_namespace_owners ps seen = None \<Longrightarrow> (n, a) \<in> set ps \<Longrightarrow> map_of seen n = Some b \<Longrightarrow> a = b"
proof (induction ps seen rule: check_namespace_owners.induct)
  case (2 m c ps seen)
  then show ?case by (cases "m = n") (auto simp: update_conv' split: option.splits if_splits)
qed simp

lemma owners_agree:
  "check_namespace_owners ps seen = None \<Longrightarrow> (n, a) \<in> set ps \<Longrightarrow> (n, b) \<in> set ps \<Longrightarrow> a = b"
proof (induction ps seen rule: check_namespace_owners.induct)
  case (2 m c ps seen)
  have rest: "check_namespace_owners ps (AList.update m c seen) = None"
    using "2.prems"(1) by (auto split: option.splits if_splits)
  have fixed: "x = c" if "(m, x) \<in> set ps" for x
    using owners_unique[OF rest that] by (simp add: update_conv')
  consider "map_of seen m = None" | d where "map_of seen m = Some d" by (cases "map_of seen m") auto
  then show ?case
    using "2.IH" "2.prems" fixed by cases (auto split: if_splits)
qed simp

lemma declared_in: "a \<in> set agents \<Longrightarrow> (n, p) \<in> set (namespaces_of (ra_config a)) \<Longrightarrow> (n, ra_name a) \<in> set (declared_namespaces agents)"
  by (force simp: declared_namespaces_def)

lemma checked_rule_namespace:
  "check_rule_namespaces ns rs = None \<Longrightarrow> (p, r) \<in> set rs \<Longrightarrow> rule_memory r = Some (n, x) \<Longrightarrow> n \<in> fst ` set ns"
  by (induction ns rs rule: check_rule_namespaces.induct) (auto split: option.splits if_splits)

lemma checked_session:
  "check_sessions w rs = None \<Longrightarrow> (p, r) \<in> set rs \<Longrightarrow> rule_session r = Some s \<Longrightarrow> p \<noteq> ''schedule'' \<and> s \<in> set (lw_strategies w)"
  by (induction w rs rule: check_sessions.induct) (auto split: option.splits if_splits)

lemma checked_policy:
  "check_policies w ns = None \<Longrightarrow> (n, p) \<in> set ns \<Longrightarrow> np_embedding p \<in> set (lw_embeddings w) \<and> np_store p \<in> set (lw_stores w)"
  by (induction w ns rule: check_policies.induct) (auto split: if_splits)

lemma loaded_agents:
  assumes "load_agents w config_dir entries = Inr s"
  shows "map ra_name (ls_agents s) = map ae_name entries" and "distinct (map ra_name (ls_agents s))"
    and "list_all (agent_sound w) (ls_agents s)"
    and "check_namespace_owners (declared_namespaces (ls_agents s)) [] = None"
proof -
  have e: "load_entries w config_dir entries load_start = Inr s"
    and o: "check_namespace_owners (declared_namespaces (ls_agents s)) [] = None"
    using assms by (auto simp: load_agents_def and_then_Inr split: option.splits)
  have "map ra_name (ls_agents s) = map ra_name (ls_agents load_start) @ map ae_name entries \<and>
      distinct (map ra_name (ls_agents s)) \<and> list_all (agent_sound w) (ls_agents s)"
    by (rule loaded_entries[OF e]) (simp_all add: load_start_def)
  moreover have "map ra_name (ls_agents load_start) = []" by (simp add: load_start_def)
  ultimately show "map ra_name (ls_agents s) = map ae_name entries" "distinct (map ra_name (ls_agents s))"
      "list_all (agent_sound w) (ls_agents s)" by (simp only: append.simps, blast, blast)
  show "check_namespace_owners (declared_namespaces (ls_agents s)) [] = None" by (rule o)
qed

definition policy_config :: "string \<Rightarrow> namespace_policy \<Rightarrow> namespace_config" where
  "policy_config n p = \<lparr>nc_name = n, nc_embedding = np_embedding p, nc_store = np_store p, nc_prune_after = np_prune_after p,
     nc_max_stores = np_max_stores p\<rparr>"

definition memory_blocks :: "resolved_agent list \<Rightarrow> (string, namespace_policy) jsmap option list" where
  "memory_blocks agents = map (\<lambda>a. rcf_memory (ra_config a)) agents"

lemma collected: "c \<in> set (collect_namespaces (memory_blocks agents)) \<longleftrightarrow>
    (\<exists>a\<in>set agents. \<exists>(n, p)\<in>set (namespaces_of (ra_config a)). c = policy_config n p)"
  by (force simp: collect_namespaces_def memory_blocks_def namespaces_of_def policy_config_def split: option.splits)

text \<open>An agent that was loaded: its rules only refer to what was declared and registered, its audit has no
  error, and no other agent declares one of its namespaces.\<close>

theorem loaded_agents_consistent:
  assumes "load_agents w config_dir entries = Inr s" and "a \<in> set (ls_agents s)"
  shows "(\<forall>(p, r)\<in>set (routed_rules (ra_config a)).
      (\<forall>n x. rule_memory r = Some (n, x) \<longrightarrow> n \<in> fst ` set (namespaces_of (ra_config a))) \<and>
      (\<forall>k. rule_session r = Some k \<longrightarrow> p \<noteq> ''schedule'' \<and> k \<in> set (lw_strategies w))) \<and>
    (\<forall>(n, p)\<in>set (namespaces_of (ra_config a)). np_embedding p \<in> set (lw_embeddings w) \<and> np_store p \<in> set (lw_stores w)) \<and>
    list_all (\<lambda>f. \<not> fst f) (lw_audit w (ra_dir a)) \<and>
    (\<forall>b\<in>set (ls_agents s). fst ` set (namespaces_of (ra_config a)) \<inter> fst ` set (namespaces_of (ra_config b)) \<noteq> {} \<longrightarrow> b = a)"
proof -
  note la = loaded_agents[OF assms(1)]
  have sound: "agent_sound w a" using la(3) assms(2) by (simp add: list_all_iff)
  then have m: "check_policies w (namespaces_of (ra_config a)) = None"
      "check_rule_namespaces (namespaces_of (ra_config a)) (routed_rules (ra_config a)) = None"
      "check_sessions w (routed_rules (ra_config a)) = None"
    by (auto simp: agent_sound_def check_agent_def validate_memory_config_def validate_session_config_def split: option.splits)
  have audit: "list_all (\<lambda>f. \<not> fst f) (lw_audit w (ra_dir a))"
    using sound by (auto simp: agent_sound_def run_workspace_audit_def list_all_iff filter_empty_conv Let_def split: if_splits)
  have "b = a" if b: "b \<in> set (ls_agents s)" "n \<in> fst ` set (namespaces_of (ra_config a))" "n \<in> fst ` set (namespaces_of (ra_config b))" for b n
  proof -
    have "(n, ra_name a) \<in> set (declared_namespaces (ls_agents s))" "(n, ra_name b) \<in> set (declared_namespaces (ls_agents s))"
      using b assms(2) by (auto intro: declared_in)
    then have "ra_name a = ra_name b" by (rule owners_agree[OF la(4)])
    then show ?thesis using la(2) b(1) assms(2) by (metis distinct_map inj_onD)
  qed
  then have owners: "\<forall>b\<in>set (ls_agents s).
      fst ` set (namespaces_of (ra_config a)) \<inter> fst ` set (namespaces_of (ra_config b)) \<noteq> {} \<longrightarrow> b = a" by blast
  have "\<forall>(p, r)\<in>set (routed_rules (ra_config a)).
      (\<forall>n x. rule_memory r = Some (n, x) \<longrightarrow> n \<in> fst ` set (namespaces_of (ra_config a))) \<and>
      (\<forall>k. rule_session r = Some k \<longrightarrow> p \<noteq> ''schedule'' \<and> k \<in> set (lw_strategies w))"
    using checked_rule_namespace[OF m(2)] checked_session[OF m(3)] by (intro ballI) (clarsimp split: prod.splits)
  moreover have "\<forall>(n, p)\<in>set (namespaces_of (ra_config a)). np_embedding p \<in> set (lw_embeddings w) \<and> np_store p \<in> set (lw_stores w)"
    using checked_policy[OF m(1)] by (intro ballI) (clarsimp split: prod.splits)
  ultimately show ?thesis using audit owners by (intro conjI)
qed

lemma find_only:
  assumes "c \<in> set cs" and "P c" and "\<And>d. d \<in> set cs \<Longrightarrow> P d \<Longrightarrow> d = c"
  shows "find P cs = Some c"
proof -
  obtain d where d: "find P cs = Some d" using assms(1,2) by (cases "find P cs") (auto simp: find_None_iff)
  then have "d \<in> set cs" "P d" by (auto simp: find_Some_iff)
  then show ?thesis using d assms(3) by simp
qed

text \<open>C23: Once the agents are loaded and the memory service is started from them, every rule that names a
  memory namespace finds it in the service, with the policy its own agent declared: no other agent's
  declaration can have replaced it.\<close>

theorem rule_memory_served:
  assumes "load_agents w config_dir entries = Inr s"
    and "\<forall>d c. lw_config w d = Inr c \<longrightarrow> distinct (map fst (namespaces_of c))"
    and "bootstrap_memory (memory_blocks (ls_agents s)) has_key stores redis b = Inr (ncs, svc)"
    and "a \<in> set (ls_agents s)" and "(p, r) \<in> set (routed_rules (ra_config a))" and "rule_memory r = Some (n, x)"
  shows "\<exists>pol. map_of (namespaces_of (ra_config a)) n = Some pol \<and> map_of (sv_namespaces svc) n = Some (policy_config n pol)"
proof -
  note consistent = loaded_agents_consistent[OF assms(1)]
  have ns_distinct: "distinct (map fst (namespaces_of (ra_config c)))" if "c \<in> set (ls_agents s)" for c
    using loaded_agents(3)[OF assms(1)] that assms(2) by (auto simp: list_all_iff agent_sound_def)
  have "n \<in> fst ` set (namespaces_of (ra_config a))" using consistent[OF assms(4)] assms(5,6) by blast
  then obtain pol where pol: "(n, pol) \<in> set (namespaces_of (ra_config a))" by auto
  have ncs: "ncs = collect_namespaces (memory_blocks (ls_agents s))"
    using assms(3) by (auto simp: bootstrap_memory_def Let_def split: if_splits)
  have mem: "policy_config n pol \<in> set ncs" unfolding ncs collected using assms(4) pol by blast
  have only: "d = policy_config n pol" if d: "d \<in> set ncs" "nc_name d = n" for d
  proof -
    obtain c m q where c: "c \<in> set (ls_agents s)" "(m, q) \<in> set (namespaces_of (ra_config c))" "d = policy_config m q"
      using d(1) unfolding ncs collected by blast
    then have "m = n" using d(2) by (simp add: policy_config_def)
    then have "fst ` set (namespaces_of (ra_config a)) \<inter> fst ` set (namespaces_of (ra_config c)) \<noteq> {}" using pol c(2) by force
    then have "c = a" using consistent[OF assms(4)] c(1) by blast
    then have "q = pol" using eq_key_imp_eq_value[OF ns_distinct[OF assms(4)]] pol c(2) \<open>m = n\<close> by blast
    then show ?thesis using c(3) \<open>m = n\<close> by simp
  qed
  have "find (\<lambda>c. nc_name c = n) (rev ncs) = Some (policy_config n pol)"
  proof (rule find_only)
    show "policy_config n pol \<in> set (rev ncs)" using mem by simp
    show "nc_name (policy_config n pol) = n" by (simp add: policy_config_def)
    show "d = policy_config n pol" if "d \<in> set (rev ncs)" "nc_name d = n" for d using only that by simp
  qed
  moreover obtain stores' where "svc = new_memory_service ncs stores' b"
    using assms(3) ncs mem by (auto simp: bootstrap_memory_def Let_def split: if_splits)
  ultimately have "map_of (sv_namespaces svc) n = Some (policy_config n pol)" by (simp add: last_namespace_wins)
  moreover have "map_of (namespaces_of (ra_config a)) n = Some pol" using ns_distinct[OF assms(4)] pol by simp
  ultimately show ?thesis by blast
qed

section \<open>Examples\<close>

definition example_memory_rule :: agent_rule where
  "example_memory_rule = example_schedule_rule\<lparr>rule_cron := None, rule_memory := Some (''notes'', None)\<rparr>"

definition example_provider :: provider_decl where
  "example_provider = \<lparr>pd_name = ''gmail'', pd_runner = Some (Claude_cli_config None None None None),
     pd_transport = Webhook_transport ''hooks/gmail'' Oidc None None
       (Some \<lparr>os_audience = None, os_issuers = None, os_service_account = None, os_jwks_uri = None\<rparr>)\<rparr>"

definition example_settings :: agent_settings where
  "example_settings = \<lparr>rcf_routing = [(''gmail'', [example_memory_rule])], rcf_model_rules = [],
     rcf_memory = Some [(''notes'', \<lparr>np_embedding = ''null'', np_store = ''memory'', np_prune_after = 5, np_max_stores = 2\<rparr>)],
     rcf_providers = [example_provider]\<rparr>"

definition example_load_world :: load_world where
  "example_load_world = \<lparr>lw_git = \<lambda>c. None, lw_config = \<lambda>d. if d = ''/c/acme__agents/patch'' then Inr example_settings else Inl d,
     lw_audit = \<lambda>d. [(False, ''nudge'')], lw_embeddings = [''null''], lw_stores = [''memory''], lw_strategies = [''slack''],
     lw_tools = example_tool_world, lw_manager = example_tool_manager\<rparr>"

definition example_entry :: agent_entry where
  "example_entry = \<lparr>ae_name = ''patch'', ae_repo = ''git@github.com:acme/agents.git'', ae_path = Some ''patch'', ae_ref = None,
     ae_shared = Some \<lparr>sh_repo = ''r'', sh_ref = ''v1'', sh_path = ''agency-tools''\<rparr>\<rparr>"

definition example_agent :: resolved_agent where
  "example_agent = \<lparr>ra_name = ''patch'', ra_dir = ''/c/acme__agents/patch'', ra_config = example_settings\<rparr>"

definition example_loaded :: load_state where
  "example_loaded = \<lparr>ls_git = [Clone_or_pull ''git@github.com:acme/agents.git'' ''/c/acme__agents'' None,
       Clone_pinned ''r'' ''/c/acme__agents/agency-tools'' ''v1''],
     ls_clones = [(''git@github.com:acme/agents.git'', ''/c/acme__agents'')],
     ls_shared = [(''git@github.com:acme/agents.git'', \<lparr>sh_repo = ''r'', sh_ref = ''v1'', sh_path = ''agency-tools''\<rparr>)],
     ls_seen = [''patch''], ls_catalog = empty_catalog, ls_agents = [example_agent]\<rparr>"

lemma example_loads: "load_agents example_load_world ''/c'' [example_entry] = Inr example_loaded"
  by code_simp

theorem rule_memory_served_witness:
  "\<exists>pol. map_of (namespaces_of example_settings) ''notes'' = Some pol \<and>
     map_of (sv_namespaces (new_memory_service [policy_config ''notes'' \<lparr>np_embedding = ''null'', np_store = ''memory'',
       np_prune_after = 5, np_max_stores = 2\<rparr>] ([] :: (string, unit) jsmap) (new_bus None None))) ''notes'' = Some (policy_config ''notes'' pol)"
proof -
  have cfg: "\<forall>d c. lw_config example_load_world d = Inr c \<longrightarrow> distinct (map fst (namespaces_of c))"
    by (simp add: example_load_world_def example_settings_def namespaces_of_def)
  have boot: "bootstrap_memory (memory_blocks (ls_agents example_loaded)) (\<lambda>k. False) ([] :: (string, unit) jsmap) () (new_bus None None) =
      Inr ([policy_config ''notes'' \<lparr>np_embedding = ''null'', np_store = ''memory'', np_prune_after = 5, np_max_stores = 2\<rparr>],
        new_memory_service [policy_config ''notes'' \<lparr>np_embedding = ''null'', np_store = ''memory'', np_prune_after = 5, np_max_stores = 2\<rparr>]
          [] (new_bus None None))"
    by (simp add: bootstrap_memory_def collect_namespaces_def memory_blocks_def example_loaded_def example_agent_def
        example_settings_def policy_config_def Let_def)
  have a: "example_agent \<in> set (ls_agents example_loaded)" by (simp add: example_loaded_def)
  have r: "(''gmail'', example_memory_rule) \<in> set (routed_rules (ra_config example_agent))"
    by (simp add: routed_rules_def example_agent_def example_settings_def)
  have m: "rule_memory example_memory_rule = Some (''notes'', None)" by (simp add: example_memory_rule_def)
  show ?thesis using rule_memory_served[OF example_loads cfg boot a r m] by (simp add: example_agent_def)
qed

theorem merged_providers_sound_witness:
  "distinct (map pd_name [example_provider\<lparr>pd_runner := Some (Claude_cli_config (Some ''/c/acme__agents/patch'') None None None),
     pd_transport := Webhook_transport ''hooks/gmail'' Oidc None None (Some \<lparr>os_audience = Some ''https://h/hooks/gmail'',
       os_issuers = None, os_service_account = None, os_jwks_uri = None\<rparr>)\<rparr>])"
proof -
  have "merge_providers [example_provider] [example_agent] [] (Some ''https://h/'') =
      Inr [example_provider\<lparr>pd_runner := Some (Claude_cli_config (Some ''/c/acme__agents/patch'') None None None),
     pd_transport := Webhook_transport ''hooks/gmail'' Oidc None None (Some \<lparr>os_audience = Some ''https://h/hooks/gmail'',
       os_issuers = None, os_service_account = None, os_jwks_uri = None\<rparr>)\<rparr>]"
    by code_simp
  from merged_providers_sound[OF this] show ?thesis by blast
qed

text \<open>Repositories of the same owner and name on two hosts get the same directory, so the second agent is
  loaded from the first one's clone.\<close>

lemma slug_collides:
  "slugify_repo_url ''git@github.com:acme/agents.git'' = slugify_repo_url ''https://gitlab.com/acme/agents.git''"
  by code_simp

text \<open>The first agent of a repository decides the branch: the \<open>ref\<close> of a second one is not looked at.\<close>

lemma second_ref_ignored:
  assumes "map_of (ls_clones s) (ae_repo e) = Some dir"
  shows "ensure_clone w config_dir e s = Inr (dir, s)"
  using assms by (simp add: ensure_clone_def)

text \<open>An OIDC provider of the environment passes the invariants without an audience and then has no
  configuration to verify tokens with: only workspace providers are hydrated.\<close>

lemma env_oidc_unusable:
  "merge_providers [example_provider] [] [] (Some ''https://h'') = Inr [example_provider]"
  "resolve_config (Some \<lparr>os_audience = None, os_issuers = None, os_service_account = None, os_jwks_uri = None\<rparr>) = None"
  by code_simp+

text \<open>A name twice in the environment is no error: the second entry is dropped as shadowed.\<close>

lemma env_duplicate_dropped:
  "merge_providers [example_provider, example_provider\<lparr>pd_runner := None\<rparr>] [] [] None = Inr [example_provider]"
  by code_simp

end
