(* ===== verification/Access.thy ===== *)
theory Access
  imports Ingest
begin

text \<open>
  Who reaches which HTTP surface: the bearer gate of the agent routes
  (\<open>middleware/bearer-auth.middleware.ts\<close>), the identity gate of the editor routes
  (\<open>middleware/tailscale-identity.middleware.ts\<close>) with its allowlist, the routes and their gates
  (\<open>routes/\<close>), and the builder's deploy signal with its store of seen events
  (\<open>system-agents/builder/deploy-complete.controller.ts\<close>, \<open>callback-dedupe.ts\<close>).
\<close>

section \<open>Gates\<close>

text \<open>\<open>None\<close> passes the request on, \<open>Some status\<close> answers it.\<close>

definition require_agent_bearer :: "string option \<Rightarrow> request \<Rightarrow> nat option" where
  "require_agent_bearer expected r =
     (case expected of
        None \<Rightarrow> Some 401
      | Some [] \<Rightarrow> Some 401
      | Some token \<Rightarrow>
          (case get_string_header r ''authorization'' of
             None \<Rightarrow> Some 401
           | Some h \<Rightarrow>
               if \<not> prefix ''Bearer '' h then Some 401
               else if drop 7 h \<noteq> token then Some 401 else None))"

record tailscale_identity =
  ti_login :: string
  ti_name :: string
  ti_picture :: "string option"

definition normalize_email :: "string \<Rightarrow> string" where
  "normalize_email s = map lower_char (trim s)"

definition optional_picture :: "string option \<Rightarrow> string option" where
  "optional_picture v = (case v of Some (c # cs) \<Rightarrow> Some (c # cs) | _ \<Rightarrow> None)"

definition check_tailscale_identity :: "string list option \<Rightarrow> request \<Rightarrow> nat + tailscale_identity" where
  "check_tailscale_identity allowlist r =
     (case (get_string_header r ''tailscale-user-login'', get_string_header r ''tailscale-user-name'') of
        (Some (l # ls), Some (n # ns)) \<Rightarrow>
          if (case allowlist of None \<Rightarrow> False | Some emails \<Rightarrow> normalize_email (l # ls) \<notin> set (map normalize_email emails))
          then Inl 403
          else Inr \<lparr>ti_login = l # ls, ti_name = n # ns,
                 ti_picture = optional_picture (get_string_header r ''tailscale-user-profile-pic'')\<rparr>
      | _ \<Rightarrow> Inl 401)"

definition parse_allowlist :: "string option \<Rightarrow> string list option" where
  "parse_allowlist raw = map_option (\<lambda>s. filter (\<lambda>e. e \<noteq> []) (map trim (split_on CHR '','' s))) raw"

section \<open>Routes\<close>

datatype gate = Open_route | Bearer_gate | Editor_gate | Inline_bearer

datatype http_method = GET | POST | DELETE

definition memory_routes :: "(http_method \<times> string \<times> gate) list" where
  "memory_routes = [(POST, ''/api/memory/store'', Inline_bearer), (POST, ''/api/memory/search'', Inline_bearer),
     (DELETE, ''/api/memory/:id'', Inline_bearer)]"

definition entities_routes :: "(http_method \<times> string \<times> gate) list" where
  "entities_routes = map (\<lambda>(m, p). (m, ''/api/agents/:agent/entities'' @ p, Bearer_gate))
     [(GET, ''/''), (GET, ''/:id''), (POST, ''/''), (POST, ''/:id/relations''), (DELETE, ''/:id/relations/:type/:to''),
      (POST, ''/:id/purge''), (GET, ''/:id/audit'')]"

definition scheduled_tasks_routes :: "(http_method \<times> string \<times> gate) list" where
  "scheduled_tasks_routes = map (\<lambda>(m, p). (m, ''/api/scheduled-tasks'' @ p, Bearer_gate))
     [(GET, ''/''), (POST, ''/''), (POST, ''/agent-prompt''), (GET, ''/:id''), (DELETE, ''/:id'')]"

definition framework_routes :: "(http_method \<times> string \<times> gate) list" where
  "framework_routes =
     [(GET, ''/api/health'', Open_route), (GET, ''/api/events'', Open_route), (GET, ''/api/jobs/active'', Open_route),
      (GET, ''/api/webhooks/skipped/recent'', Open_route), (GET, ''/api/queue/snapshot'', Open_route),
      (GET, ''/api/tools/catalog'', Open_route), (GET, ''/api/agents/:agent/tools'', Open_route),
      (GET, ''/api/agents/:agent/context-schemas'', Open_route), (GET, ''/api/agents/:agent/operations.md'', Open_route),
      (GET, ''/api/schema/routing'', Editor_gate), (GET, ''/api/workspace/:agent'', Editor_gate),
      (GET, ''/api/workspace/:agent/template/*'', Editor_gate), (POST, ''/api/workspace/:agent/audit'', Editor_gate),
      (POST, ''/api/workspace/:agent/edit'', Editor_gate), (POST, ''/api/tasks'', Bearer_gate),
      (GET, ''/api/tasks/:agent/:taskId'', Bearer_gate), (GET, ''/api/tasks/:agent/:taskId/wait'', Bearer_gate)]
     @ memory_routes @ entities_routes
     @ [(GET, ''/api/agents/:agent/workspace/entity-model'', Editor_gate), (GET, ''/api/version'', Bearer_gate)]
     @ scheduled_tasks_routes
     @ [(POST, ''/webhooks/builder-deploy-complete'', Bearer_gate)]"

text \<open>The answer of a gate; the memory handlers check the same token themselves.\<close>

definition gate_answer :: "string option \<Rightarrow> string option \<Rightarrow> gate \<Rightarrow> request \<Rightarrow> nat option" where
  "gate_answer token allowlist g r =
     (case g of
        Open_route \<Rightarrow> None
      | Bearer_gate \<Rightarrow> require_agent_bearer token r
      | Inline_bearer \<Rightarrow> require_agent_bearer token r
      | Editor_gate \<Rightarrow> (case check_tailscale_identity (parse_allowlist allowlist) r of Inl s \<Rightarrow> Some s | Inr i \<Rightarrow> None))"

lemma bearer_admits:
  "require_agent_bearer token r = None \<longleftrightarrow>
   (\<exists>t. token = Some t \<and> t \<noteq> [] \<and> get_string_header r ''authorization'' = Some (''Bearer '' @ t))"
  by (auto simp: require_agent_bearer_def prefix_def split: option.splits list.splits)

lemma editor_admits:
  "(\<exists>i. check_tailscale_identity allowlist r = Inr i) \<longleftrightarrow>
   (\<exists>l n. get_string_header r ''tailscale-user-login'' = Some l \<and> l \<noteq> [] \<and>
      get_string_header r ''tailscale-user-name'' = Some n \<and> n \<noteq> [] \<and>
      (case allowlist of None \<Rightarrow> True | Some emails \<Rightarrow> normalize_email l \<in> normalize_email ` set emails))"
  by (auto simp: check_tailscale_identity_def split: option.splits list.splits if_splits)

text \<open>An allowlist variable without an address closes the editor surface.\<close>

lemma blank_allowlist_closes:
  assumes "\<forall>e\<in>set (split_on CHR '','' raw). trim e = []"
  shows "\<exists>status. check_tailscale_identity (parse_allowlist (Some raw)) r = Inl status"
proof -
  have "filter (\<lambda>e. e \<noteq> []) (map trim (split_on CHR '','' raw)) = []" using assms by (simp add: filter_empty_conv)
  then have "parse_allowlist (Some raw) = Some []" by (simp add: parse_allowlist_def)
  then have "\<not> (\<exists>i. check_tailscale_identity (parse_allowlist (Some raw)) r = Inr i)" unfolding editor_admits by simp
  then show ?thesis by (cases "check_tailscale_identity (parse_allowlist (Some raw)) r") auto
qed



section \<open>The deploy signal\<close>

record deploy_signal =
  ds_job :: string
  ds_ok :: bool
  ds_reason :: "string option"

fun parse_deploy_signal :: "json \<Rightarrow> deploy_signal option" where
  "parse_deploy_signal (JObj ps) =
     (case (required_string ps ''jobId'', map_of ps ''status'', optional_string ps ''reason'') of
        (Some j, Some (JStr st), Some r) \<Rightarrow>
          if (st = ''ok'' \<or> st = ''failed'') \<and> list_all (\<lambda>p. fst p \<in> {''jobId'', ''status'', ''reason''}) ps
          then Some \<lparr>ds_job = j, ds_ok = (st = ''ok''), ds_reason = r\<rparr> else None
      | _ \<Rightarrow> None)"
| "parse_deploy_signal _ = None"

definition deploy_state :: "deploy_signal \<Rightarrow> string" where
  "deploy_state d = (if ds_ok d then ''testable'' else ''failed'')"

definition save_callback_event :: "string \<Rightarrow> millis \<Rightarrow> dedup_store \<Rightarrow> bool \<times> dedup_store" where
  "save_callback_event event_id now d = set_nx_ex (''builder:callback:event:'' @ event_id) now (24 * 60 * 60) d"

datatype deploy_answer = Deploy_invalid | Deploy_duplicate | Deploy_accepted string

definition handle_deploy_complete :: "json \<Rightarrow> millis \<Rightarrow> dedup_store \<Rightarrow> deploy_answer \<times> dedup_store" where
  "handle_deploy_complete body now d =
     (case parse_deploy_signal body of
        None \<Rightarrow> (Deploy_invalid, d)
      | Some p \<Rightarrow>
          (case save_callback_event (ds_job p @ '':'' @ deploy_state p) now d of
             (first, d') \<Rightarrow> (if first then Deploy_accepted (deploy_state p) else Deploy_duplicate, d')))"

text \<open>Within a day of an accepted signal the same one is answered as a duplicate.\<close>

lemma deploy_recorded_once:
  assumes "handle_deploy_complete body now d = (Deploy_accepted st, d')" and "later < now + 86400000"
  shows "fst (handle_deploy_complete body later d') = Deploy_duplicate"
  using assms
  by (auto simp: handle_deploy_complete_def save_callback_event_def set_nx_ex_def holds_key_def update_conv'
      split: option.splits prod.splits if_splits)

end
