(* ===== verification/Spec2Isabelle.thy ===== *)
theory Spec2Isabelle
  imports Routing JobRegistries Inflight LibText Ingest SessionKey Worker ScheduledTasks Sessions EntityApi Webhook MemoryApi Tasks ShellRunner HttpRunners Tools Template StaticSchedules Boot Access
begin

text \<open>
  Verification of the core of clawndom, the service that receives webhooks, routes them to
  agents, queues them as jobs and runs them through model runners. Paths below are relative to
  the TypeScript root \<open>src/src/\<close> of the repository.

  \<^bold>\<open>The program.\<close> A provider posts a webhook. The controller verifies its signature over the raw
  body, answers challenges, gates builder dispatches by sender, and hands the payload to the
  ingest pipeline. Ingest asks the routing rules of the agents whether anybody wants the event,
  drops a duplicate seen within the dedup window, wraps the payload with its trace in an envelope
  and adds it to the provider's queue. A worker takes the job, resolves the rule again, builds the
  prompt from the rule's template, recalled memories and the handbook of the agent's entities, and
  runs it, in a pooled session when the event belongs to a conversation. The result settles the
  job, pauses it until a subscription limit resets, or leads to a retry with backoff. Agents may
  schedule further tasks, which a second worker runs. Every step publishes events on an
  in-process bus; four registries observe it, one of them kept in Redis so that a restart can
  find orphaned runs.

  \<^bold>\<open>Conventions.\<close> Strings are character lists, numbers integers, and a JavaScript object or \<open>Map\<close> is
  its association list in property order. A class with state is a record and each method a
  function from the state, its arguments and what it reads from the world (the clock, Redis,
  the network) to the new state and an answer; an exception is \<open>Inl\<close>, \<open>None\<close> or a constructor of
  an outcome type, as the definition says. Where the code awaits in the middle of an
  operation and another one can run in between, the operation is split there
  (Inflight, Sessions); elsewhere a method is one step. Runs are folds over lists of steps, so a
  statement over all runs is one over all lists.

  \<^bold>\<open>Theories, bottom up.\<close>
  \<^item> Prelude: JavaScript strings and maps, decimal numerals, bounded newest-first buffers, and the
    interfaces \<open>invariant_machine\<close> (a step function that keeps an invariant: it holds of every run,
    and of every state a run passes) and \<open>codec\<close> (a writer and a reader that undoes it). Json:
    \<open>JSON.stringify\<close> and \<open>JSON.parse\<close>, an instance of \<open>codec\<close>. Base64: the
    \<open>Buffer\<close> encodings, another instance. Extract: \<open>lib/extract.ts\<close> and
    \<open>strategies/routing/field-path.ts\<close> with prototype members. LibText: redaction of audit records,
    durations, rule ids, queue names.
  \<^item> Events, EventBus: \<open>types/clawndom-event.ts\<close> and \<open>services/event-bus.service.ts\<close>. The bus is its
    counter, its ring of retained envelopes and its subscribers with what each was handed. The
    lemmas characterise replay after an event id and the switch from replay to live delivery.
  \<^item> JobRegistries, Inflight: the observers of the bus, \<open>services/active-jobs-registry\<close>,
    \<open>recent-completions-registry\<close>, \<open>skipped-webhooks-registry\<close>, \<open>inflight-registry\<close> and
    \<open>orphan-reaper\<close> (all \<open>.service.ts\<close>). The Redis hashes of the inflight registry refine an abstract registry of
    records when handlers run to completion; the machine of interleaved handlers shows
    what is lost when they do not.
  \<^item> RunnerConfig, Routing: \<open>runners/types.ts\<close>, \<open>runners/registry.ts\<close>, and the rules:
    conditions (\<open>strategies/routing/condition.ts\<close>) and first-match resolution
    (\<open>strategies/routing/resolve.ts\<close>).
  \<^item> Ingest, Signature, Webhook: from the HTTP request to the queued job
    (\<open>strategies/context.ts\<close>, \<open>services/event-ingest.service.ts\<close>, \<open>strategies/signature.ts\<close>,
    \<open>strategies/oidc.ts\<close>, \<open>controllers/webhook.controller.ts\<close>, the transport mappings and the
    sender gate). The lemmas end in what a request must have carried for the queue to
    change, and in the dedup window.
  \<^item> SessionKey, Sessions: which conversation an event belongs to and the pool of warm
    subprocesses (\<open>services/session-pool.service.ts\<close>), with the invariant of its map, its waiters
    and its subprocess records.
  \<^item> Worker: \<open>services/worker.service.ts\<close> and \<open>services/worker-failure-handler.ts\<close>. A turn is a
    function of the job, the state and a \<open>world\<close> of answers; the lemmas say which events it
    publishes, that a job is settled or has one successor, and how retries end.
  \<^item> ScheduledTasks, Tasks: the registry of scheduled tasks over Redis and BullMQ commands
    (\<open>services/scheduled-tasks.service.ts\<close>), its HTTP handlers, and the worker of internal and
    scheduled tasks (\<open>services/task-worker.service.ts\<close>, \<open>services/task.service.ts\<close>). Index sets, caps,
    pages and the number of fires are invariants and folds over runs of operations.
  \<^item> StreamParser, CliRunner, ShellRunner, HttpRunners: the runners under \<open>runners/\<close>. Output arrives in
    chunks, timers and signals are actions, the result is the first one given. The lemmas show
    that the cutting into chunks does not matter, and which signals a child is sent.
  \<^item> Entities, EntityIdentity, EntityApi: the entity store with its audit log as three tables,
    identity resolution, mentions, the interaction log, and the HTTP surface
    (\<open>services/entities/\<close>, \<open>controllers/entities.controller.ts\<close>).
  \<^item> VectorStore, RedisVectorStore, Memory, MemoryApi: the locale \<open>vector_store\<close> is the contract of
    \<open>services/memory/vector-store/types.ts\<close>, a list of entries per namespace; both stores are
    interpretations of it. The memory service adds budgets, events and pruning.
  \<^item> Secrets: \<open>secrets/manager.ts\<close> over the interface of its providers.
  \<^item> StaticSchedules: the schedules of the configuration, their content hash
    (\<open>types/scheduled-task.ts\<close>) and registration at boot (\<open>services/scheduler.service.ts\<close>).
  \<^item> Tools: the Python tools of an agent (\<open>services/tools/\<close>): definition files, the comparison of a
    tool with its implementation's signature at boot, the files a run is given, and the call with
    its audit record.
  \<^item> Template: \<open>lib/template/template-engine.ts\<close>. The worker's template renderer is a parameter there;
    here the tags around nunjucks are resolved, with the confinement of shared documents.
  \<^item> Boot, Access: the agents loaded with their checks and the providers merged
    (\<open>services/agent-loader.service.ts\<close>, \<open>config.ts\<close>); the gates of the HTTP routes (\<open>middleware/\<close>,
    \<open>routes/\<close>) and the builder's deploy signal.

  \<^bold>\<open>Composition.\<close> Properties that span components stand in the highest of the theories they
  need: the webhook route over ingest and signatures (Webhook), the worker over the envelope that
  ingest writes and the rules it routed by (Worker), scheduled tasks over the registry and the
  runner (Tasks), the command-line runner over its stream parser (CliRunner), the schedules of the
  configuration over the registry (StaticSchedules), the loaded agents over the tools, the memory
  service and the verification of webhooks (Boot).

  \<^bold>\<open>Bounds and fuel.\<close> Recursions follow the data or a measure and are total. The reader of JSON takes
  two units of fuel for each character of its text: a level of nesting costs two calls and at
  least one character, and the round trip of Json confirms it. The client loop over task pages takes the number of pages as
  fuel, and a theorem shows that one more than the number of tasks is enough. A job is retried until its
  attempts reach \<open>maxAttempts\<close>, the measure of that loop. Integers of the program are far below
  2 to the power 53, so the model has no machine width.

  \<^bold>\<open>Parameters.\<close> Regular expressions, SHA-256, HMAC and RSA, SQLite's text matchers, the cron parser,
  embeddings and their cosine, time-zone offsets, the template renderer of the worker, the answers of
  the network and of the file system are arguments of the definitions that use them. A law a
  property needs of one is a hypothesis of that property, and its witness gives an instance.

  \<^bold>\<open>Not modelled.\<close> Schema validation by zod, YAML files and the commands of git; the wiring
  of Express, BullMQ and Redis connections; socket transports; HTTP calls to embedding,
  mail and chat services; the secret backends behind the provider interface; command-line reports
  and the editing of workspaces with git: they are input and output around the logic
  above. Fractions in JSON, characters outside the eight-bit range, and the sizes of floating-point numbers lie
  outside the data model; the definitions say where that matters.
\<close>

end
